(* ===== verification/Prelude.thy ===== *)
theory Prelude
  imports Main "HOL-Library.Word" "HOL-Library.Multiset"
begin

text \<open>
  What every component shares: the collections of rewrite rules the component theories add to,
  the names of the machine types the C++ code uses, the byte type of buffers, and generic facts
  on lists (overwriting a segment of a buffer, cyclic successors of a list of distinct elements)
  and on runs of a state machine over a list of events.
\<close>

unbundle bit_operations_syntax

section \<open>Collections\<close>

named_theorems om_simps \<open>how a lookup in an ordered map sees an update of it\<close>
named_theorems hdr_simps \<open>how a field of the packet header sees an update of another\<close>
named_theorems pool_defs \<open>definitions of the buffer pools\<close>
named_theorems cm_defs \<open>definitions of the operations of the connection manager\<close>

section \<open>Machine types\<close>

type_synonym byte = "8 word"
type_synonym uint16 = "16 word"
type_synonym uint32 = "32 word"
type_synonym uint64 = "64 word"
type_synonym ulong = "64 word"

text \<open>An IPv4 address as \<open>boost::asio::ip::address_v4\<close> compares it: by its value in host order.\<close>

type_synonym tcp_addr = "32 word"

section \<open>Overwriting a segment of a buffer\<close>

text \<open>\<open>store_at xs off ys\<close>: the buffer \<open>xs\<close> after \<open>ys\<close> is stored at offset \<open>off\<close>.\<close>

definition store_at :: "'a list \<Rightarrow> nat \<Rightarrow> 'a list \<Rightarrow> 'a list" where
  "store_at xs off ys = take off xs @ ys @ drop (off + length ys) xs"

lemma length_store_at [simp]:
  "off + length ys \<le> length xs \<Longrightarrow> length (store_at xs off ys) = length xs"
  by (simp add: store_at_def)

lemma store_at_Nil [simp]: "store_at xs off [] = xs"
  by (simp add: store_at_def)

lemma store_at_0_full [simp]: "length ys = length xs \<Longrightarrow> store_at xs 0 ys = ys"
  by (simp add: store_at_def)

lemma take_store_at_before [simp]:
  "n \<le> off \<Longrightarrow> off \<le> length xs \<Longrightarrow> take n (store_at xs off ys) = take n xs"
  by (simp add: store_at_def)

lemma take_store_at_at:
  "off \<le> length xs \<Longrightarrow> take (off + length ys) (store_at xs off ys) = take off xs @ ys"
  by (simp add: store_at_def)

lemma drop_store_at_after [simp]:
  "off + length ys \<le> n \<Longrightarrow> off + length ys \<le> length xs \<Longrightarrow>
   drop n (store_at xs off ys) = drop n xs"
  by (simp add: store_at_def)

lemma read_store_at_same [simp]:
  "off \<le> length xs \<Longrightarrow> n = length ys \<Longrightarrow> take n (drop off (store_at xs off ys)) = ys"
  by (simp add: store_at_def)

lemma read_store_at_before [simp]:
  "a + n \<le> off \<Longrightarrow> off \<le> length xs \<Longrightarrow>
   take n (drop a (store_at xs off ys)) = take n (drop a xs)"
  by (simp add: store_at_def take_drop)

lemma read_store_at_after [simp]:
  "off + length ys \<le> a \<Longrightarrow> off + length ys \<le> length xs \<Longrightarrow>
   take n (drop a (store_at xs off ys)) = take n (drop a xs)"
  by simp

text \<open>Storing two adjacent segments is storing their concatenation.\<close>

lemma store_at_store_at_adjacent:
  assumes "off + length ys + length zs \<le> length xs"
  shows "store_at (store_at xs off ys) (off + length ys) zs = store_at xs off (ys @ zs)"
proof -
  have "take (off + length ys) (store_at xs off ys) = take off xs @ ys"
    using assms by (intro take_store_at_at) simp
  moreover have "drop (off + length ys + length zs) (store_at xs off ys) =
      drop (off + length ys + length zs) xs"
    using assms by (intro drop_store_at_after) auto
  ultimately show ?thesis
    using assms by (simp add: store_at_def [of "store_at xs off ys"] store_at_def [of xs off "ys @ zs"]
        add.assoc)
qed

section \<open>Cyclic successors\<close>

text \<open>The element after \<open>x\<close> in a list, the first one after the last.\<close>

definition cyc_next :: "'a list \<Rightarrow> 'a \<Rightarrow> 'a" where
  "cyc_next ks x = (case dropWhile (\<lambda>y. y \<noteq> x) ks of _ # y # _ \<Rightarrow> y | _ \<Rightarrow> hd ks)"

lemma dropWhile_nth:
  "distinct ks \<Longrightarrow> i < length ks \<Longrightarrow> dropWhile (\<lambda>y. y \<noteq> ks ! i) ks = drop i ks"
  by (induction ks arbitrary: i) (auto simp: nth_Cons' less_Suc_eq_0_disj)

lemma cyc_next_nth:
  assumes "distinct ks" "i < length ks"
  shows "cyc_next ks (ks ! i) = ks ! (Suc i mod length ks)"
proof (cases "Suc i < length ks")
  case True
  then have "drop i ks = ks ! i # ks ! Suc i # drop (Suc (Suc i)) ks"
    by (simp add: Cons_nth_drop_Suc Suc_lessD)
  with True assms show ?thesis by (simp add: cyc_next_def dropWhile_nth)
next
  case False
  with assms have "Suc i = length ks" by simp
  then have "drop i ks = [ks ! i]"
    by (metis Cons_nth_drop_Suc assms(2) drop_all order_refl)
  with False assms show ?thesis
    by (simp add: cyc_next_def dropWhile_nth hd_conv_nth \<open>Suc i = length ks\<close> [symmetric])
       (metis \<open>Suc i = length ks\<close> hd_conv_nth list.size(3) mod_self nat.distinct(1))
qed

lemma funpow_cyc_next_nth:
  assumes "distinct ks" "i < length ks"
  shows "(cyc_next ks ^^ n) (ks ! i) = ks ! ((i + n) mod length ks)"
proof (induction n)
  case 0
  with assms show ?case by simp
next
  case (Suc n)
  have "(i + n) mod length ks < length ks" using assms by (intro mod_less_divisor) auto
  with Suc assms show ?case by (simp add: cyc_next_nth mod_Suc_eq)
qed

lemma cyc_next_orbit:
  assumes "distinct ks" "x \<in> set ks"
  shows "(cyc_next ks ^^ length ks) x = x"
proof -
  from assms(2) obtain i where "i < length ks" "x = ks ! i" by (auto simp: in_set_conv_nth)
  with assms(1) show ?thesis by (simp add: funpow_cyc_next_nth)
qed

lemma cyc_next_reaches:
  assumes "distinct ks" "x \<in> set ks" "y \<in> set ks"
  shows "\<exists>n < length ks. (cyc_next ks ^^ n) x = y"
proof -
  from assms obtain i j where ij: "i < length ks" "x = ks ! i" "j < length ks" "y = ks ! j"
    by (auto simp: in_set_conv_nth)
  define n where "n = (j + length ks - i) mod length ks"
  have "(i + n) mod length ks = j"
    using ij by (simp add: n_def mod_add_right_eq)
  moreover have "n < length ks" unfolding n_def using ij by (intro mod_less_divisor) linarith
  ultimately show ?thesis using ij assms(1) by (auto simp: funpow_cyc_next_nth)
qed

lemma cyc_next_in: "distinct ks \<Longrightarrow> x \<in> set ks \<Longrightarrow> cyc_next ks x \<in> set ks"
  by (metis cyc_next_nth in_set_conv_nth length_pos_if_in_set mod_less_divisor)

lemma cyc_next_neq:
  assumes "distinct ks" "x \<in> set ks" "1 < length ks"
  shows "cyc_next ks x \<noteq> x"
proof -
  from assms obtain i where i: "i < length ks" "x = ks ! i" by (auto simp: in_set_conv_nth)
  have "Suc i mod length ks \<noteq> i"
    using i(1) assms(3) by (cases "Suc i = length ks") auto
  moreover have "Suc i mod length ks < length ks" using i by (intro mod_less_divisor) linarith
  ultimately show ?thesis using i assms by (simp add: cyc_next_nth nth_eq_iff_index_eq)
qed

section \<open>Runs of a state machine\<close>

text \<open>A property that every step keeps holds after every run.\<close>

lemma fold_invariant_run:
  assumes "P s" and "\<And>e s. e \<in> set es \<Longrightarrow> P s \<Longrightarrow> P (f e s)"
  shows "P (fold f es s)"
  using assms by (induction es arbitrary: s) auto

end
