(* ===== verification/Ordered_Map.thy ===== *)
theory Ordered_Map
  imports Prelude
begin

text \<open>
  \<open>std::map\<close>: the containers of the connection manager and of the websocket server iterate in key
  order, and the code uses that order (\<open>begin()\<close>, \<open>std::next\<close>). A map is an association list sorted
  strictly by key. The locale \<open>std_map\<close> is what the components rely on; its lemmas (domains, key
  lists, cyclic successors of keys) are proved once from its laws and reach the components through
  the interpretation \<open>om\<close>.
\<close>

section \<open>The interface\<close>

locale std_map =
  fixes find :: "'m \<Rightarrow> 'k::linorder \<Rightarrow> 'v option"
    and put :: "'k \<Rightarrow> 'v \<Rightarrow> 'm \<Rightarrow> 'm"
    and erase :: "'k \<Rightarrow> 'm \<Rightarrow> 'm"
    and keys :: "'m \<Rightarrow> 'k list"
    and wf :: "'m \<Rightarrow> bool"
    and emp :: 'm
  assumes find_emp: "find emp k = None"
    and wf_emp: "wf emp"
    and find_put: "wf m \<Longrightarrow> find (put k v m) k' = (if k' = k then Some v else find m k')"
    and wf_put: "wf m \<Longrightarrow> wf (put k v m)"
    and find_erase: "wf m \<Longrightarrow> find (erase k m) k' = (if k' = k then None else find m k')"
    and wf_erase: "wf m \<Longrightarrow> wf (erase k m)"
    and keys_sorted: "wf m \<Longrightarrow> sorted_wrt (<) (keys m)"
    and set_keys: "wf m \<Longrightarrow> set (keys m) = {k. find m k \<noteq> None}"
begin

lemma distinct_keys: "wf m \<Longrightarrow> distinct (keys m)"
  using keys_sorted strict_sorted_iff by blast

lemma keys_eqI:
  assumes "wf m" "wf m'" "\<And>k. (find m k = None) = (find m' k = None)"
  shows "keys m = keys m'"
proof -
  have "set (keys m) = set (keys m')" using assms by (auto simp: set_keys)
  then show ?thesis using assms(1,2) by (intro strict_sorted_equal keys_sorted) auto
qed

lemma keys_put_present: "wf m \<Longrightarrow> find m k \<noteq> None \<Longrightarrow> keys (put k v m) = keys m"
  by (intro keys_eqI) (auto simp: wf_put find_put)

lemma set_keys_put: "wf m \<Longrightarrow> set (keys (put k v m)) = insert k (set (keys m))"
  by (auto simp: set_keys wf_put find_put)

lemma set_keys_erase: "wf m \<Longrightarrow> set (keys (erase k m)) = set (keys m) - {k}"
  by (auto simp: set_keys wf_erase find_erase)

lemma length_keys_put_new:
  assumes "wf m" "find m k = None"
  shows "length (keys (put k v m)) = Suc (length (keys m))"
proof -
  have "k \<notin> set (keys m)" using assms by (simp add: set_keys)
  then have "card (set (keys (put k v m))) = Suc (card (set (keys m)))"
    using assms by (simp add: set_keys_put)
  then show ?thesis using assms by (simp add: distinct_card distinct_keys wf_put)
qed

lemma keys_empty_iff: "wf m \<Longrightarrow> keys m = [] \<longleftrightarrow> (\<forall>k. find m k = None)"
  by (metis (mono_tags, lifting) empty_Collect_eq set_empty2 set_keys)

lemma hd_keys_least:
  assumes "wf m" "find m k \<noteq> None"
  shows "find m (hd (keys m)) \<noteq> None \<and> hd (keys m) \<le> k"
proof -
  have k: "k \<in> set (keys m)" using assms by (simp add: set_keys)
  then obtain x xs where x: "keys m = x # xs" by (cases "keys m") auto
  then have "find m x \<noteq> None" using set_keys [OF assms(1)] by auto
  then show ?thesis using k x keys_sorted [OF assms(1)] by auto
qed

text \<open>Walking round the keys: every key comes up, and after as many steps as there are keys the
  walk is back where it began.\<close>

lemma next_key_present:
  "wf m \<Longrightarrow> find m k \<noteq> None \<Longrightarrow> find m (cyc_next (keys m) k) \<noteq> None"
  using cyc_next_in [OF distinct_keys, of m k] by (auto simp: set_keys)

lemma next_key_other:
  "wf m \<Longrightarrow> find m k \<noteq> None \<Longrightarrow> 1 < length (keys m) \<Longrightarrow> cyc_next (keys m) k \<noteq> k"
  by (intro cyc_next_neq distinct_keys) (auto simp: set_keys)

lemma next_key_orbit:
  "wf m \<Longrightarrow> find m k \<noteq> None \<Longrightarrow> (cyc_next (keys m) ^^ length (keys m)) k = k"
  by (intro cyc_next_orbit distinct_keys) (auto simp: set_keys)

lemma next_key_reaches:
  "wf m \<Longrightarrow> find m k \<noteq> None \<Longrightarrow> find m k' \<noteq> None \<Longrightarrow>
   \<exists>n < length (keys m). (cyc_next (keys m) ^^ n) k = k'"
  by (intro cyc_next_reaches distinct_keys) (auto simp: set_keys)

end

section \<open>Sorted association lists\<close>

definition om_keys :: "('k \<times> 'v) list \<Rightarrow> 'k list" where
  "om_keys m = map fst m"

definition om_wf :: "('k::linorder \<times> 'v) list \<Rightarrow> bool" where
  "om_wf m \<longleftrightarrow> sorted_wrt (<) (om_keys m)"

definition om_find :: "('k \<times> 'v) list \<Rightarrow> 'k \<Rightarrow> 'v option" where
  "om_find m k = map_of m k"

text \<open>\<open>m[k] = v\<close> of \<open>std::map\<close>.\<close>

fun om_put :: "'k::linorder \<Rightarrow> 'v \<Rightarrow> ('k \<times> 'v) list \<Rightarrow> ('k \<times> 'v) list" where
  "om_put k v [] = [(k, v)]"
| "om_put k v ((a, b) # m) =
     (if k < a then (k, v) # (a, b) # m
      else if k = a then (k, v) # m
      else (a, b) # om_put k v m)"

fun om_erase :: "'k \<Rightarrow> ('k \<times> 'v) list \<Rightarrow> ('k \<times> 'v) list" where
  "om_erase k [] = []"
| "om_erase k ((a, b) # m) = (if k = a then m else (a, b) # om_erase k m)"

text \<open>\<open>std::next\<close> of the entry with key \<open>k\<close>, or \<open>begin()\<close> when that is \<open>end()\<close>: the code's rotation.\<close>

definition om_next_or_begin :: "('k \<times> 'v) list \<Rightarrow> 'k \<Rightarrow> 'k" where
  "om_next_or_begin m k = cyc_next (om_keys m) k"

lemma om_wf_Nil [simp]: "om_wf []"
  by (simp add: om_wf_def om_keys_def)

lemma om_wf_Cons: "om_wf ((a, b) # m) \<longleftrightarrow> om_wf m \<and> (\<forall>k \<in> fst ` set m. a < k)"
  by (auto simp: om_wf_def om_keys_def)

lemma set_keys_om_put: "fst ` set (om_put k v m) = insert k (fst ` set m)"
  by (induction k v m rule: om_put.induct) auto

lemma keys_om_erase_subset: "fst ` set (om_erase k m) \<subseteq> fst ` set m"
  by (induction k m rule: om_erase.induct) auto

lemma om_wf_put [simp, intro]: "om_wf m \<Longrightarrow> om_wf (om_put k v m)"
  by (induction k v m rule: om_put.induct) (auto simp: om_wf_Cons set_keys_om_put)

lemma om_wf_erase [simp, intro]: "om_wf m \<Longrightarrow> om_wf (om_erase k m)"
  using keys_om_erase_subset
  by (induction k m rule: om_erase.induct) (fastforce simp: om_wf_Cons)+

lemma om_find_put [simp, om_simps]:
  "om_find (om_put k v m) k' = (if k' = k then Some v else om_find m k')"
  by (induction k v m rule: om_put.induct) (auto simp: om_find_def)

lemma om_put_not_Nil [simp]: "om_put k v m \<noteq> []"
  by (induction k v m rule: om_put.induct) auto

lemma om_erase_absent: "om_find m k = None \<Longrightarrow> om_erase k m = m"
  by (induction k m rule: om_erase.induct) (auto simp: om_find_def split: if_splits)

lemma om_find_erase [om_simps]:
  "om_wf m \<Longrightarrow> om_find (om_erase k m) k' = (if k' = k then None else om_find m k')"
proof (induction k m rule: om_erase.induct)
  case (2 k a b m)
  have "\<not> a < a" by simp
  with 2 have "a \<notin> fst ` set m" by (auto simp: om_wf_Cons)
  then have "map_of m a = None" by (simp add: map_of_eq_None_iff)
  with 2 show ?case by (auto simp: om_find_def om_wf_Cons)
qed (simp add: om_find_def)

lemma dom_om_put [simp]: "dom (om_find (om_put k v m)) = insert k (dom (om_find m))"
  by (auto split: if_splits)

lemma dom_om_erase [simp]: "om_wf m \<Longrightarrow> dom (om_find (om_erase k m)) = dom (om_find m) - {k}"
  by (auto simp: om_find_erase split: if_splits)

interpretation om: std_map om_find om_put om_erase om_keys om_wf "[]"
proof (unfold_locales, goal_cases)
  case (1 k) show ?case by (simp add: om_find_def)
next
  case (8 m) show ?case
    by (simp add: om_find_def om_keys_def map_of_eq_None_iff set_eq_iff)
qed (auto simp: om_find_erase om_wf_def [symmetric] intro: om_wf_put om_wf_erase)

lemmas om_laws = om.find_put om.find_erase om.set_keys om.set_keys_put om.set_keys_erase

section \<open>Entries\<close>

lemma om_find_Nil [simp]: "om_find [] k = None"
  by (simp add: om_find_def)

lemma om_find_Nil_fun [simp]: "om_find [] = Map.empty"
  by (rule ext) simp

lemma om_find_in_set: "om_wf m \<Longrightarrow> om_find m k = Some v \<longleftrightarrow> (k, v) \<in> set m"
  by (metis distinct_map map_of_eq_Some_iff om.distinct_keys om_find_def om_keys_def
      map_of_SomeD map_of_is_SomeI)

lemma om_find_map_values:
  "om_find (map (\<lambda>(k, v). (k, f k v)) m) k = map_option (f k) (om_find m k)"
  by (induction m) (auto simp: om_find_def)

lemma om_keys_map_values [simp]: "om_keys (map (\<lambda>(k, v). (k, f k v)) m) = om_keys m"
  by (simp add: om_keys_def split_beta comp_def)

lemma om_wf_map_values [simp]: "om_wf (map (\<lambda>(k, v). (k, f k v)) m) = om_wf m"
  by (simp add: om_wf_def)

lemma length_om_keys [simp]: "length (om_keys m) = length m"
  by (simp add: om_keys_def)

lemma dom_om_find: "dom (om_find m) = fst ` set m"
proof -
  have "om_find m = map_of m" by (rule ext) (simp add: om_find_def)
  then show ?thesis by (simp add: dom_map_of_conv_image_fst)
qed

lemma om_find_hd [simp]: "om_find ((k, v) # m) k = Some v"
  by (simp add: om_find_def)

lemma om_find_Cons: "om_find ((k, v) # m) k' = (if k' = k then Some v else om_find m k')"
  by (simp add: om_find_def)

lemma om_next_or_begin_in:
  "om_wf m \<Longrightarrow> om_find m k \<noteq> None \<Longrightarrow> om_find m (om_next_or_begin m k) \<noteq> None"
  unfolding om_next_or_begin_def by (rule om.next_key_present)

lemma om_next_or_begin_other:
  "om_wf m \<Longrightarrow> om_find m k \<noteq> None \<Longrightarrow> length m \<noteq> 1 \<Longrightarrow> om_next_or_begin m k \<noteq> k"
  unfolding om_next_or_begin_def
  by (rule om.next_key_other) (cases m; cases "tl m"; auto)+

text \<open>Filling a map from the entries of another.\<close>

lemma om_find_fold_put_const:
  "om_find (fold (\<lambda>x. om_put (f x) c) xs m) k =
     (if k \<in> f ` set xs then Some c else om_find m k)"
  by (induction xs arbitrary: m) auto

lemma om_wf_fold_put [simp]:
  "om_wf m \<Longrightarrow> om_wf (fold (\<lambda>x. om_put (f x) (g x)) xs m)"
  by (induction xs arbitrary: m) auto

end
