(* ===== verification/Asio_Context.thy ===== *)
theory Asio_Context
  imports Prelude
begin

text \<open>
  \<open>src/internal/utils/asio_context.hpp\<close>: the connection types and endpoints every component
  names, and the thread pool \<open>AsioContext\<close> that runs the completion handlers. A pool thread is
  either not yet started (a default-constructed \<open>std::thread\<close>) or running \<open>context.run()\<close>.
\<close>

section \<open>Connection types and endpoints\<close>

datatype connection_type =
  CAMERA_CONNECTION | HEADSET_CONNECTION | DISPLAY_CONNECTION | UNKNOWN_CONNECTION

record endpoint =
  ep_addr :: tcp_addr
  ep_port :: uint16

section \<open>The thread pool\<close>

datatype pool_thread = NoThread | Running

record asio_context =
  ctx_stopped :: bool
  work_guard :: bool
  pool :: "pool_thread list"
  asio_stop :: bool
  asio_started :: bool

definition asio_create :: "nat \<Rightarrow> asio_context" where
  "asio_create pool_size =
     \<lparr>ctx_stopped = False, work_guard = True, pool = replicate pool_size NoThread,
      asio_stop = False, asio_started = False\<rparr>"

text \<open>\<open>std::generate\<close> overwrites every element of the pool with a started thread.\<close>

definition asio_start :: "asio_context \<Rightarrow> asio_context" where
  "asio_start c =
     (if asio_started c then c
      else c\<lparr>asio_started := True, asio_stop := False, pool := map (\<lambda>_. Running) (pool c)\<rparr>)"

text \<open>\<open>Stop\<close> joins every thread (they return: the context is stopped and \<open>_stop\<close> is set) and
  empties the pool.\<close>

definition asio_halt :: "asio_context \<Rightarrow> asio_context" where
  "asio_halt c =
     (if \<not> asio_started c then c
      else
        let c1 = (if \<not> ctx_stopped c then c\<lparr>work_guard := False, ctx_stopped := True\<rparr> else c);
            c2 = (if \<not> asio_stop c1 then c1\<lparr>asio_stop := True, pool := []\<rparr> else c1)
        in c2\<lparr>asio_started := False\<rparr>)"

definition asio_running :: "asio_context \<Rightarrow> nat" where
  "asio_running c = length (filter (\<lambda>t. t = Running) (pool c))"

lemma asio_start_idem [simp]: "asio_start (asio_start c) = asio_start c"
  by (simp add: asio_start_def)

lemma asio_halt_idem [simp]: "asio_halt (asio_halt c) = asio_halt c"
  by (simp add: asio_halt_def Let_def)

lemma asio_start_running: "\<not> asio_started c \<Longrightarrow> asio_running (asio_start c) = length (pool c)"
  by (simp add: asio_start_def asio_running_def)

lemma asio_halt_running: "asio_started c \<Longrightarrow> \<not> asio_stop c \<Longrightarrow> asio_running (asio_halt c) = 0"
  by (simp add: asio_halt_def asio_running_def Let_def)

text \<open>Starting a context created for \<open>n\<close> threads runs \<open>n\<close> threads, stopping it
  leaves none and a stopped \<open>io_context\<close>, and a second start then runs no thread at all: the pool
  was emptied, so a stopped \<open>AsioContext\<close> cannot be restarted.\<close>

theorem asio_restart_runs_nothing:
  "asio_running (asio_start (asio_create n)) = n \<and>
   asio_running (asio_halt (asio_start (asio_create n))) = 0 \<and>
   ctx_stopped (asio_halt (asio_start (asio_create n))) \<and>
   asio_running (asio_start (asio_halt (asio_start (asio_create n)))) = 0 \<and>
   ctx_stopped (asio_start (asio_halt (asio_start (asio_create n))))"
  by (simp add: asio_create_def asio_start_def asio_halt_def asio_running_def Let_def)

end
