(* ===== verification/Connection_Manager.thy ===== *)
theory Connection_Manager
  imports Ordered_Map Asio_Context
begin

text \<open>
  \<open>src/internal/service/server/connection_manager.cpp\<close>: which headsets and displays (writers) are
  fed by which camera (reader). A session is a \<open>shared_ptr\<close> to an object whose address never
  changes but whose id is assigned after registration, so a session value is the pointer and the
  constant address, and the ids are read from the heap \<open>ids\<close> at the moment the code reads them.
  Every operation is its critical sections in the order of the code; \<open>Add...\<close> take the locks
  twice, so their two sections are definitions of their own.
\<close>

section \<open>State\<close>

record session =
  sess_ptr :: nat
  sess_addr :: tcp_addr

type_synonym id_heap = "nat \<Rightarrow> ulong"

record conn_manager =
  last_session_number :: ulong
  reader_sessions :: "(tcp_addr \<times> session) list"
  writer_sessions :: "(tcp_addr \<times> session) list"
  reader_connections :: "(tcp_addr \<times> session list) list"
  writer_connections :: "(tcp_addr \<times> tcp_addr) list"

definition cm_init :: conn_manager where
  "cm_init = \<lparr>last_session_number = 0, reader_sessions = [], writer_sessions = [],
     reader_connections = [], writer_connections = []\<rparr>"

text \<open>The calls out of the manager are part of the results: the sessions on which \<open>TryClose(false)\<close>
  is called, and the buffers written, each with the session it is written on.\<close>

section \<open>Registration of readers (cameras)\<close>

text \<open>First section of \<open>AddReaderSession\<close>, under \<open>_reader_mutex\<close>: register the session, remember
  the one it replaces and whether it is the first.\<close>

definition add_reader_1 :: "session \<Rightarrow> conn_manager \<Rightarrow> conn_manager \<times> bool \<times> session option" where
  "add_reader_1 s m =
     (m\<lparr>reader_sessions := om_put (sess_addr s) s (reader_sessions m)\<rparr>,
      reader_sessions m = [],
      om_find (reader_sessions m) (sess_addr s))"

text \<open>Second section, under \<open>_writer_mutex\<close> (shared) and \<open>_connection_mutex\<close>: the first reader
  takes every writer, another one starts with no connection.\<close>

definition add_reader_2 :: "tcp_addr \<Rightarrow> bool \<Rightarrow> conn_manager \<Rightarrow> conn_manager" where
  "add_reader_2 reader_addr is_first_reader m =
     (if is_first_reader then
        m\<lparr>writer_connections :=
             fold (\<lambda>e. om_put (fst e) reader_addr) (writer_sessions m) (writer_connections m),
           reader_connections :=
             om_put reader_addr (map snd (writer_sessions m)) (reader_connections m)\<rparr>
      else m\<lparr>reader_connections := om_put reader_addr [] (reader_connections m)\<rparr>)"

text \<open>Last, with no lock: close the replaced session, draw the session number.\<close>

definition finish_add ::
    "session option \<Rightarrow> conn_manager \<Rightarrow> conn_manager \<times> session list \<times> ulong" where
  "finish_add old m =
     (let m' = m\<lparr>last_session_number := last_session_number m + 1\<rparr>
      in (m', (case old of None \<Rightarrow> [] | Some o' \<Rightarrow> [o']), last_session_number m'))"

definition AddReaderSession ::
    "session \<Rightarrow> conn_manager \<Rightarrow> conn_manager \<times> session list \<times> ulong" where
  "AddReaderSession s m =
     (case add_reader_1 s m of (m1, is_first, old) \<Rightarrow>
        finish_add old (add_reader_2 (sess_addr s) is_first m1))"

text \<open>The loop that moves the connections of a dead reader to its replacement, one at a time.\<close>

fun move_connections ::
    "tcp_addr \<Rightarrow> session list \<Rightarrow> session list \<Rightarrow> (tcp_addr \<times> tcp_addr) list
     \<Rightarrow> session list \<times> (tcp_addr \<times> tcp_addr) list" where
  "move_connections r [] to wc = (to, wc)"
| "move_connections r (w # dead) to wc =
     move_connections r dead (to @ [w]) (om_put (sess_addr w) r wc)"

definition RemoveReaderSession :: "id_heap \<Rightarrow> session \<Rightarrow> conn_manager \<Rightarrow> conn_manager" where
  "RemoveReaderSession ids s m =
     (let dead_addr = sess_addr s; dead_id = ids (sess_ptr s) in
      case om_find (reader_sessions m) dead_addr of
        None \<Rightarrow> m
      | Some dead_reader \<Rightarrow>
          if ids (sess_ptr dead_reader) \<noteq> dead_id then m
          else if length (reader_sessions m) = 1 then
            m\<lparr>writer_connections := [], reader_connections := [], reader_sessions := []\<rparr>
          else case om_find (reader_connections m) dead_addr of
            None \<Rightarrow> m\<lparr>reader_sessions := om_erase dead_addr (reader_sessions m)\<rparr>
          | Some dead_connections \<Rightarrow>
              if dead_connections = [] then
                m\<lparr>reader_connections := om_erase dead_addr (reader_connections m),
                  reader_sessions := om_erase dead_addr (reader_sessions m)\<rparr>
              else
                let replacement_addr = om_next_or_begin (reader_sessions m) dead_addr;
                    rc = (if om_find (reader_connections m) replacement_addr = None
                          then om_put replacement_addr [] (reader_connections m)
                          else reader_connections m);
                    (conns, wc) = move_connections replacement_addr dead_connections
                      (case om_find rc replacement_addr of None \<Rightarrow> [] | Some c \<Rightarrow> c)
                      (writer_connections m)
                in m\<lparr>reader_connections := om_erase dead_addr (om_put replacement_addr conns rc),
                     reader_sessions := om_erase dead_addr (reader_sessions m),
                     writer_connections := wc\<rparr>)"

section \<open>Registration of writers (headsets and displays)\<close>

text \<open>First section of \<open>AddWriterSession\<close>: register the session, remember the one it replaces and
  whether that one is connected. The code keeps a pointer into \<open>_writer_connections\<close>; the flag
  says whether it is non-null.\<close>

definition add_writer_1 :: "session \<Rightarrow> conn_manager \<Rightarrow> conn_manager \<times> bool \<times> session option" where
  "add_writer_1 s m =
     (let current = om_find (writer_sessions m) (sess_addr s) in
      (m\<lparr>writer_sessions := om_put (sess_addr s) s (writer_sessions m)\<rparr>,
       current \<noteq> None \<and> om_find (writer_connections m) (sess_addr s) \<noteq> None,
       current))"

text \<open>\<open>std::find\<close> by pointer and \<open>swap\<close>: the first occurrence is replaced.\<close>

fun replace_first :: "session \<Rightarrow> session \<Rightarrow> session list \<Rightarrow> session list" where
  "replace_first old new [] = []"
| "replace_first old new (x # xs) = (if x = old then new # xs else x # replace_first old new xs)"

text \<open>Second section: a new writer goes to the first reader; a reconnecting one takes the place of
  its old session in the list of its reader. The second case dereferences the pointer kept from
  the first section: \<open>None\<close> is the dangling pointer, when the entry was erased in between.\<close>

definition add_writer_2 ::
    "session \<Rightarrow> bool \<Rightarrow> session option \<Rightarrow> conn_manager \<Rightarrow> conn_manager option" where
  "add_writer_2 s replace old m =
     (if \<not> replace then
        (case reader_sessions m of
           [] \<Rightarrow> Some m
         | (reader_addr, _) # _ \<Rightarrow>
             (case om_find (reader_connections m) reader_addr of
                None \<Rightarrow> Some m
              | Some conns \<Rightarrow>
                  Some (m\<lparr>reader_connections :=
                            om_put reader_addr (conns @ [s]) (reader_connections m),
                          writer_connections :=
                            om_put (sess_addr s) reader_addr (writer_connections m)\<rparr>)))
      else
        (case om_find (writer_connections m) (sess_addr s) of
           None \<Rightarrow> None
         | Some reader_addr \<Rightarrow>
             (case om_find (reader_connections m) reader_addr of
                None \<Rightarrow> Some m
              | Some conns \<Rightarrow>
                  Some (case old of
                          None \<Rightarrow> m
                        | Some o' \<Rightarrow> m\<lparr>reader_connections :=
                            om_put reader_addr (replace_first o' s conns)
                              (reader_connections m)\<rparr>))))"

definition AddWriterSession ::
    "session \<Rightarrow> conn_manager \<Rightarrow> (conn_manager \<times> session list \<times> ulong) option" where
  "AddWriterSession s m =
     (case add_writer_1 s m of (m1, replace, old) \<Rightarrow>
        map_option (finish_add old) (add_writer_2 s replace old m1))"

definition RemoveWriterSession :: "id_heap \<Rightarrow> session \<Rightarrow> conn_manager \<Rightarrow> conn_manager" where
  "RemoveWriterSession ids s m =
     (let dead_addr = sess_addr s; dead_id = ids (sess_ptr s) in
      case om_find (writer_sessions m) dead_addr of
        None \<Rightarrow> m
      | Some dead_writer \<Rightarrow>
          if ids (sess_ptr dead_writer) \<noteq> dead_id then m
          else if length (writer_sessions m) = 1 then
            m\<lparr>writer_connections := [],
              reader_connections := map (\<lambda>(r, c). (r, [])) (reader_connections m),
              writer_sessions := []\<rparr>
          else case om_find (writer_connections m) dead_addr of
            None \<Rightarrow> m\<lparr>writer_sessions := om_erase dead_addr (writer_sessions m)\<rparr>
          | Some reader_addr \<Rightarrow>
              let m' = m\<lparr>writer_connections := om_erase dead_addr (writer_connections m),
                         writer_sessions := om_erase dead_addr (writer_sessions m)\<rparr>
              in case om_find (reader_connections m) reader_addr of
                   None \<Rightarrow> m'
                 | Some conns \<Rightarrow>
                     if s \<notin> set conns then m'
                     else m'\<lparr>reader_connections :=
                               om_put reader_addr (remove1 s conns) (reader_connections m)\<rparr>)"

section \<open>Frames\<close>

text \<open>\<open>PostMessage\<close>: one \<open>Write\<close> per connection of the reader, in order.\<close>

definition PostMessage :: "tcp_addr \<Rightarrow> 'b \<Rightarrow> conn_manager \<Rightarrow> (session \<times> 'b) list" where
  "PostMessage addr buffer m =
     (case om_find (reader_connections m) addr of
        None \<Rightarrow> []
      | Some conns \<Rightarrow> map (\<lambda>w. (w, buffer)) conns)"

section \<open>Connection management\<close>

definition GetConnectionCounts :: "conn_manager \<Rightarrow> nat \<times> nat" where
  "GetConnectionCounts m = (length (reader_connections m), length (writer_connections m))"

text \<open>The first connection of a writer address in a list (\<open>std::find_if\<close>), and the list without it.\<close>

fun take_writer :: "tcp_addr \<Rightarrow> session list \<Rightarrow> (session \<times> session list) option" where
  "take_writer a [] = None"
| "take_writer a (w # ws) =
     (if sess_addr w = a then Some (w, ws)
      else map_option (\<lambda>(x, xs). (x, w # xs)) (take_writer a ws))"

definition RotateWriterConnection :: "tcp_addr \<Rightarrow> conn_manager \<Rightarrow> conn_manager \<times> bool" where
  "RotateWriterConnection writer_addr m =
     (case om_find (writer_connections m) writer_addr of
        None \<Rightarrow> (m, False)
      | Some current_addr \<Rightarrow>
          if om_find (reader_sessions m) current_addr = None then (m, False)
          else if length (reader_sessions m) = 1 then (m, True)
          else case om_find (reader_connections m) current_addr of
            None \<Rightarrow> (m, False)
          | Some current \<Rightarrow>
              if current = [] then (m, False)
              else
                let next_addr = om_next_or_begin (reader_sessions m) current_addr in
                case om_find (reader_connections m) next_addr of
                  None \<Rightarrow> (m, False)
                | Some next \<Rightarrow>
                    (case take_writer writer_addr current of
                       None \<Rightarrow> (m, False)
                     | Some (w, rest) \<Rightarrow>
                         (m\<lparr>reader_connections :=
                              om_put current_addr rest
                                (om_put next_addr (next @ [w]) (reader_connections m)),
                            writer_connections :=
                              om_put writer_addr next_addr (writer_connections m)\<rparr>, True)))"

definition ResetWriterConnection :: "tcp_addr \<Rightarrow> conn_manager \<Rightarrow> conn_manager \<times> bool" where
  "ResetWriterConnection writer_addr m =
     (case om_find (writer_connections m) writer_addr of
        None \<Rightarrow> (m, False)
      | Some current_addr \<Rightarrow>
          if om_find (reader_sessions m) current_addr = None then (m, False)
          else if length (reader_sessions m) = 1 \<or> current_addr = fst (hd (reader_sessions m))
          then (m, True)
          else case om_find (reader_connections m) current_addr of
            None \<Rightarrow> (m, False)
          | Some current \<Rightarrow>
              if current = [] then (m, False)
              else
                let first_addr = fst (hd (reader_sessions m)) in
                case om_find (reader_connections m) first_addr of
                  None \<Rightarrow> (m, False)
                | Some first \<Rightarrow>
                    (case take_writer writer_addr current of
                       None \<Rightarrow> (m, False)
                     | Some (w, rest) \<Rightarrow>
                         (m\<lparr>reader_connections :=
                              om_put current_addr rest
                                (om_put first_addr (first @ [w]) (reader_connections m)),
                            writer_connections :=
                              om_put writer_addr first_addr (writer_connections m)\<rparr>, True)))"

text \<open>The loop shared by \<open>RotateAllConnections\<close> and \<open>PointReaderAtWriters\<close>: in key order, append
  the connections of every other reader to those of \<open>addr\<close> and empty them; and point every writer
  at \<open>addr\<close>.\<close>

definition gather_connections ::
    "tcp_addr \<Rightarrow> (tcp_addr \<times> session list) list \<Rightarrow> (tcp_addr \<times> session list) list" where
  "gather_connections addr rc =
     (let moved = concat (map snd (filter (\<lambda>e. fst e \<noteq> addr) rc))
      in map (\<lambda>(r, c). (r, if r = addr then c @ moved else [])) rc)"

definition point_all ::
    "tcp_addr \<Rightarrow> (tcp_addr \<times> tcp_addr) list \<Rightarrow> (tcp_addr \<times> tcp_addr) list" where
  "point_all addr wc = map (\<lambda>(w, _). (w, addr)) wc"

definition RotateAllConnections :: "conn_manager \<Rightarrow> conn_manager \<times> bool" where
  "RotateAllConnections m =
     (case writer_connections m of
        [] \<Rightarrow> (m, False)
      | (_, old_addr) # _ \<Rightarrow>
          if length (reader_sessions m) \<le> 1 then (m, False)
          else if om_find (reader_sessions m) old_addr = None then (m, False)
          else
            let new_addr = om_next_or_begin (reader_sessions m) old_addr in
            if om_find (reader_connections m) new_addr = None then (m, False)
            else (m\<lparr>reader_connections := gather_connections new_addr (reader_connections m),
                    writer_connections := point_all new_addr (writer_connections m)\<rparr>, True))"

definition PointReaderAtWriters :: "tcp_addr \<Rightarrow> conn_manager \<Rightarrow> conn_manager \<times> bool" where
  "PointReaderAtWriters addr m =
     (if om_find (reader_sessions m) addr = None then (m, False)
      else if om_find (reader_connections m) addr = None then (m, False)
      else (m\<lparr>writer_connections := point_all addr (writer_connections m),
              reader_connections := gather_connections addr (reader_connections m)\<rparr>, True))"

definition cm_clear :: "conn_manager \<Rightarrow> conn_manager \<times> session list" where
  "cm_clear m =
     (m\<lparr>reader_connections := [], writer_connections := [], reader_sessions := [],
        writer_sessions := []\<rparr>,
      map snd (reader_sessions m) @ map snd (writer_sessions m))"

declare add_reader_1_def [cm_defs] add_reader_2_def [cm_defs] finish_add_def [cm_defs]
  AddReaderSession_def [cm_defs] RemoveReaderSession_def [cm_defs] add_writer_1_def [cm_defs]
  add_writer_2_def [cm_defs] AddWriterSession_def [cm_defs] RemoveWriterSession_def [cm_defs]
  RotateWriterConnection_def [cm_defs] ResetWriterConnection_def [cm_defs]
  RotateAllConnections_def [cm_defs] PointReaderAtWriters_def [cm_defs] cm_clear_def [cm_defs]

end
