(* ===== verification/Connection_Invariants.thy ===== *)
theory Connection_Invariants
  imports Connection_Manager
begin

text \<open>
  What the connection manager keeps true. \<open>cm_wf\<close> ties the four maps together and holds after
  every operation; \<open>cm_synced\<close> says in addition that every registered writer is fed by some
  reader as soon as there is one, which every operation keeps but one: a reader that registers
  again under its address drops its connections and leaves its writers orphaned.
\<close>

section \<open>The invariants\<close>

definition sessions_keyed :: "(tcp_addr \<times> session) list \<Rightarrow> bool" where
  "sessions_keyed ss \<longleftrightarrow> om_wf ss \<and> (\<forall>a s. om_find ss a = Some s \<longrightarrow> sess_addr s = a)"

definition cm_wf :: "conn_manager \<Rightarrow> bool" where
  "cm_wf m \<longleftrightarrow>
     sessions_keyed (reader_sessions m) \<and> sessions_keyed (writer_sessions m) \<and>
     om_wf (reader_connections m) \<and> om_wf (writer_connections m) \<and>
     dom (om_find (reader_connections m)) = dom (om_find (reader_sessions m)) \<and>
     (\<forall>r c. om_find (reader_connections m) r = Some c \<longrightarrow>
        distinct c \<and>
        (\<forall>w \<in> set c. om_find (writer_sessions m) (sess_addr w) = Some w \<and>
                     om_find (writer_connections m) (sess_addr w) = Some r)) \<and>
     dom (om_find (writer_connections m)) \<subseteq> dom (om_find (writer_sessions m))"

definition cm_synced :: "conn_manager \<Rightarrow> bool" where
  "cm_synced m \<longleftrightarrow> cm_wf m \<and>
     (\<forall>a w. om_find (writer_sessions m) a = Some w \<longrightarrow>
        reader_sessions m = [] \<or>
        (\<exists>r c. om_find (writer_connections m) a = Some r \<and>
               om_find (reader_connections m) r = Some c \<and> w \<in> set c)) \<and>
     (reader_sessions m = [] \<longrightarrow> writer_connections m = [])"

lemma cm_wf_init: "cm_wf cm_init"
  by (simp add: cm_wf_def cm_init_def sessions_keyed_def)

lemma cm_synced_init: "cm_synced cm_init"
  by (simp add: cm_synced_def cm_wf_init) (simp add: cm_init_def)

lemma om_find_empty_iff: "om_wf m \<Longrightarrow> (\<forall>k. om_find m k = None) \<longleftrightarrow> m = []"
  by (metis length_0_conv length_om_keys om.keys_empty_iff)

section \<open>Lists of sessions\<close>

lemma sessions_keyed_put [intro]:
  "sessions_keyed ss \<Longrightarrow> sess_addr s = a \<Longrightarrow> sessions_keyed (om_put a s ss)"
  by (auto simp: sessions_keyed_def split: if_splits)

lemma sessions_keyed_erase [intro]: "sessions_keyed ss \<Longrightarrow> sessions_keyed (om_erase a ss)"
  by (auto simp: sessions_keyed_def om_find_erase split: if_splits)

lemma sessions_keyed_Nil [simp]: "sessions_keyed []"
  by (simp add: sessions_keyed_def)

lemma sessions_keyed_single [simp]: "sessions_keyed [(a, s)] \<longleftrightarrow> sess_addr s = a"
  by (auto simp: sessions_keyed_def om_wf_Cons om_find_Cons)

lemma keyed_in_set:
  "sessions_keyed ss \<Longrightarrow> (a, s) \<in> set ss \<Longrightarrow> a = sess_addr s \<and> om_find ss a = Some s"
  by (metis om_find_in_set sessions_keyed_def)

lemma keyed_snd:
  "sessions_keyed ss \<Longrightarrow> w \<in> snd ` set ss \<longleftrightarrow> om_find ss (sess_addr w) = Some w"
  by (force simp: sessions_keyed_def om_find_in_set image_iff)

lemma keyed_fst: "om_wf ss \<Longrightarrow> a \<in> fst ` set ss \<longleftrightarrow> om_find ss a \<noteq> None"
  by (simp add: om_find_def map_of_eq_None_iff)

lemma keyed_distinct:
  assumes "sessions_keyed ss"
  shows "distinct (map snd ss)"
proof -
  have "map sess_addr (map snd ss) = map fst ss"
    using keyed_in_set [OF assms] by fastforce
  moreover have "distinct (map fst ss)"
    using assms om.distinct_keys by (auto simp: sessions_keyed_def om_keys_def)
  ultimately show ?thesis by (metis distinct_map)
qed

lemma move_connections_eq:
  "move_connections r dead to wc = (to @ dead, fold (\<lambda>w. om_put (sess_addr w) r) dead wc)"
  by (induction r dead to wc rule: move_connections.induct) auto

lemma take_writer_Some:
  "take_writer a ws = Some (w, rest) \<Longrightarrow>
   \<exists>xs ys. ws = xs @ w # ys \<and> rest = xs @ ys \<and> sess_addr w = a"
proof (induction ws arbitrary: w rest)
  case (Cons x ws)
  show ?case
  proof (cases "sess_addr x = a")
    case True
    with Cons.prems show ?thesis by (intro exI [of _ "[]"] exI [of _ ws]) auto
  next
    case False
    with Cons.prems obtain r' where r': "take_writer a ws = Some (w, r')" "rest = x # r'"
      by auto
    from Cons.IH [OF r'(1)] obtain xs ys where "ws = xs @ w # ys" "r' = xs @ ys" "sess_addr w = a"
      by blast
    with r' show ?thesis by (intro exI [of _ "x # xs"] exI [of _ ys]) auto
  qed
qed simp

lemma take_writer_None: "take_writer a ws = None \<longleftrightarrow> (\<forall>w \<in> set ws. sess_addr w \<noteq> a)"
  by (induction ws) auto

lemma set_replace_first:
  "distinct ws \<Longrightarrow> old \<in> set ws \<Longrightarrow> set (replace_first old new ws) = insert new (set ws - {old})"
  by (induction ws) auto

lemma replace_first_notin: "old \<notin> set ws \<Longrightarrow> replace_first old new ws = ws"
  by (induction ws) auto

lemma distinct_replace_first:
  "distinct ws \<Longrightarrow> new \<notin> set ws - {old} \<Longrightarrow> distinct (replace_first old new ws)"
proof (induction ws)
  case (Cons x ws)
  then show ?case
    by (cases "old \<in> set ws") (auto simp: set_replace_first replace_first_notin)
qed simp

text \<open>The invariant as introduction and destruction rules over the four lookups.\<close>

lemma cm_wfD:
  assumes "cm_wf m"
  shows "sessions_keyed (reader_sessions m)" "sessions_keyed (writer_sessions m)"
    "om_wf (reader_sessions m)" "om_wf (writer_sessions m)"
    "om_wf (reader_connections m)" "om_wf (writer_connections m)"
    "dom (om_find (reader_connections m)) = dom (om_find (reader_sessions m))"
    "\<And>r c. om_find (reader_connections m) r = Some c \<Longrightarrow> distinct c"
    "\<And>r c w. om_find (reader_connections m) r = Some c \<Longrightarrow> w \<in> set c \<Longrightarrow>
       om_find (writer_sessions m) (sess_addr w) = Some w"
    "\<And>r c w. om_find (reader_connections m) r = Some c \<Longrightarrow> w \<in> set c \<Longrightarrow>
       om_find (writer_connections m) (sess_addr w) = Some r"
    "dom (om_find (writer_connections m)) \<subseteq> dom (om_find (writer_sessions m))"
  using assms by (auto simp: cm_wf_def sessions_keyed_def)

lemma cm_wfI:
  assumes "sessions_keyed (reader_sessions m)" "sessions_keyed (writer_sessions m)"
    "om_wf (reader_connections m)" "om_wf (writer_connections m)"
    "dom (om_find (reader_connections m)) = dom (om_find (reader_sessions m))"
    "\<And>r c. om_find (reader_connections m) r = Some c \<Longrightarrow> distinct c"
    "\<And>r c w. om_find (reader_connections m) r = Some c \<Longrightarrow> w \<in> set c \<Longrightarrow>
       om_find (writer_sessions m) (sess_addr w) = Some w \<and>
       om_find (writer_connections m) (sess_addr w) = Some r"
    "dom (om_find (writer_connections m)) \<subseteq> dom (om_find (writer_sessions m))"
  shows "cm_wf m"
  using assms by (auto simp: cm_wf_def)

lemma cm_wf_last [simp]: "cm_wf (m\<lparr>last_session_number := n\<rparr>) = cm_wf m"
  by (simp add: cm_wf_def)

lemma cm_synced_last [simp]: "cm_synced (m\<lparr>last_session_number := n\<rparr>) = cm_synced m"
  by (simp add: cm_synced_def)

lemma reader_conns_iff: "cm_wf m \<Longrightarrow> om_find (reader_connections m) r = None \<longleftrightarrow> om_find (reader_sessions m) r = None"
  using cm_wfD(7) [of m] by (metis domIff)

lemma wconn_registered:
  "cm_wf m \<Longrightarrow> om_find (writer_connections m) a = Some r \<Longrightarrow>
   \<exists>w. om_find (writer_sessions m) a = Some w"
  using cm_wfD(11) [of m] by blast

lemma no_readers_no_connections:
  "cm_wf m \<Longrightarrow> reader_sessions m = [] \<Longrightarrow> reader_connections m = []"
  using om_find_empty_iff [of "reader_connections m"] cm_wfD(5) [of m]
  by (simp add: reader_conns_iff)

section \<open>Adding a reader\<close>

lemma cm_wf_first_reader:
  assumes "cm_wf m" "reader_sessions m = []"
    "om_wf wc" "dom (om_find wc) \<subseteq> dom (om_find (writer_sessions m))"
  shows "cm_wf (m\<lparr>reader_sessions := [(sess_addr s, s)],
      writer_connections := fold (\<lambda>e. om_put (fst e) (sess_addr s)) (writer_sessions m) wc,
      reader_connections := [(sess_addr s, map snd (writer_sessions m))]\<rparr>)"
proof -
  note wf = cm_wfD [OF assms(1)]
  have mem: "om_find (writer_sessions m) (sess_addr w) = Some w \<and>
      sess_addr w \<in> fst ` set (writer_sessions m)" if "w \<in> snd ` set (writer_sessions m)" for w
    using that keyed_snd [OF wf(2)] by (auto simp: dom_om_find [symmetric])
  have sub: "om_find (writer_sessions m) x \<noteq> None" if "om_find wc x = Some y" for x y
    using that assms(4) by blast
  show ?thesis
    using wf(2,4) assms(3) sub keyed_distinct [OF wf(2)] mem
    by (intro cm_wfI)
       (auto simp: om_find_fold_put_const om_find_Cons om_wf_Cons dom_om_find [symmetric]
         split: if_splits)
qed

lemma cm_wf_AddReader:
  assumes "cm_wf m"
  shows "cm_wf (fst (AddReaderSession s m))"
proof -
  note wf = cm_wfD [OF assms]
  show ?thesis
  proof (cases "reader_sessions m = []")
    case True
    then show ?thesis
      using cm_wf_first_reader [OF assms True wf(6,11)] no_readers_no_connections [OF assms True]
      by (simp add: cm_defs Let_def)
  next
    case False
    then show ?thesis
      using wf by (intro cm_wfI) (auto simp: cm_defs Let_def split: if_splits)
  qed
qed

section \<open>Removing a reader\<close>

text \<open>The branches of \<open>RemoveReaderSession\<close> that a well-formed manager can reach.\<close>

lemma RemoveReader_cases:
  assumes "cm_wf m"
  obtains (gone) "RemoveReaderSession ids s m = m"
  | (only) x where "reader_sessions m = [(sess_addr s, x)]" "RemoveReaderSession ids s m =
      m\<lparr>writer_connections := [], reader_connections := [], reader_sessions := []\<rparr>"
  | (move) dead r c where "om_find (reader_sessions m) (sess_addr s) \<noteq> None"
      "length (reader_sessions m) \<noteq> 1"
      "om_find (reader_connections m) (sess_addr s) = Some dead"
      "r = om_next_or_begin (reader_sessions m) (sess_addr s)" "r \<noteq> sess_addr s"
      "om_find (reader_connections m) r = Some c" "set c \<inter> set dead = {}"
      "RemoveReaderSession ids s m =
        m\<lparr>reader_connections := om_erase (sess_addr s)
            (if dead = [] then reader_connections m
             else om_put r (c @ dead) (reader_connections m)),
          reader_sessions := om_erase (sess_addr s) (reader_sessions m),
          writer_connections :=
            fold (\<lambda>w. om_put (sess_addr w) r) dead (writer_connections m)\<rparr>"
proof -
  note wf = cm_wfD [OF assms]
  let ?d = "sess_addr s" and ?rs = "reader_sessions m" and ?rc = "reader_connections m"
  show thesis
  proof (cases "om_find ?rs ?d")
    case None
    with gone show thesis by (simp add: RemoveReaderSession_def)
  next
    case (Some cur)
    then obtain dead where dead: "om_find ?rc ?d = Some dead"
      using reader_conns_iff [OF assms, of ?d] by auto
    show thesis
    proof (cases "ids (sess_ptr cur) = ids (sess_ptr s)")
      case False
      with gone Some show thesis by (simp add: RemoveReaderSession_def)
    next
      case ids: True
      show thesis
      proof (cases "length ?rs = 1")
        case True
        then obtain y where "?rs = [y]" by (auto simp: length_Suc_conv)
        with Some have "?rs = [(?d, cur)]" by (cases y) (auto simp: om_find_Cons split: if_splits)
        with only ids show thesis by (simp add: RemoveReaderSession_def)
      next
        case False
        define r where "r = om_next_or_begin ?rs ?d"
        have r: "om_find ?rs r \<noteq> None" "r \<noteq> ?d"
          using om_next_or_begin_in [OF wf(3), of ?d] om_next_or_begin_other [OF wf(3), of ?d]
            Some False by (simp_all add: r_def)
        then obtain c where c: "om_find ?rc r = Some c"
          using reader_conns_iff [OF assms, of r] by auto
        have "set c \<inter> set dead = {}"
          using wf(10) [OF c] wf(10) [OF dead] r(2) by (metis disjoint_iff option.inject)
        with Some ids False dead r c r_def show thesis
          by (intro move [of dead r c]) (simp_all add: RemoveReaderSession_def move_connections_eq Let_def)
      qed
    qed
  qed
qed

lemma cm_wf_RemoveReader:
  assumes "cm_wf m"
  shows "cm_wf (RemoveReaderSession ids s m)"
  using assms
proof (cases rule: RemoveReader_cases [of m ids s])
  case only
  with cm_wfD [OF assms] show ?thesis by (auto intro!: cm_wfI)
next
  case (move dead r c)
  note wf = cm_wfD [OF assms]
  have d: "om_find (writer_sessions m) (sess_addr w) = Some w" if "w \<in> set dead" for w
    using wf(9) [OF move(3) that] .
  have wc: "om_find (fold (\<lambda>w. om_put (sess_addr w) r) dead (writer_connections m)) (sess_addr w) =
      om_find (writer_connections m) (sess_addr w)"
    if "om_find (reader_connections m) r' = Some c'" "w \<in> set c'" "r' \<noteq> sess_addr s" for r' c' w
    using wf(10) [OF that(1,2)] wf(10) [OF move(3)] that(3)
    by (auto simp: om_find_fold_put_const)
  show ?thesis unfolding move(8)
  proof (intro cm_wfI, goal_cases)
    case (7 r' c' w)
    show ?case
    proof (cases "r' = r \<and> dead \<noteq> []")
      case True
      with 7 have "w \<in> set c \<union> set dead"
        using move(5) by (auto simp: om_find_erase wf(5))
      then show ?thesis
        using True wf(9,10) [OF move(6)] d by (auto simp: om_find_fold_put_const)
    next
      case False
      with 7 have "om_find (reader_connections m) r' = Some c'" "r' \<noteq> sess_addr s"
        by (auto simp: om_find_erase wf(5) split: if_splits)
      with 7(2) show ?thesis using wf(9,10) [of r' c' w] wc [of r' c' w] by simp
    qed
  next
    case 5
    show ?case using wf(5,3,7) move(6) by auto
  next
    case (6 r' c')
    then show ?case using wf(5) wf(8) [of r'] wf(8) [OF move(3)] wf(8) [OF move(6)] move(7)
      by (auto simp: om_find_erase split: if_splits)
  next
    case 8
    show ?case using d
      by (auto simp: om_find_fold_put_const dest: wconn_registered [OF assms] split: if_splits)
  qed (use wf in \<open>auto simp: om_find_erase\<close>)
qed (use assms in simp)

section \<open>Adding and removing a writer\<close>

text \<open>A session whose address is not connected can be registered anew.\<close>

lemma cm_wf_register_writer:
  assumes "cm_wf m"
    "\<And>r c w. om_find (reader_connections m) r = Some c \<Longrightarrow> w \<in> set c \<Longrightarrow> sess_addr w \<noteq> sess_addr s"
  shows "cm_wf (m\<lparr>writer_sessions := om_put (sess_addr s) s (writer_sessions m)\<rparr>)"
  using assms(2) cm_wfD [OF assms(1)] by (intro cm_wfI) auto

lemma cm_wf_attach_writer:
  assumes "cm_wf m" "om_find (writer_connections m) (sess_addr s) = None"
    "om_find (reader_connections m) r = Some c"
  shows "cm_wf (m\<lparr>writer_sessions := om_put (sess_addr s) s (writer_sessions m),
                 reader_connections := om_put r (c @ [s]) (reader_connections m),
                 writer_connections := om_put (sess_addr s) r (writer_connections m)\<rparr>)"
proof -
  note wf = cm_wfD [OF assms(1)]
  have not_conn: "sess_addr w \<noteq> sess_addr s"
    if "om_find (reader_connections m) r' = Some c'" "w \<in> set c'" for r' c' w
    using wf(10) [OF that] assms(2) by auto
  then have "s \<notin> set c" using assms(3) by blast
  moreover have "r \<in> dom (om_find (reader_sessions m))"
    using assms(3) wf(7) by blast
  ultimately show ?thesis
    using wf assms(3) not_conn by (intro cm_wfI) (auto split: if_splits)
qed

lemma cm_wf_replace_writer:
  assumes "cm_wf m" "om_find (writer_sessions m) (sess_addr s) = Some old"
    "om_find (writer_connections m) (sess_addr s) = Some r"
    "om_find (reader_connections m) r = Some c"
  shows "cm_wf (m\<lparr>writer_sessions := om_put (sess_addr s) s (writer_sessions m),
                 reader_connections := om_put r (replace_first old s c) (reader_connections m)\<rparr>)"
    (is "cm_wf ?m'")
proof -
  note wf = cm_wfD [OF assms(1)]
  have old: "w = old \<and> r' = r"
    if "om_find (reader_connections m) r' = Some c'" "w \<in> set c'" "sess_addr w = sess_addr s"
    for r' c' w
    using wf(9) [OF that(1,2)] wf(10) [OF that(1,2)] that(3) assms(2,3) by auto
  have new: "set (replace_first old s c) \<subseteq> insert s (set c - {old}) \<or>
      old \<notin> set c \<and> replace_first old s c = c"
    by (cases "old \<in> set c") (auto simp: set_replace_first wf(8) [OF assms(4)] replace_first_notin)
  have conn: "om_find (writer_sessions ?m') (sess_addr w) = Some w \<and>
      om_find (writer_connections ?m') (sess_addr w) = Some r'"
    if "om_find (reader_connections m) r' = Some c'" "w \<in> set c'" "w \<noteq> old" for r' c' w
    using wf(9,10) [OF that(1,2)] old [OF that(1,2)] that(3) by auto
  show ?thesis
  proof (intro cm_wfI, goal_cases)
    case 5
    show ?case using wf(7) assms(4) by auto
  next
    case (6 r' c')
    have "distinct (replace_first old s c)"
      using old [OF assms(4)] wf(8) [OF assms(4)] by (intro distinct_replace_first) auto
    then show ?case using 6 wf(8) [of r'] by (auto split: if_splits)
  next
    case (7 r' c' w)
    show ?case
    proof (cases "r' = r")
      case True
      with 7 have "w = s \<or> w \<in> set c \<and> w \<noteq> old" using new by auto
      then show ?thesis
      proof
        assume "w = s"
        with True assms(3) show ?thesis by simp
      next
        assume "w \<in> set c \<and> w \<noteq> old"
        with True conn [OF assms(4)] show ?thesis by blast
      qed
    next
      case False
      with 7 have r': "om_find (reader_connections m) r' = Some c'" by simp
      then have "w \<noteq> old" using old [OF r' 7(2)] False 7(2)
        using wf(2) assms(2) by (auto simp: sessions_keyed_def)
      then show ?thesis using conn [OF r' 7(2)] by simp
    qed
  next
    case 8
    show ?case using wf(11) by auto
  qed (use wf in auto)
qed

text \<open>The branches of \<open>AddWriterSession\<close> over a well-formed manager; the kept pointer is never
  dangling when the two sections run without interruption.\<close>

lemma AddWriter_cases:
  assumes "cm_wf m"
  obtains (unattached) eff n where "om_find (writer_connections m) (sess_addr s) = None"
      "reader_sessions m = []"
      "AddWriterSession s m = Some (m\<lparr>writer_sessions := om_put (sess_addr s) s (writer_sessions m),
        last_session_number := n\<rparr>, eff, n)"
  | (attached) r x rs c eff n where "om_find (writer_connections m) (sess_addr s) = None"
      "reader_sessions m = (r, x) # rs" "om_find (reader_connections m) r = Some c"
      "AddWriterSession s m = Some (m\<lparr>writer_sessions := om_put (sess_addr s) s (writer_sessions m),
        reader_connections := om_put r (c @ [s]) (reader_connections m),
        writer_connections := om_put (sess_addr s) r (writer_connections m),
        last_session_number := n\<rparr>, eff, n)"
  | (orphaned) r eff n where "om_find (writer_connections m) (sess_addr s) = Some r"
      "om_find (reader_connections m) r = None"
      "AddWriterSession s m = Some (m\<lparr>writer_sessions := om_put (sess_addr s) s (writer_sessions m),
        last_session_number := n\<rparr>, eff, n)"
  | (replaced) r old c eff n where "om_find (writer_connections m) (sess_addr s) = Some r"
      "om_find (writer_sessions m) (sess_addr s) = Some old" "om_find (reader_connections m) r = Some c"
      "AddWriterSession s m = Some (m\<lparr>writer_sessions := om_put (sess_addr s) s (writer_sessions m),
        reader_connections := om_put r (replace_first old s c) (reader_connections m),
        last_session_number := n\<rparr>, eff, n)"
proof (cases "om_find (writer_connections m) (sess_addr s)")
  case None
  show thesis
  proof (cases "reader_sessions m")
    case Nil
    with None unattached show thesis by (force simp: cm_defs Let_def)
  next
    case (Cons e rs)
    obtain r x where e: "e = (r, x)" by fastforce
    with Cons obtain c where "om_find (reader_connections m) r = Some c"
      using reader_conns_iff [OF assms, of r] by (auto simp: om_find_Cons)
    with None Cons e attached show thesis by (force simp: cm_defs Let_def)
  qed
next
  case (Some r)
  then obtain old where old: "om_find (writer_sessions m) (sess_addr s) = Some old"
    using wconn_registered [OF assms] by blast
  show thesis
  proof (cases "om_find (reader_connections m) r")
    case None
    with Some old orphaned show thesis by (force simp: cm_defs Let_def)
  next
    case (Some c)
    with \<open>om_find (writer_connections m) (sess_addr s) = Some r\<close> old replaced
    show thesis by (force simp: cm_defs Let_def)
  qed
qed

lemma cm_wf_AddWriter:
  assumes "cm_wf m" "AddWriterSession s m = Some (m', eff, n)"
  shows "cm_wf m'"
  using assms(1)
proof (cases rule: AddWriter_cases [of m s])
  case (unattached eff n)
  with assms cm_wf_register_writer [OF assms(1), of s] cm_wfD(10) [OF assms(1)]
  show ?thesis by fastforce
next
  case (attached r x rs c eff n)
  with assms cm_wf_attach_writer [OF assms(1), of s r c] show ?thesis by auto
next
  case (orphaned r eff n)
  with assms cm_wf_register_writer [OF assms(1), of s] cm_wfD(10) [OF assms(1)]
  show ?thesis by fastforce
next
  case (replaced r old c eff n)
  with assms cm_wf_replace_writer [OF assms(1), of s old r c] show ?thesis by auto
qed

text \<open>Sessions are told apart by their ids: what \<open>RemoveWriterSession\<close> relies on.\<close>

definition ids_tell_apart :: "id_heap \<Rightarrow> session \<Rightarrow> conn_manager \<Rightarrow> bool" where
  "ids_tell_apart ids s m \<longleftrightarrow>
     (\<forall>w. om_find (writer_sessions m) (sess_addr s) = Some w \<longrightarrow>
        ids (sess_ptr w) = ids (sess_ptr s) \<longrightarrow> w = s)"

lemma RemoveWriter_cases:
  assumes "cm_wf m" "ids_tell_apart ids s m"
  obtains (gone) "RemoveWriterSession ids s m = m"
  | (only) "writer_sessions m = [(sess_addr s, s)]" "RemoveWriterSession ids s m =
      m\<lparr>writer_connections := [], reader_connections := map (\<lambda>(r, c). (r, [])) (reader_connections m),
        writer_sessions := []\<rparr>"
  | (detached) "om_find (writer_sessions m) (sess_addr s) = Some s"
      "\<And>r c w. om_find (reader_connections m) r = Some c \<Longrightarrow> w \<in> set c \<Longrightarrow> sess_addr w \<noteq> sess_addr s"
      "RemoveWriterSession ids s m =
        m\<lparr>writer_connections := om_erase (sess_addr s) (writer_connections m),
          writer_sessions := om_erase (sess_addr s) (writer_sessions m)\<rparr>"
  | (attached) r c where "om_find (writer_sessions m) (sess_addr s) = Some s"
      "om_find (writer_connections m) (sess_addr s) = Some r"
      "om_find (reader_connections m) r = Some c" "s \<in> set c"
      "RemoveWriterSession ids s m =
        m\<lparr>writer_connections := om_erase (sess_addr s) (writer_connections m),
          writer_sessions := om_erase (sess_addr s) (writer_sessions m),
          reader_connections := om_put r (remove1 s c) (reader_connections m)\<rparr>"
proof -
  note wf = cm_wfD [OF assms(1)]
  let ?a = "sess_addr s"
  show thesis
  proof (cases "\<exists>w. om_find (writer_sessions m) ?a = Some w \<and> ids (sess_ptr w) = ids (sess_ptr s)")
    case False
    then show thesis by (intro gone) (auto simp: RemoveWriterSession_def Let_def split: option.splits)
  next
    case True
    then have s: "om_find (writer_sessions m) ?a = Some s"
      using assms(2) by (auto simp: ids_tell_apart_def)
    have none: "om_erase ?a (writer_connections m) = writer_connections m"
      if "om_find (writer_connections m) ?a = None"
      using that by (rule om_erase_absent)
    have conn: "w = s \<and> om_find (writer_connections m) ?a = Some r"
      if "om_find (reader_connections m) r = Some c" "w \<in> set c" "sess_addr w = ?a" for r c w
      using wf(9,10) [OF that(1,2)] that(3) s by (metis option.inject)
    show thesis
    proof (cases "length (writer_sessions m) = 1")
      case True
      then obtain y where "writer_sessions m = [y]" by (auto simp: length_Suc_conv)
      with s have "writer_sessions m = [(?a, s)]"
        by (cases y) (auto simp: om_find_Cons split: if_splits)
      then show thesis by (intro only) (simp_all add: RemoveWriterSession_def)
    next
      case False
      show thesis
      proof (cases "\<exists>r c. om_find (writer_connections m) ?a = Some r \<and>
          om_find (reader_connections m) r = Some c \<and> s \<in> set c")
        case True
        with s False show thesis by (auto intro!: attached simp: RemoveWriterSession_def Let_def)
      next
        case nc: False
        have "RemoveWriterSession ids s m =
          m\<lparr>writer_connections := om_erase ?a (writer_connections m),
            writer_sessions := om_erase ?a (writer_sessions m)\<rparr>"
          using s False nc none by (auto simp: RemoveWriterSession_def Let_def split: option.splits)
        with s conn nc show thesis by (intro detached) blast+
      qed
    qed
  qed
qed

lemma cm_wf_RemoveWriter:
  assumes "cm_wf m" "ids_tell_apart ids s m"
  shows "cm_wf (RemoveWriterSession ids s m)"
proof -
  note wf = cm_wfD [OF assms(1)]
  from assms show ?thesis
  proof (cases rule: RemoveWriter_cases [of m ids s])
    case gone
    with assms show ?thesis by simp
  next
    case only
    have "dom (om_find (map (\<lambda>(r, c). (r, [])) (reader_connections m))) =
        dom (om_find (reader_sessions m))"
      using wf(7) by (simp add: dom_om_find image_image split_beta)
    then show ?thesis unfolding only(2)
      using wf by (intro cm_wfI) (auto simp: om_find_map_values [where f = "\<lambda>_ _. []"])
  next
    case detached
    show ?thesis unfolding detached(3)
      using wf detached(2) by (intro cm_wfI) (auto simp: om_find_erase dest: wconn_registered [OF assms(1)])
  next
    case (attached r c)
    have other: "sess_addr w \<noteq> sess_addr s"
      if "om_find (reader_connections m) r' = Some c'" "w \<in> set c'" "w \<noteq> s" for r' c' w
      using wf(9) [OF that(1,2)] that(3) attached(1) by auto
    have s: "r' = r" if "om_find (reader_connections m) r' = Some c'" "s \<in> set c'" for r' c'
      using wf(10) [OF that] attached(2) by simp
    have "dom (om_find (om_put r (remove1 s c) (reader_connections m))) =
        dom (om_find (reader_sessions m))"
      using attached(3) wf(7) by auto
    moreover have was: "w \<noteq> s \<and> (\<exists>c0. om_find (reader_connections m) r' = Some c0 \<and> w \<in> set c0)"
      if "om_find (om_put r (remove1 s c) (reader_connections m)) r' = Some c'" "w \<in> set c'" for r' c' w
      using that s attached(3) wf(8) [OF attached(3)] by (auto split: if_splits)
    ultimately show ?thesis unfolding attached(5)
    proof (intro cm_wfI, goal_cases)
      case (6 r' c')
      then show ?case using wf(8) [of r'] wf(8) [OF attached(3)] by (auto split: if_splits)
    next
      case (7 r' c' w)
      then obtain c0 where w: "w \<noteq> s" "om_find (reader_connections m) r' = Some c0" "w \<in> set c0"
        using was [of r' c' w] by (simp del: om_find_put) blast
      with other [OF w(2,3,1)] show ?case
        using wf(9,10) [OF w(2,3)] by (simp add: om_find_erase wf(4,6))
    next
      case 8
      then show ?case by (auto simp: wf(4,6) dest: wconn_registered [OF assms(1)])
    qed (use wf in auto)
  qed
qed

section \<open>Moving connections\<close>

lemma cm_wf_move_writer:
  assumes "cm_wf m" "om_find (reader_connections m) cur = Some (xs @ w # ys)"
    "om_find (reader_connections m) nxt = Some c" "nxt \<noteq> cur"
  shows "cm_wf (m\<lparr>reader_connections :=
                   om_put cur (xs @ ys) (om_put nxt (c @ [w]) (reader_connections m)),
                 writer_connections := om_put (sess_addr w) nxt (writer_connections m)\<rparr>)"
proof -
  note wf = cm_wfD [OF assms(1)]
  have w: "om_find (writer_sessions m) (sess_addr w) = Some w"
    "om_find (writer_connections m) (sess_addr w) = Some cur"
    using wf(9,10) [OF assms(2)] by auto
  have other: "w' \<noteq> w \<longrightarrow> sess_addr w' \<noteq> sess_addr w"
    if "om_find (reader_connections m) r' = Some c'" "w' \<in> set c'" for r' c' w'
    using wf(9) [OF that] w(1) by auto
  have "w \<notin> set c" using wf(10) [OF assms(3)] w(2) assms(4) by auto
  have uniq: "r' = cur" if "om_find (reader_connections m) r' = Some c'" "w \<in> set c'" for r' c'
    using wf(10) [OF that] w(2) by simp
  show ?thesis
  proof (intro cm_wfI, goal_cases)
    case 5
    show ?case using assms(2,3) wf(7) by auto
  next
    case (6 r' c')
    then show ?case
      using wf(8) [of r'] wf(8) [OF assms(2)] wf(8) [OF assms(3)] \<open>w \<notin> set c\<close> by (auto split: if_splits)
  next
    case (7 r' c' w')
    show ?case
    proof (cases "w' = w")
      case True
      with 7 have "r' = nxt"
        using uniq [of r' c'] wf(8) [OF assms(2)] by (auto split: if_splits)
      with True w show ?thesis by simp
    next
      case False
      with 7 obtain c0 where c0: "om_find (reader_connections m) r' = Some c0" "w' \<in> set c0"
        using assms(2,3) by (auto split: if_splits)
      with False other [OF c0] wf(9,10) [OF c0] show ?thesis by simp
    qed
  next
    case 8
    show ?case using w(1) wf(11) by auto
  qed (use wf in auto)
qed

lemma distinct_concat_keyed:
  assumes "distinct (map fst es)" "\<And>r c. (r, c) \<in> set es \<Longrightarrow> distinct c \<and> (\<forall>w \<in> set c. f w = r)"
  shows "distinct (concat (map snd es))"
  using assms
proof (induction es)
  case (Cons e es)
  obtain r c where e: "e = (r, c)" by fastforce
  have "w \<notin> set c'" if "w \<in> set c" "(r', c') \<in> set es" for w r' c'
  proof -
    have "r \<noteq> r'" using Cons.prems(1) that(2) e by force
    with Cons.prems(2) [of r c] Cons.prems(2) [of r' c'] that e show ?thesis by auto
  qed
  with Cons e show ?case by fastforce
qed simp

lemma om_find_gather:
  "om_find (gather_connections a rc) r =
     map_option (\<lambda>c. if r = a then c @ concat (map snd (filter (\<lambda>e. fst e \<noteq> a) rc)) else [])
       (om_find rc r)"
  unfolding gather_connections_def Let_def
  by (rule om_find_map_values)

lemma om_find_point_all [simp]:
  "om_find (point_all a wc) w = map_option (\<lambda>_. a) (om_find wc w)"
  using om_find_map_values [of "\<lambda>_ _. a" wc w] by (simp add: point_all_def)

lemma om_wf_gather [simp]: "om_wf (gather_connections a rc) = om_wf rc"
  by (simp add: gather_connections_def Let_def om_wf_map_values
      [where f = "\<lambda>r c. if r = a then c @ x else []" for x])

lemma om_wf_point_all [simp]: "om_wf (point_all a wc) = om_wf wc"
  using om_wf_map_values [of "\<lambda>_ _. a" wc] by (simp add: point_all_def)

lemma cm_wf_point_all:
  assumes "cm_wf m" "om_find (reader_connections m) a = Some c"
  shows "cm_wf (m\<lparr>reader_connections := gather_connections a (reader_connections m),
                 writer_connections := point_all a (writer_connections m)\<rparr>)"
proof -
  note wf = cm_wfD [OF assms(1)]
  let ?moved = "concat (map snd (filter (\<lambda>e. fst e \<noteq> a) (reader_connections m)))"
  have moved: "\<exists>r c. r \<noteq> a \<and> om_find (reader_connections m) r = Some c \<and> w \<in> set c"
    if "w \<in> set ?moved" for w
    using that om_find_in_set [OF wf(5)] by fastforce
  have "distinct ?moved"
    using om.distinct_keys [OF wf(5)] wf(8,10) om_find_in_set [OF wf(5)]
    by (intro distinct_concat_keyed [where f = "\<lambda>w. the (om_find (writer_connections m) (sess_addr w))"])
       (auto simp: om_keys_def distinct_map_filter)
  moreover have "set c \<inter> set ?moved = {}"
  proof -
    have False if "w \<in> set c" "w \<in> set ?moved" for w
      using moved [OF that(2)] wf(10) [OF assms(2) that(1)] wf(10) by fastforce
    then show ?thesis by blast
  qed
  ultimately have d: "distinct (c @ ?moved)" using wf(8) [OF assms(2)] by simp
  have conn: "om_find (writer_sessions m) (sess_addr w) = Some w \<and>
      om_find (writer_connections m) (sess_addr w) \<noteq> None" if "w \<in> set (c @ ?moved)" for w
    using that moved wf(9,10) assms(2) by fastforce
  show ?thesis
  proof (intro cm_wfI, goal_cases)
    case 5
    show ?case using wf(7) by (auto simp: om_find_gather dom_def)
  next
    case (6 r' c')
    then show ?case using d assms(2) by (auto simp: om_find_gather split: if_splits)
  next
    case (7 r' c' w)
    then have "r' = a" "w \<in> set (c @ ?moved)"
      using assms(2) by (auto simp: om_find_gather split: if_splits)
    then show ?case using conn by auto
  next
    case 8
    show ?case using wf(11) by (auto simp: dom_def)
  qed (use wf in auto)
qed

text \<open>The branches of the two single-writer moves: nothing changes, or the writer leaves the list of
  its reader for the end of the list of \<open>nxt\<close>.\<close>

definition moved_writer :: "tcp_addr \<Rightarrow> tcp_addr \<Rightarrow> tcp_addr \<Rightarrow> conn_manager \<Rightarrow> conn_manager \<Rightarrow> bool" where
  "moved_writer a cur nxt m m' \<longleftrightarrow> nxt \<noteq> cur \<and>
     (\<exists>xs w ys c. om_find (reader_connections m) cur = Some (xs @ w # ys) \<and> sess_addr w = a \<and>
        om_find (reader_connections m) nxt = Some c \<and>
        m' = m\<lparr>reader_connections :=
                 om_put cur (xs @ ys) (om_put nxt (c @ [w]) (reader_connections m)),
               writer_connections := om_put a nxt (writer_connections m)\<rparr>)"

lemma cm_wf_moved_writer: "cm_wf m \<Longrightarrow> moved_writer a cur nxt m m' \<Longrightarrow> cm_wf m'"
  using cm_wf_move_writer by (fastforce simp: moved_writer_def)

lemma RotateWriter_cases:
  assumes "cm_wf m" "RotateWriterConnection a m = (m', b)"
  shows "m' = m \<or> (\<exists>cur. om_find (writer_connections m) a = Some cur \<and> b \<and>
           moved_writer a cur (om_next_or_begin (reader_sessions m) cur) m m')"
proof -
  have "om_next_or_begin (reader_sessions m) cur \<noteq> cur"
    if "om_find (reader_sessions m) cur \<noteq> None" "length (reader_sessions m) \<noteq> 1" for cur
    using om_next_or_begin_other [OF cm_wfD(3) [OF assms(1)] that] .
  then show ?thesis using assms(2)
    by (auto simp: RotateWriterConnection_def Let_def moved_writer_def
        split: option.splits if_splits prod.splits dest!: take_writer_Some)
qed

lemma ResetWriter_cases:
  assumes "cm_wf m" "ResetWriterConnection a m = (m', b)"
  shows "m' = m \<or> (\<exists>cur. om_find (writer_connections m) a = Some cur \<and> b \<and>
           moved_writer a cur (fst (hd (reader_sessions m))) m m')"
  using assms(2)
  by (auto simp: ResetWriterConnection_def Let_def moved_writer_def
      split: option.splits if_splits prod.splits dest!: take_writer_Some)

lemma cm_wf_RotateWriter: "cm_wf m \<Longrightarrow> cm_wf (fst (RotateWriterConnection a m))"
  using RotateWriter_cases [of m a] cm_wf_moved_writer
  by (cases "RotateWriterConnection a m") fastforce

lemma cm_wf_ResetWriter: "cm_wf m \<Longrightarrow> cm_wf (fst (ResetWriterConnection a m))"
  using ResetWriter_cases [of m a] cm_wf_moved_writer
  by (cases "ResetWriterConnection a m") fastforce

lemma RotateAll_cases:
  "RotateAllConnections m = (m', b) \<Longrightarrow>
   \<not> b \<and> m' = m \<or>
   b \<and> (\<exists>w old ws c. writer_connections m = (w, old) # ws \<and>
      om_find (reader_sessions m) old \<noteq> None \<and> 1 < length (reader_sessions m) \<and>
      (let a = om_next_or_begin (reader_sessions m) old in
        om_find (reader_connections m) a = Some c \<and>
        m' = m\<lparr>reader_connections := gather_connections a (reader_connections m),
               writer_connections := point_all a (writer_connections m)\<rparr>))"
  by (auto simp: RotateAllConnections_def Let_def split: list.splits if_splits)

lemma cm_wf_RotateAll: "cm_wf m \<Longrightarrow> cm_wf (fst (RotateAllConnections m))"
  using RotateAll_cases [of m] cm_wf_point_all [of m]
  by (cases "RotateAllConnections m") (fastforce simp: Let_def)

lemma PointReader_eq:
  "PointReaderAtWriters a m =
     (if om_find (reader_sessions m) a \<noteq> None \<and> om_find (reader_connections m) a \<noteq> None
      then (m\<lparr>reader_connections := gather_connections a (reader_connections m),
               writer_connections := point_all a (writer_connections m)\<rparr>, True)
      else (m, False))"
  by (auto simp: PointReaderAtWriters_def)

lemma cm_wf_PointReader: "cm_wf m \<Longrightarrow> cm_wf (fst (PointReaderAtWriters a m))"
  using cm_wf_point_all [of m a] by (auto simp: PointReader_eq)

lemma cm_wf_clear: "cm_wf (fst (cm_clear m))"
  by (simp add: cm_clear_def cm_wf_def)

section \<open>Every operation keeps the maps consistent\<close>

datatype cm_event =
  AddReader session | RemoveReader session | AddWriter session | RemoveWriter session
| Rotate tcp_addr | Reset tcp_addr | RotateAll | PointAt tcp_addr | ClearAll

text \<open>One operation run to its end, as the server runs it when no other one interferes.\<close>

fun cm_step :: "id_heap \<Rightarrow> cm_event \<Rightarrow> conn_manager \<Rightarrow> conn_manager" where
  "cm_step ids (AddReader s) m = fst (AddReaderSession s m)"
| "cm_step ids (RemoveReader s) m = RemoveReaderSession ids s m"
| "cm_step ids (AddWriter s) m = (case AddWriterSession s m of Some (m', _) \<Rightarrow> m' | None \<Rightarrow> m)"
| "cm_step ids (RemoveWriter s) m = RemoveWriterSession ids s m"
| "cm_step ids (Rotate a) m = fst (RotateWriterConnection a m)"
| "cm_step ids (Reset a) m = fst (ResetWriterConnection a m)"
| "cm_step ids RotateAll m = fst (RotateAllConnections m)"
| "cm_step ids (PointAt a) m = fst (PointReaderAtWriters a m)"
| "cm_step ids ClearAll m = fst (cm_clear m)"

fun ids_ok :: "id_heap \<Rightarrow> cm_event \<Rightarrow> conn_manager \<Rightarrow> bool" where
  "ids_ok ids (RemoveWriter s) m = ids_tell_apart ids s m"
| "ids_ok ids _ m = True"

lemma AddWriter_returns: "cm_wf m \<Longrightarrow> \<exists>m' eff n. AddWriterSession s m = Some (m', eff, n)"
  by (cases rule: AddWriter_cases [of m s]) auto

lemma cm_wf_step:
  assumes "cm_wf m" "ids_ok ids e m"
  shows "cm_wf (cm_step ids e m)"
proof (cases e)
  case (AddWriter s)
  obtain m' eff n where "AddWriterSession s m = Some (m', eff, n)"
    using AddWriter_returns [OF assms(1)] by blast
  with AddWriter cm_wf_AddWriter [OF assms(1)] show ?thesis by simp
qed (use assms in \<open>simp_all add: cm_wf_AddReader cm_wf_RemoveReader cm_wf_RemoveWriter
  cm_wf_RotateWriter cm_wf_ResetWriter cm_wf_RotateAll cm_wf_PointReader cm_wf_clear\<close>)

end
