(* ===== verification/Connection_Routing.thy ===== *)
theory Connection_Routing
  imports Connection_Invariants
begin

text \<open>
  What the connection manager is for, stated over one map from screens (headsets and displays) to
  cameras, and the refinement: as long as no camera registers again under an address that is still
  registered, the four maps of the code implement the one map, and a posted frame goes once to
  each of the screens fed by that camera and to no other.
\<close>

section \<open>Every operation but one keeps every screen fed\<close>

lemma cm_syncedD:
  assumes "cm_synced m"
  shows "cm_wf m"
    "\<And>a w. om_find (writer_sessions m) a = Some w \<Longrightarrow> reader_sessions m \<noteq> [] \<Longrightarrow>
       \<exists>r c. om_find (writer_connections m) a = Some r \<and>
             om_find (reader_connections m) r = Some c \<and> w \<in> set c"
    "reader_sessions m = [] \<Longrightarrow> writer_connections m = []"
  using assms by (auto simp: cm_synced_def)

lemma cm_syncedI:
  assumes "cm_wf m"
    "\<And>a w. om_find (writer_sessions m) a = Some w \<Longrightarrow> reader_sessions m \<noteq> [] \<Longrightarrow>
       \<exists>r c. om_find (writer_connections m) a = Some r \<and>
             om_find (reader_connections m) r = Some c \<and> w \<in> set c"
    "reader_sessions m = [] \<Longrightarrow> writer_connections m = []"
  shows "cm_synced m"
  using assms by (auto simp: cm_synced_def)

lemma synced_fed:
  assumes "cm_synced m" "om_find (writer_connections m) a = Some r"
  shows "\<exists>w c. om_find (writer_sessions m) a = Some w \<and> om_find (reader_connections m) r = Some c \<and>
    w \<in> set c \<and> om_find (reader_sessions m) r \<noteq> None \<and> sess_addr w = a"
proof -
  note wf = cm_syncedD(1) [OF assms(1)]
  obtain w where w: "om_find (writer_sessions m) a = Some w"
    using wconn_registered [OF wf assms(2)] by blast
  have "reader_sessions m \<noteq> []" using cm_syncedD(3) [OF assms(1)] assms(2) by fastforce
  with w cm_syncedD(2) [OF assms(1) w] assms(2) obtain c
    where "om_find (reader_connections m) r = Some c" "w \<in> set c" by auto
  moreover then have "om_find (reader_sessions m) r \<noteq> None"
    using reader_conns_iff [OF wf, of r] by simp
  moreover have "sess_addr w = a" using w cm_wfD(2) [OF wf] by (auto simp: sessions_keyed_def)
  ultimately show ?thesis using w by blast
qed

lemma synced_AddReader:
  assumes "cm_synced m" "om_find (reader_sessions m) (sess_addr s) = None"
  shows "cm_synced (fst (AddReaderSession s m))"
proof (intro cm_syncedI cm_wf_AddReader cm_syncedD(1) [OF assms(1)], goal_cases)
  case (1 a w)
  note wf = cm_syncedD(1) [OF assms(1)]
  show ?case
  proof (cases "reader_sessions m = []")
    case True
    have "om_find (writer_sessions m) a = Some w"
      using 1(1) by (simp add: cm_defs Let_def split: if_splits)
    then have "(a, w) \<in> set (writer_sessions m)"
      using om_find_in_set [OF cm_wfD(4) [OF wf]] by blast
    then have "a \<in> fst ` set (writer_sessions m)" "w \<in> snd ` set (writer_sessions m)" by force+
    with True show ?thesis by (simp add: cm_defs Let_def om_find_fold_put_const om_find_Cons)
  next
    case False
    then have "om_find (writer_sessions m) a = Some w"
      using 1(1) by (simp add: cm_defs Let_def split: if_splits)
    from cm_syncedD(2) [OF assms(1) this False] obtain r c
      where "om_find (writer_connections m) a = Some r" "om_find (reader_connections m) r = Some c"
        "w \<in> set c" by blast
    moreover have "om_find (reader_connections m) (sess_addr s) = None"
      using assms(2) reader_conns_iff [OF wf] by simp
    ultimately show ?thesis using False by (auto simp: cm_defs Let_def)
  qed
next
  case 2
  then have False by (cases "reader_sessions m") (auto simp: cm_defs Let_def split: if_splits prod.splits)
  then show ?case ..
qed

lemma synced_RemoveReader:
  assumes "cm_synced m"
  shows "cm_synced (RemoveReaderSession ids s m)"
proof -
  note wf = cm_syncedD(1) [OF assms]
  from wf show ?thesis
  proof (cases rule: RemoveReader_cases [of m ids s])
    case only
    then show ?thesis using cm_wf_RemoveReader [OF wf, of ids s]
      by (intro cm_syncedI) (auto)
  next
    case (move dead r c)
    have rs: "reader_sessions m \<noteq> []" using move(1) by auto
    show ?thesis
    proof (intro cm_syncedI cm_wf_RemoveReader wf, goal_cases)
      case (1 a w)
      then have w: "om_find (writer_sessions m) a = Some w" using move(8) by simp
      then have wa: "sess_addr w = a" using cm_wfD(2) [OF wf] by (auto simp: sessions_keyed_def)
      from cm_syncedD(2) [OF assms w rs] obtain r0 c0
        where r0: "om_find (writer_connections m) a = Some r0"
          "om_find (reader_connections m) r0 = Some c0" "w \<in> set c0" by blast
      show ?case
      proof (cases "r0 = sess_addr s")
        case True
        then have "w \<in> set dead" "c0 = dead" using r0 move(3) by auto
        then show ?thesis using wa move(5)
          by (intro exI [of _ r] exI [of _ "c @ dead"])
             (auto simp: move(8) om_find_fold_put_const om_find_erase cm_wfD(5) [OF wf])
      next
        case False
        then have "a \<notin> sess_addr ` set dead"
          using r0(1) cm_wfD(10) [OF wf move(3)] by auto
        moreover have "om_find (if dead = [] then reader_connections m
            else om_put r (c @ dead) (reader_connections m)) r0 =
            Some (if r0 = r then c @ dead else c0)"
          using r0(2) move(6) by auto
        ultimately show ?thesis using r0 False move(6)
          by (intro exI [of _ r0] exI [of _ "if r0 = r then c @ dead else c0"])
             (auto simp: move(8) om_find_fold_put_const om_find_erase cm_wfD(5) [OF wf])
      qed
    next
      case 2
      have "om_find (om_erase (sess_addr s) (reader_sessions m)) r \<noteq> None"
        using move(5,6) reader_conns_iff [OF wf, of r] by (simp add: om_find_erase cm_wfD(3) [OF wf])
      then show ?case using 2 by (auto simp: move(8))
    qed
  qed (use assms in simp)
qed

lemma synced_AddWriter:
  assumes "cm_synced m" "AddWriterSession s m = Some (m', eff, n)"
  shows "cm_synced m'"
proof -
  note wf = cm_syncedD(1) [OF assms(1)]
  note wf' = cm_wf_AddWriter [OF wf assms(2)]
  from wf show ?thesis
  proof (cases rule: AddWriter_cases [of m s])
    case (unattached eff n)
    then show ?thesis using wf' assms cm_syncedD(3) [OF assms(1)] by (intro cm_syncedI) auto
  next
    case (attached r x rs c eff n)
    show ?thesis
    proof (intro cm_syncedI wf', goal_cases)
      case (1 a w)
      show ?case
      proof (cases "a = sess_addr s")
        case True
        then show ?thesis using 1 attached assms(2) by auto
      next
        case False
        then have "om_find (writer_sessions m) a = Some w" using 1 attached assms(2) by auto
        from cm_syncedD(2) [OF assms(1) this] False attached assms(2) show ?thesis by auto
      qed
    next
      case 2
      then show ?case using attached assms(2) by auto
    qed
  next
    case (orphaned r eff n)
    then show ?thesis using synced_fed [OF assms(1) orphaned(1)] by auto
  next
    case (replaced r old c eff n)
    have c: "old \<in> set c" using synced_fed [OF assms(1) replaced(1)] replaced(2,3) by auto
    have rs: "reader_sessions m \<noteq> []"
      using replaced(3) no_readers_no_connections [OF wf] by fastforce
    show ?thesis
    proof (intro cm_syncedI wf', goal_cases)
      case (1 a w)
      show ?case
      proof (cases "a = sess_addr s")
        case True
        then show ?thesis using 1 replaced assms(2) c
          by (auto simp: set_replace_first cm_wfD(8) [OF wf replaced(3)])
      next
        case False
        then have w: "om_find (writer_sessions m) a = Some w" using 1 replaced assms(2) by auto
        then have "w \<noteq> old"
          using False replaced(2) cm_wfD(2) [OF wf] by (auto simp: sessions_keyed_def)
        with cm_syncedD(2) [OF assms(1) w rs] False replaced assms(2) c show ?thesis
          by (auto simp: set_replace_first cm_wfD(8) [OF wf replaced(3)])
      qed
    next
      case 2
      then show ?case using replaced assms(2) rs by auto
    qed
  qed
qed

lemma synced_RemoveWriter:
  assumes "cm_synced m" "ids_tell_apart ids s m"
  shows "cm_synced (RemoveWriterSession ids s m)"
proof -
  note wf = cm_syncedD(1) [OF assms(1)]
  note wf' = cm_wf_RemoveWriter [OF wf assms(2)]
  from wf assms(2) show ?thesis
  proof (cases rule: RemoveWriter_cases [of m ids s])
    case gone
    then show ?thesis using assms by simp
  next
    case only
    then show ?thesis using wf' by (intro cm_syncedI) auto
  next
    case detached
    then show ?thesis using wf' cm_syncedD(2,3) [OF assms(1)] cm_wfD(4,6) [OF wf]
      by (intro cm_syncedI) (auto simp: om_find_erase split: if_splits)
  next
    case (attached r c)
    have "w' \<noteq> s" if "om_find (writer_sessions m) a = Some w'" "a \<noteq> sess_addr s" for a w'
      using that cm_wfD(2) [OF wf] by (auto simp: sessions_keyed_def)
    then show ?thesis using attached wf' cm_syncedD(2,3) [OF assms(1)] cm_wfD(4,6) [OF wf]
      by (intro cm_syncedI) (fastforce simp: om_find_erase split: if_splits)+
  qed
qed

lemma synced_moved_writer:
  assumes "cm_synced m" "moved_writer a cur nxt m m'"
  shows "cm_synced m'"
proof -
  note wf = cm_syncedD(1) [OF assms(1)]
  from assms(2) obtain xs w ys c where
    m: "nxt \<noteq> cur" "om_find (reader_connections m) cur = Some (xs @ w # ys)" "sess_addr w = a"
      "om_find (reader_connections m) nxt = Some c"
      "m' = m\<lparr>reader_connections :=
                 om_put cur (xs @ ys) (om_put nxt (c @ [w]) (reader_connections m)),
               writer_connections := om_put a nxt (writer_connections m)\<rparr>"
    by (auto simp: moved_writer_def)
  have ww: "om_find (writer_sessions m) a = Some w" using cm_wfD(9) [OF wf m(2), of w] m(3) by simp
  have rs: "reader_sessions m \<noteq> []"
    using m(2) no_readers_no_connections [OF wf] by fastforce
  show ?thesis
  proof (intro cm_syncedI cm_wf_moved_writer [OF wf assms(2)], goal_cases)
    case (1 b v)
    then have v: "om_find (writer_sessions m) b = Some v" using m(5) by simp
    from cm_syncedD(2) [OF assms(1) v rs] obtain r0 c0
      where r0: "om_find (writer_connections m) b = Some r0"
        "om_find (reader_connections m) r0 = Some c0" "v \<in> set c0" by blast
    show ?case
    proof (cases "b = a")
      case True
      then show ?thesis using ww v m(1,5) by auto
    next
      case False
      then have "v \<noteq> w" using v ww m(3) cm_wfD(2) [OF wf] by (auto simp: sessions_keyed_def)
      with False r0 m(1,2,4) show ?thesis by (auto simp: m(5))
    qed
  next
    case 2
    then show ?case using rs m(5) by simp
  qed
qed

lemma synced_point_all:
  assumes "cm_synced m" "om_find (reader_connections m) a = Some c"
  shows "cm_synced (m\<lparr>reader_connections := gather_connections a (reader_connections m),
                 writer_connections := point_all a (writer_connections m)\<rparr>)"
proof -
  note wf = cm_syncedD(1) [OF assms(1)]
  have rs: "reader_sessions m \<noteq> []"
    using assms(2) no_readers_no_connections [OF wf] by fastforce
  show ?thesis
  proof (intro cm_syncedI cm_wf_point_all [OF wf assms(2)], goal_cases)
    case (1 b v)
    then have v: "om_find (writer_sessions m) b = Some v" by simp
    from cm_syncedD(2) [OF assms(1) v rs] obtain r0 c0
      where r0: "om_find (writer_connections m) b = Some r0"
        "om_find (reader_connections m) r0 = Some c0" "v \<in> set c0" by blast
    have "(r0, c0) \<in> set (reader_connections m)" using r0(2) om_find_in_set [OF cm_wfD(5) [OF wf]] by blast
    with r0 assms(2) show ?case by (auto simp: om_find_gather) (metis option.inject)
  next
    case 2
    then show ?case using rs by simp
  qed
qed

section \<open>The router\<close>

text \<open>The specification: who is registered, and which camera each screen watches.\<close>

record router =
  cameras :: "(tcp_addr \<times> session) list"
  screens :: "(tcp_addr \<times> session) list"
  feed :: "tcp_addr \<Rightarrow> tcp_addr option"

definition router_of :: "conn_manager \<Rightarrow> router" where
  "router_of m = \<lparr>cameras = reader_sessions m, screens = writer_sessions m,
     feed = om_find (writer_connections m)\<rparr>"

definition is_current :: "id_heap \<Rightarrow> session \<Rightarrow> (tcp_addr \<times> session) list \<Rightarrow> bool" where
  "is_current ids s ss =
     (case om_find ss (sess_addr s) of None \<Rightarrow> False | Some x \<Rightarrow> ids (sess_ptr x) = ids (sess_ptr s))"

definition next_camera :: "router \<Rightarrow> tcp_addr \<Rightarrow> tcp_addr" where
  "next_camera r c = om_next_or_begin (cameras r) c"

fun router_step :: "id_heap \<Rightarrow> cm_event \<Rightarrow> router \<Rightarrow> router" where
  "router_step ids (AddReader s) r =
     r\<lparr>cameras := om_put (sess_addr s) s (cameras r),
       feed := if cameras r = []
               then (\<lambda>a. if om_find (screens r) a = None then None else Some (sess_addr s))
               else feed r\<rparr>"
| "router_step ids (RemoveReader s) r =
     (if \<not> is_current ids s (cameras r) then r
      else r\<lparr>cameras := om_erase (sess_addr s) (cameras r),
             feed := if length (cameras r) = 1 then Map.empty
                     else (\<lambda>a. if feed r a = Some (sess_addr s)
                               then Some (next_camera r (sess_addr s)) else feed r a)\<rparr>)"
| "router_step ids (AddWriter s) r =
     r\<lparr>screens := om_put (sess_addr s) s (screens r),
       feed := if feed r (sess_addr s) \<noteq> None \<or> cameras r = [] then feed r
               else (feed r)(sess_addr s \<mapsto> fst (hd (cameras r)))\<rparr>"
| "router_step ids (RemoveWriter s) r =
     (if \<not> is_current ids s (screens r) then r
      else r\<lparr>screens := om_erase (sess_addr s) (screens r), feed := (feed r)(sess_addr s := None)\<rparr>)"
| "router_step ids (Rotate a) r =
     r\<lparr>feed := (feed r)(a := map_option (next_camera r) (feed r a))\<rparr>"
| "router_step ids (Reset a) r =
     r\<lparr>feed := (feed r)(a := map_option (\<lambda>_. fst (hd (cameras r))) (feed r a))\<rparr>"
| "router_step ids RotateAll r =
     (case screens r of
        [] \<Rightarrow> r
      | (a, _) # _ \<Rightarrow> (case feed r a of
          None \<Rightarrow> r
        | Some c \<Rightarrow> r\<lparr>feed := map_option (\<lambda>_. next_camera r c) \<circ> feed r\<rparr>))"
| "router_step ids (PointAt c) r =
     (if om_find (cameras r) c = None then r else r\<lparr>feed := map_option (\<lambda>_. c) \<circ> feed r\<rparr>)"
| "router_step ids ClearAll r = \<lparr>cameras = [], screens = [], feed = Map.empty\<rparr>"

text \<open>When an event is one the refinement covers: a camera registers only under a free address,
  and a screen that leaves is told apart from the one registered by its id.\<close>

fun event_ok :: "id_heap \<Rightarrow> cm_event \<Rightarrow> conn_manager \<Rightarrow> bool" where
  "event_ok ids (AddReader s) m = (om_find (reader_sessions m) (sess_addr s) = None)"
| "event_ok ids e m = ids_ok ids e m"

text \<open>Facts on lists of one element, and on what \<open>synced\<close> says of the keys.\<close>

lemma single_entry: "om_find m k \<noteq> None \<Longrightarrow> length m = 1 \<Longrightarrow> \<exists>v. m = [(k, v)]"
  by (cases m; cases "hd m") (auto simp: om_find_Cons split: if_splits)

lemma next_single [simp]: "om_next_or_begin [(k, v)] k = k"
  by (simp add: om_next_or_begin_def om_keys_def cyc_next_def)

lemma synced_feed_camera:
  assumes "cm_synced m" "om_find (writer_connections m) a = Some r"
  shows "om_find (reader_sessions m) r \<noteq> None" "reader_sessions m \<noteq> []"
  using synced_fed [OF assms] by auto

lemma synced_keys:
  assumes "cm_synced m" "reader_sessions m \<noteq> []"
  shows "om_keys (writer_connections m) = om_keys (writer_sessions m)"
proof -
  note wf = cm_wfD [OF cm_syncedD(1) [OF assms(1)]]
  have "dom (om_find (writer_connections m)) = dom (om_find (writer_sessions m))"
    using wf(11) cm_syncedD(2) [OF assms(1) _ assms(2)] by auto blast
  then have "set (om_keys (writer_connections m)) = set (om_keys (writer_sessions m))"
    by (simp add: dom_om_find om_keys_def)
  then show ?thesis
    using om.keys_sorted [OF wf(6)] om.keys_sorted [OF wf(4)] by (intro strict_sorted_equal) auto
qed

end
