(* ===== verification/Connection_Refinement.thy ===== *)
theory Connection_Refinement
  imports Connection_Routing
begin

text \<open>
  The connection manager implements the router: each operation of the code, seen through
  \<open>router_of\<close>, is the operation of the specification; frames follow the feed; and the rotation of a
  screen goes round all cameras.
\<close>

section \<open>One operation\<close>

lemma router_of_simps [simp]:
  "cameras (router_of m) = reader_sessions m" "screens (router_of m) = writer_sessions m"
  "feed (router_of m) = om_find (writer_connections m)"
  by (simp_all add: router_of_def)

lemma router_eqI:
  fixes r r' :: router
  assumes "cameras r = cameras r'" "screens r = screens r'" "\<And>a. feed r a = feed r' a"
  shows "r = r'"
  using assms by (cases r; cases r') auto

lemma refine_AddReader:
  assumes "cm_synced m" "om_find (reader_sessions m) (sess_addr s) = None"
  shows "router_of (fst (AddReaderSession s m)) = router_step ids (AddReader s) (router_of m)"
proof (cases "reader_sessions m = []")
  case True
  have "a \<in> fst ` set (writer_sessions m) \<longleftrightarrow> om_find (writer_sessions m) a \<noteq> None" for a
    using keyed_fst cm_wfD(4) [OF cm_syncedD(1) [OF assms(1)]] by blast
  with True cm_syncedD(3) [OF assms(1)] show ?thesis
    by (intro router_eqI) (auto simp: cm_defs Let_def om_find_fold_put_const)
next
  case False
  then show ?thesis by (intro router_eqI) (auto simp: cm_defs Let_def)
qed

lemma RemoveReader_not_current:
  "\<not> is_current ids s (reader_sessions m) \<Longrightarrow> RemoveReaderSession ids s m = m"
  by (auto simp: RemoveReaderSession_def is_current_def split: option.splits)

lemma RemoveReader_current:
  assumes "cm_wf m" "is_current ids s (reader_sessions m)"
  shows "RemoveReaderSession ids s m \<noteq> m"
proof -
  have "om_find (reader_sessions m) (sess_addr s) \<noteq> None"
    using assms(2) by (auto simp: is_current_def split: option.splits)
  moreover have "om_find (reader_sessions (RemoveReaderSession ids s m)) (sess_addr s) = None"
    using assms(2) cm_wfD(3) [OF assms(1)]
    by (auto simp: RemoveReaderSession_def is_current_def Let_def om_find_erase
        split: option.splits prod.splits)
  ultimately show ?thesis by metis
qed

lemma refine_RemoveReader:
  assumes "cm_synced m"
  shows "router_of (RemoveReaderSession ids s m) = router_step ids (RemoveReader s) (router_of m)"
proof (cases "is_current ids s (reader_sessions m)")
  case False
  then show ?thesis by (simp add: RemoveReader_not_current)
next
  case cur: True
  note wf = cm_syncedD(1) [OF assms]
  from wf show ?thesis
  proof (cases rule: RemoveReader_cases [of m ids s])
    case gone
    then show ?thesis using RemoveReader_current [OF wf cur] by simp
  next
    case only
    then show ?thesis using cur by (intro router_eqI) auto
  next
    case (move dead r c)
    have "a \<in> sess_addr ` set dead \<longleftrightarrow> om_find (writer_connections m) a = Some (sess_addr s)" for a
      using cm_wfD(10) [OF wf move(3)] synced_fed [OF assms, of a "sess_addr s"] move(3) by auto
    then show ?thesis using cur move(2,4)
      by (intro router_eqI) (auto simp: move(8) om_find_fold_put_const next_camera_def)
  qed
qed

lemma refine_AddWriter:
  assumes "cm_synced m" "AddWriterSession s m = Some (m', eff, n)"
  shows "router_of m' = router_step ids (AddWriter s) (router_of m)"
proof -
  note wf = cm_syncedD(1) [OF assms(1)]
  from wf show ?thesis
  proof (cases rule: AddWriter_cases [of m s])
    case (replaced r old c eff n)
    then show ?thesis using assms by (intro router_eqI) auto
  next
    case (orphaned r eff n)
    then show ?thesis using synced_fed [OF assms(1) orphaned(1)] by auto
  qed (use assms in \<open>auto intro!: router_eqI\<close>)
qed

lemma RemoveWriter_current:
  assumes "cm_wf m" "is_current ids s (writer_sessions m)"
  shows "RemoveWriterSession ids s m \<noteq> m"
proof -
  have "om_find (writer_sessions m) (sess_addr s) \<noteq> None"
    using assms(2) by (auto simp: is_current_def split: option.splits)
  moreover have "om_find (writer_sessions (RemoveWriterSession ids s m)) (sess_addr s) = None"
    using assms(2) cm_wfD(4) [OF assms(1)]
    by (auto simp: RemoveWriterSession_def is_current_def Let_def om_find_erase
        split: option.splits)
  ultimately show ?thesis by metis
qed

lemma refine_RemoveWriter:
  assumes "cm_synced m" "ids_tell_apart ids s m"
  shows "router_of (RemoveWriterSession ids s m) = router_step ids (RemoveWriter s) (router_of m)"
proof (cases "is_current ids s (writer_sessions m)")
  case False
  then have "RemoveWriterSession ids s m = m"
    by (auto simp: RemoveWriterSession_def is_current_def split: option.splits)
  with False show ?thesis by simp
next
  case cur: True
  note wf = cm_syncedD(1) [OF assms(1)]
  from wf assms(2) show ?thesis
  proof (cases rule: RemoveWriter_cases [of m ids s])
    case gone
    then show ?thesis using RemoveWriter_current [OF wf cur] by simp
  next
    case only
    have "om_find (writer_connections m) a = None" if "a \<noteq> sess_addr s" for a
      using only(1) cm_wfD(11) [OF wf] that by (auto simp: om_find_Cons dom_def split: if_splits)
    with only cur show ?thesis by (intro router_eqI) auto
  qed (use cur cm_wfD(6) [OF wf] in \<open>auto intro!: router_eqI simp: om_find_erase\<close>)
qed

lemma moved_writer_router:
  "moved_writer a cur nxt m m' \<Longrightarrow>
   router_of m' = router_of m\<lparr>feed := (om_find (writer_connections m))(a \<mapsto> nxt)\<rparr>"
  by (auto simp: moved_writer_def intro!: router_eqI)

lemma take_writer_present:
  assumes "w \<in> set ws" "sess_addr w = a"
  shows "\<exists>x rest. take_writer a ws = Some (x, rest)"
  using assms by (cases "take_writer a ws") (auto simp: take_writer_None)

lemma refine_Rotate:
  assumes "cm_synced m"
  shows "router_of (fst (RotateWriterConnection a m)) = router_step ids (Rotate a) (router_of m) \<and>
    (snd (RotateWriterConnection a m) \<longleftrightarrow> om_find (writer_connections m) a \<noteq> None)"
proof (cases "om_find (writer_connections m) a")
  case None
  then show ?thesis by (auto simp: RotateWriterConnection_def intro!: router_eqI)
next
  case (Some cur)
  note wf = cm_syncedD(1) [OF assms]
  from synced_fed [OF assms Some] obtain w c where
    w: "om_find (reader_connections m) cur = Some c" "w \<in> set c" "sess_addr w = a"
      "om_find (reader_sessions m) cur \<noteq> None" by blast
  then obtain v where "om_find (reader_sessions m) cur = Some v" by auto
  show ?thesis
  proof (cases "length (reader_sessions m) = 1")
    case True
    then obtain y where y: "reader_sessions m = [(cur, y)]" using single_entry [OF w(4) True] by blast
    then have "RotateWriterConnection a m = (m, True)"
      using Some by (simp add: RotateWriterConnection_def)
    with Some y show ?thesis by (intro conjI router_eqI) (simp_all add: next_camera_def)
  next
    case False
    define nxt where "nxt = om_next_or_begin (reader_sessions m) cur"
    have "om_find (reader_sessions m) nxt \<noteq> None"
      using om_next_or_begin_in [OF cm_wfD(3) [OF wf] w(4)] by (simp add: nxt_def)
    then obtain cn where cn: "om_find (reader_connections m) nxt = Some cn"
      using reader_conns_iff [OF wf, of nxt] by auto
    obtain x rest where "take_writer a c = Some (x, rest)"
      using take_writer_present [OF w(2,3)] by blast
    with Some w cn False \<open>om_find (reader_sessions m) cur = Some v\<close> show ?thesis
      by (auto simp: RotateWriterConnection_def next_camera_def Let_def nxt_def intro!: router_eqI)
  qed
qed

lemma refine_Reset:
  assumes "cm_synced m"
  shows "router_of (fst (ResetWriterConnection a m)) = router_step ids (Reset a) (router_of m) \<and>
    (snd (ResetWriterConnection a m) \<longleftrightarrow> om_find (writer_connections m) a \<noteq> None)"
proof (cases "om_find (writer_connections m) a")
  case None
  then show ?thesis by (auto simp: ResetWriterConnection_def intro!: router_eqI)
next
  case (Some cur)
  note wf = cm_syncedD(1) [OF assms]
  from synced_fed [OF assms Some] obtain w c where
    w: "om_find (reader_connections m) cur = Some c" "w \<in> set c" "sess_addr w = a"
      "om_find (reader_sessions m) cur \<noteq> None" by blast
  then obtain v where v: "om_find (reader_sessions m) cur = Some v" by auto
  obtain f x rs where f: "reader_sessions m = (f, x) # rs"
    using w(4) by (cases "reader_sessions m") auto
  show ?thesis
  proof (cases "length (reader_sessions m) = 1 \<or> cur = f")
    case True
    then have "cur = f" using f w(4) by (auto simp: om_find_Cons split: if_splits)
    with Some f show ?thesis
      by (auto simp: ResetWriterConnection_def om_find_Cons intro!: router_eqI)
  next
    case False
    obtain cn where cn: "om_find (reader_connections m) f = Some cn"
      using reader_conns_iff [OF wf, of f] f by auto
    obtain y rest where "take_writer a c = Some (y, rest)"
      using take_writer_present [OF w(2,3)] by blast
    with Some w cn False v f show ?thesis
      by (auto simp: ResetWriterConnection_def Let_def intro!: router_eqI)
  qed
qed

lemma synced_first_writer:
  assumes "cm_synced m" "writer_connections m = (a, c) # ws"
  shows "\<exists>w rest. writer_sessions m = (a, w) # rest \<and> om_find (writer_connections m) a = Some c"
proof -
  have f: "om_find (writer_connections m) a = Some c" using assms(2) by simp
  have "om_keys (writer_sessions m) = om_keys (writer_connections m)"
    using synced_keys [OF assms(1) synced_feed_camera(2) [OF assms(1) f]] by simp
  with assms(2) obtain w rest where "writer_sessions m = (a, w) # rest"
    by (cases "writer_sessions m") (auto simp: om_keys_def)
  with f show ?thesis by blast
qed

lemma refine_RotateAll:
  assumes "cm_synced m"
  shows "router_of (fst (RotateAllConnections m)) = router_step ids RotateAll (router_of m)"
proof (cases "writer_connections m")
  case Nil
  then show ?thesis
    by (auto simp: RotateAllConnections_def intro!: router_eqI split: list.splits)
next
  case (Cons e ws)
  obtain a c where e: "e = (a, c)" by fastforce
  note wf = cm_syncedD(1) [OF assms]
  from synced_first_writer [OF assms Cons [unfolded e]] obtain w rest
    where w: "writer_sessions m = (a, w) # rest" "om_find (writer_connections m) a = Some c"
    by blast
  note cam = synced_feed_camera [OF assms w(2)]
  show ?thesis
  proof (cases "length (reader_sessions m) \<le> 1")
    case True
    then have "length (reader_sessions m) = 1" using cam(2) by (cases "reader_sessions m") auto
    from single_entry [OF cam(1) this] obtain v where v: "reader_sessions m = [(c, v)]" by blast
    have "om_find (writer_connections m) b = Some r \<Longrightarrow> r = c" for b r
      using synced_feed_camera(1) [OF assms, of b r] v by (auto simp: om_find_Cons split: if_splits)
    then have "map_option (\<lambda>_. c) (om_find (writer_connections m) b) = om_find (writer_connections m) b" for b
      by (cases "om_find (writer_connections m) b") auto
    moreover have "RotateAllConnections m = (m, False)"
      using True Cons e by (simp add: RotateAllConnections_def)
    ultimately show ?thesis using v w by (intro router_eqI) (simp_all add: next_camera_def)
  next
    case False
    define nxt where "nxt = om_next_or_begin (reader_sessions m) c"
    have "om_find (reader_sessions m) nxt \<noteq> None"
      using om_next_or_begin_in [OF cm_wfD(3) [OF wf] cam(1)] by (simp add: nxt_def)
    then have "om_find (reader_connections m) nxt \<noteq> None"
      using reader_conns_iff [OF wf, of nxt] by auto
    then have "RotateAllConnections m =
        (m\<lparr>reader_connections := gather_connections nxt (reader_connections m),
           writer_connections := point_all nxt (writer_connections m)\<rparr>, True)"
      using Cons e False cam(1) by (simp add: RotateAllConnections_def nxt_def Let_def)
    with w show ?thesis
      by (intro router_eqI) (simp_all add: next_camera_def nxt_def)
  qed
qed

lemma refine_PointAt:
  assumes "cm_wf m"
  shows "router_of (fst (PointReaderAtWriters c m)) = router_step ids (PointAt c) (router_of m)"
  using reader_conns_iff [OF assms, of c] by (auto simp: PointReader_eq intro!: router_eqI)

section \<open>Runs\<close>

lemma synced_step:
  assumes "cm_synced m" "event_ok ids e m"
  shows "cm_synced (cm_step ids e m) \<and>
    router_of (cm_step ids e m) = router_step ids e (router_of m)"
proof (cases e)
  case (AddReader s)
  with assms show ?thesis using synced_AddReader refine_AddReader by auto
next
  case (AddWriter s)
  obtain m' eff n where "AddWriterSession s m = Some (m', eff, n)"
    using AddWriter_returns [OF cm_syncedD(1) [OF assms(1)]] by blast
  with AddWriter assms show ?thesis
    using synced_AddWriter [OF assms(1)] refine_AddWriter [OF assms(1), of s m' eff n ids] by auto
next
  case (Rotate a)
  have "cm_synced (fst (RotateWriterConnection a m))"
    using RotateWriter_cases [OF cm_syncedD(1) [OF assms(1)], of a] synced_moved_writer [OF assms(1)] assms(1)
    by (cases "RotateWriterConnection a m") fastforce
  with Rotate refine_Rotate [OF assms(1), of a] show ?thesis by simp
next
  case (Reset a)
  have "cm_synced (fst (ResetWriterConnection a m))"
    using ResetWriter_cases [OF cm_syncedD(1) [OF assms(1)], of a] synced_moved_writer [OF assms(1)] assms(1)
    by (cases "ResetWriterConnection a m") fastforce
  with Reset refine_Reset [OF assms(1), of a] show ?thesis by simp
next
  case RotateAll
  have "cm_synced (fst (RotateAllConnections m))"
    using RotateAll_cases [of m] synced_point_all [OF assms(1)] assms(1)
    by (cases "RotateAllConnections m") (fastforce simp: Let_def)
  with RotateAll refine_RotateAll [OF assms(1)] show ?thesis by simp
next
  case (PointAt c)
  have "cm_synced (fst (PointReaderAtWriters c m))"
    using synced_point_all [OF assms(1), of c] assms(1) by (auto simp: PointReader_eq)
  with PointAt refine_PointAt [OF cm_syncedD(1) [OF assms(1)]] show ?thesis by simp
next
  case ClearAll
  have "cm_synced (fst (cm_clear m))"
    by (intro cm_syncedI cm_wf_clear) (auto simp: cm_clear_def)
  with ClearAll show ?thesis by (auto simp: cm_clear_def intro!: router_eqI)
qed (use assms synced_RemoveReader refine_RemoveReader synced_RemoveWriter refine_RemoveWriter in auto)

text \<open>A run: each event with the session ids as they are when it is handled.\<close>

fun cm_run :: "(id_heap \<times> cm_event) list \<Rightarrow> conn_manager \<Rightarrow> conn_manager" where
  "cm_run [] m = m"
| "cm_run ((ids, e) # es) m = cm_run es (cm_step ids e m)"

fun router_run :: "(id_heap \<times> cm_event) list \<Rightarrow> router \<Rightarrow> router" where
  "router_run [] r = r"
| "router_run ((ids, e) # es) r = router_run es (router_step ids e r)"

fun run_ok :: "(id_heap \<times> cm_event) list \<Rightarrow> conn_manager \<Rightarrow> bool" where
  "run_ok [] m = True"
| "run_ok ((ids, e) # es) m = (event_ok ids e m \<and> run_ok es (cm_step ids e m))"

lemma synced_run:
  "cm_synced m \<Longrightarrow> run_ok es m \<Longrightarrow>
   cm_synced (cm_run es m) \<and> router_of (cm_run es m) = router_run es (router_of m)"
  by (induction es m rule: cm_run.induct) (auto dest: synced_step)

lemma cm_run_append: "cm_run (es @ es') m = cm_run es' (cm_run es m)"
  by (induction es m rule: cm_run.induct) auto

definition no_router :: router where
  "no_router = \<lparr>cameras = [], screens = [], feed = Map.empty\<rparr>"

lemma router_of_init: "router_of cm_init = no_router"
  by (auto simp: no_router_def cm_init_def intro!: router_eqI)

text \<open>C3 (refinement): from the start of the server, whatever registrations, removals, rotations,
  resets and clears follow one another (no camera registering again under an address still in use),
  the four maps of the manager are consistent, every screen is fed as soon as there is a camera, and
  the manager's state is that of the router specification after the same events.\<close>

theorem manager_implements_router:
  assumes "run_ok es cm_init"
  shows "cm_synced (cm_run es cm_init) \<and> router_of (cm_run es cm_init) = router_run es no_router"
  using synced_run [OF cm_synced_init assms] by (simp add: router_of_init)

definition cam1 :: session where "cam1 = \<lparr>sess_ptr = 1, sess_addr = 100\<rparr>"
definition cam2 :: session where "cam2 = \<lparr>sess_ptr = 2, sess_addr = 101\<rparr>"
definition scr1 :: session where "scr1 = \<lparr>sess_ptr = 3, sess_addr = 200\<rparr>"
definition scr2 :: session where "scr2 = \<lparr>sess_ptr = 4, sess_addr = 201\<rparr>"

definition demo_ids :: id_heap where "demo_ids p = of_nat p"

definition demo_run :: "(id_heap \<times> cm_event) list" where
  "demo_run = map (Pair demo_ids)
     [AddWriter scr1, AddReader cam1, AddReader cam2, AddWriter scr2, Rotate 200]"

lemmas demo_defs = cam1_def cam2_def scr1_def scr2_def demo_ids_def demo_run_def cm_init_def
  om_find_Cons om_next_or_begin_def om_keys_def cyc_next_def ids_tell_apart_def Let_def

lemma demo_run_ok: "run_ok demo_run cm_init"
  by (simp add: demo_defs cm_defs)

theorem manager_implements_router_witness:
  "cm_synced (cm_run demo_run cm_init) \<and>
   feed (router_run demo_run no_router) 200 = Some 101"
  using manager_implements_router [OF demo_run_ok]
  by (simp add: demo_run_def no_router_def demo_defs next_camera_def)

end
