(* ===== verification/Connection_Delivery.thy ===== *)
theory Connection_Delivery
  imports Connection_Refinement
begin

text \<open>
  What the router refinement gives a frame and a user: who receives a posted frame, where repeated
  rotation leads, and what a camera that registers again under its address does to its screens.
\<close>

section \<open>Frames go where the feed says\<close>

lemma post_message_screens:
  assumes "cm_synced m"
  shows "distinct (map fst (PostMessage c b m)) \<and>
    set (PostMessage c b m) =
      {(w, b) | w. om_find (writer_sessions m) (sess_addr w) = Some w \<and>
                   om_find (writer_connections m) (sess_addr w) = Some c}"
proof -
  note wf = cm_syncedD(1) [OF assms]
  show ?thesis
  proof (cases "om_find (reader_connections m) c")
    case None
    then have "om_find (writer_connections m) a \<noteq> Some c" for a
      using synced_fed [OF assms, of a c] by auto
    with None show ?thesis by (auto simp: PostMessage_def)
  next
    case (Some conns)
    have "w \<in> set conns" if "om_find (writer_sessions m) (sess_addr w) = Some w"
      "om_find (writer_connections m) (sess_addr w) = Some c" for w
      using synced_fed [OF assms that(2)] that(1) Some by auto
    with Some show ?thesis
      using cm_wfD(8,9,10) [OF wf Some] by (auto simp: PostMessage_def comp_def)
  qed
qed



text \<open>At any time, synchronized or not, no session is written twice for a frame and every session
  written is the one registered under its address.\<close>

lemma post_message_registered:
  assumes "cm_wf m" "(w, b) \<in> set (PostMessage c b m)"
  shows "om_find (writer_sessions m) (sess_addr w) = Some w"
  using assms(2) cm_wfD(9) [OF assms(1), of c]
  by (cases "om_find (reader_connections m) c") (auto simp: PostMessage_def)

section \<open>Rotation\<close>

definition rotate_times :: "nat \<Rightarrow> tcp_addr \<Rightarrow> conn_manager \<Rightarrow> conn_manager" where
  "rotate_times n a = (\<lambda>m. fst (RotateWriterConnection a m)) ^^ n"

lemma rotate_times_router:
  assumes "cm_synced m"
  shows "cm_synced (rotate_times n a m) \<and>
    reader_sessions (rotate_times n a m) = reader_sessions m \<and>
    om_find (writer_connections (rotate_times n a m)) a =
      map_option ((cyc_next (om_keys (reader_sessions m))) ^^ n) (om_find (writer_connections m) a) \<and>
    (\<forall>b. b \<noteq> a \<longrightarrow>
      om_find (writer_connections (rotate_times n a m)) b = om_find (writer_connections m) b)"
proof (induction n)
  case 0
  then show ?case using assms by (simp add: rotate_times_def option.map_id [unfolded id_def])
next
  case (Suc n)
  let ?m = "rotate_times n a m"
  have step: "rotate_times (Suc n) a m = cm_step (\<lambda>_. 0) (Rotate a) ?m"
    by (simp add: rotate_times_def)
  from synced_step [of ?m "\<lambda>_. 0" "Rotate a"] Suc
  have sy: "cm_synced (cm_step (\<lambda>_. 0) (Rotate a) ?m)"
    and ref: "router_of (cm_step (\<lambda>_. 0) (Rotate a) ?m) = router_step (\<lambda>_. 0) (Rotate a) (router_of ?m)"
    by simp_all
  from ref have "cameras (router_of (rotate_times (Suc n) a m)) = cameras (router_of ?m)"
    "feed (router_of (rotate_times (Suc n) a m)) b =
       (if b = a then map_option (next_camera (router_of ?m)) (feed (router_of ?m) a)
        else feed (router_of ?m) b)" for b
    unfolding step by (simp_all del: router_of_simps)
  then show ?case
    using Suc sy step by (simp add: next_camera_def om_next_or_begin_def option.map_comp comp_def)
qed

text \<open>C34 (liveness): rotating a fed screen visits the cameras in the cyclic order of their addresses:
  every registered camera is reached in fewer rotations than there are cameras, as many rotations as
  there are cameras lead back to the first, and no other screen is affected.\<close>

theorem rotation_visits_every_camera:
  assumes "cm_synced m" "om_find (writer_connections m) a = Some c"
  shows "(\<forall>c'. om_find (reader_sessions m) c' \<noteq> None \<longrightarrow>
      (\<exists>n < length (reader_sessions m).
        om_find (writer_connections (rotate_times n a m)) a = Some c')) \<and>
    om_find (writer_connections (rotate_times (length (reader_sessions m)) a m)) a = Some c \<and>
    (\<forall>n b. b \<noteq> a \<longrightarrow>
      om_find (writer_connections (rotate_times n a m)) b = om_find (writer_connections m) b)"
proof -
  note wf = cm_wfD(3) [OF cm_syncedD(1) [OF assms(1)]]
  note c = synced_feed_camera(1) [OF assms]
  show ?thesis
    using rotate_times_router [OF assms(1)] om.next_key_orbit [OF wf c]
      om.next_key_reaches [OF wf c] assms(2)
    by auto
qed

theorem rotation_visits_every_camera_witness:
  "\<exists>n < 2. om_find (writer_connections (rotate_times n 200 (cm_run demo_run cm_init))) 200 = Some 100"
proof -
  have ok: "cm_synced (cm_run demo_run cm_init)"
    using synced_run [OF cm_synced_init demo_run_ok] by blast
  have f: "om_find (writer_connections (cm_run demo_run cm_init)) 200 = Some 101"
    and r: "reader_sessions (cm_run demo_run cm_init) = [(100, cam1), (101, cam2)]"
    by (simp_all add: demo_defs cm_defs)
  have "om_find (reader_sessions (cm_run demo_run cm_init)) 100 \<noteq> None" by (simp add: r)
  with rotation_visits_every_camera [OF ok f] have
    "\<exists>n < length (reader_sessions (cm_run demo_run cm_init)).
       om_find (writer_connections (rotate_times n 200 (cm_run demo_run cm_init))) 200 = Some 100"
    by blast
  then show ?thesis by (simp add: r numeral_2_eq_2)
qed

text \<open>Resetting a fed screen puts it on the camera with the lowest address, reports
  success, leaves the other screens alone, and a second reset changes nothing.\<close>

theorem reset_goes_to_first_camera:
  assumes "cm_synced m" "om_find (writer_connections m) a \<noteq> None"
  shows "case ResetWriterConnection a m of (m', ok) \<Rightarrow>
      ok \<and> om_find (writer_connections m') a = Some (fst (hd (reader_sessions m))) \<and>
      (\<forall>b. b \<noteq> a \<longrightarrow> om_find (writer_connections m') b = om_find (writer_connections m) b) \<and>
      ResetWriterConnection a m' = (m', True)"
proof -
  obtain m' ok where m': "ResetWriterConnection a m = (m', ok)" by fastforce
  from refine_Reset [OF assms(1), of a undefined] m' have
    f: "router_of m' = router_step undefined (Reset a) (router_of m)" "ok"
    using assms(2) by auto
  then have feed: "feed (router_of m') b = (if b = a then
      map_option (\<lambda>_. fst (hd (reader_sessions m))) (om_find (writer_connections m) a)
      else om_find (writer_connections m) b)" for b by simp
  from f have rs: "reader_sessions m' = reader_sessions m"
    by (metis (no_types, lifting) router_of_simps(1) router.select_convs(1) router.surjective
        router.update_convs(3) router_step.simps(6))
  have nonempty: "reader_sessions m \<noteq> []" using synced_feed_camera(2) [OF assms(1)] assms(2) by auto
  have fst_feed: "om_find (writer_connections m') a = Some (fst (hd (reader_sessions m)))"
    using feed [of a] assms(2) by auto
  moreover have "ResetWriterConnection a m' = (m', True)"
    using fst_feed rs nonempty
    by (cases "reader_sessions m") (auto simp: ResetWriterConnection_def om_find_Cons)
  ultimately show ?thesis using m' f(2) feed by auto
qed

theorem reset_goes_to_first_camera_witness:
  "snd (ResetWriterConnection 200 (cm_run demo_run cm_init))"
proof -
  have ok: "cm_synced (cm_run demo_run cm_init)"
    using synced_run [OF cm_synced_init demo_run_ok] by blast
  have f: "om_find (writer_connections (cm_run demo_run cm_init)) 200 \<noteq> None"
    by (simp add: demo_defs cm_defs)
  show ?thesis using reset_goes_to_first_camera [OF ok f] by (auto split: prod.splits)
qed

section \<open>A camera that registers again under its address\<close>

text \<open>A screen no list of connections holds, although it is recorded as connected.\<close>

definition orphaned :: "tcp_addr \<Rightarrow> conn_manager \<Rightarrow> bool" where
  "orphaned a m \<longleftrightarrow>
     om_find (writer_connections m) a \<noteq> None \<and> om_find (writer_sessions m) a \<noteq> None \<and>
     reader_sessions m \<noteq> [] \<and>
     (\<forall>r c w. om_find (reader_connections m) r = Some c \<longrightarrow> w \<in> set c \<longrightarrow> sess_addr w \<noteq> a)"

lemma orphaned_no_frames:
  "orphaned a m \<Longrightarrow> (w, b) \<in> set (PostMessage c b m) \<Longrightarrow> sess_addr w \<noteq> a"
  by (cases "om_find (reader_connections m) c") (auto simp: PostMessage_def orphaned_def)

text \<open>The events of a running server other than the departure of a session or a shutdown.\<close>

fun is_repair :: "cm_event \<Rightarrow> bool" where
  "is_repair (RemoveReader s) = False"
| "is_repair (RemoveWriter s) = False"
| "is_repair ClearAll = False"
| "is_repair _ = True"

lemma orphaned_moved_writer: "orphaned a m \<Longrightarrow> moved_writer b cur nxt m m' \<Longrightarrow> orphaned a m'"
  unfolding orphaned_def moved_writer_def by (auto split: if_splits) fastforce+

lemma orphaned_point_all:
  assumes "orphaned a m" "cm_wf m"
  shows "orphaned a (m\<lparr>reader_connections := gather_connections r (reader_connections m),
                 writer_connections := point_all r (writer_connections m)\<rparr>)"
  using assms(1) om_find_in_set [OF cm_wfD(5) [OF assms(2)]]
  unfolding orphaned_def by (fastforce simp: om_find_gather split: if_splits)

lemma orphaned_step:
  assumes "cm_wf m" "orphaned a m" "is_repair e"
  shows "orphaned a (cm_step ids e m)"
proof (cases e)
  case (AddReader s)
  with assms(2) show ?thesis by (auto simp: orphaned_def cm_defs Let_def split: if_splits)
next
  case (AddWriter s)
  from assms(1) show ?thesis
  proof (cases rule: AddWriter_cases [of m s])
    case (replaced r old c eff n)
    have old: "sess_addr old = sess_addr s"
      using replaced(2) cm_wfD(2) [OF assms(1)] by (auto simp: sessions_keyed_def)
    have "sess_addr w \<noteq> a" if "w \<in> set (replace_first old s c)" for w
    proof (cases "old \<in> set c")
      case True
      with that assms(2) replaced(3) old show ?thesis
        by (auto simp: orphaned_def set_replace_first cm_wfD(8) [OF assms(1) replaced(3)])
    next
      case False
      with that assms(2) replaced(3) show ?thesis by (auto simp: orphaned_def replace_first_notin)
    qed
    with replaced AddWriter assms(2) show ?thesis by (auto simp: orphaned_def)
  qed (use AddWriter assms(2) in \<open>auto simp: orphaned_def split: if_splits\<close>)
next
  case (Rotate b)
  with RotateWriter_cases [OF assms(1), of b] orphaned_moved_writer [OF assms(2)] assms(2)
  show ?thesis by (cases "RotateWriterConnection b m") fastforce
next
  case (Reset b)
  with ResetWriter_cases [OF assms(1), of b] orphaned_moved_writer [OF assms(2)] assms(2)
  show ?thesis by (cases "ResetWriterConnection b m") fastforce
next
  case RotateAll
  with RotateAll_cases [of m] orphaned_point_all [OF assms(2,1)] assms(2)
  show ?thesis by (cases "RotateAllConnections m") (fastforce simp: Let_def)
next
  case (PointAt c)
  with orphaned_point_all [OF assms(2,1)] assms(2) show ?thesis by (auto simp: PointReader_eq)
qed (use assms in simp_all)

lemma orphaned_run:
  assumes "cm_wf m" "orphaned a m" "list_all (is_repair \<circ> snd) es"
  shows "orphaned a (cm_run es m)"
  using assms
proof (induction es m rule: cm_run.induct)
  case (2 ids e es m)
  then have "ids_ok ids e m" by (cases e) auto
  with 2 show ?case using orphaned_step cm_wf_step by auto
qed simp

text \<open>When a camera registers again under an address that is still registered, its old
  session is closed and every screen it fed is orphaned: still recorded as connected, but in no list
  of connections. From then on no frame of any camera reaches such a screen, whatever cameras or
  screens register (the screen itself included) and whatever is rotated, reset or pointed, until some
  session is removed or the manager is cleared.\<close>

theorem camera_reconnect_orphans_screens:
  assumes "cm_synced m" "om_find (reader_sessions m) (sess_addr s) = Some old"
    and "om_find (writer_connections m) a = Some (sess_addr s)"
    and "list_all (is_repair \<circ> snd) es"
  shows "case AddReaderSession s m of (m', closed, n) \<Rightarrow>
    closed = [old] \<and> orphaned a m' \<and>
    (\<forall>w b c. (w, b) \<in> set (PostMessage c b (cm_run es m')) \<longrightarrow> sess_addr w \<noteq> a)"
proof -
  note wf = cm_syncedD(1) [OF assms(1)]
  obtain m' closed n where m': "AddReaderSession s m = (m', closed, n)" by (metis prod_cases3)
  have "reader_sessions m \<noteq> []" using assms(2) by auto
  with assms(2) m' have eq: "closed = [old]"
    "m' = m\<lparr>reader_sessions := om_put (sess_addr s) s (reader_sessions m),
            reader_connections := om_put (sess_addr s) [] (reader_connections m),
            last_session_number := n\<rparr>"
    by (auto simp: cm_defs Let_def)
  have "om_find (writer_sessions m) a \<noteq> None"
    using wconn_registered [OF wf assms(3)] by auto
  then have o: "orphaned a m'"
    using eq(2) assms(3) cm_wfD(10) [OF wf] by (auto simp: orphaned_def split: if_splits)
  have "cm_wf m'" using cm_wf_AddReader [OF wf, of s] m' by simp
  from orphaned_run [OF this o assms(4)] have "orphaned a (cm_run es m')" .
  with o eq(1) m' show ?thesis by (auto dest: orphaned_no_frames)
qed

theorem camera_reconnect_orphans_screens_witness:
  "orphaned 201 (fst (AddReaderSession \<lparr>sess_ptr = 9, sess_addr = 100\<rparr> (cm_run demo_run cm_init)))"
proof -
  have ok: "cm_synced (cm_run demo_run cm_init)"
    using synced_run [OF cm_synced_init demo_run_ok] by blast
  let ?s = "\<lparr>sess_ptr = 9, sess_addr = 100\<rparr>"
  have r: "om_find (reader_sessions (cm_run demo_run cm_init)) (sess_addr ?s) = Some cam1"
    and f: "om_find (writer_connections (cm_run demo_run cm_init)) 201 = Some (sess_addr ?s)"
    by (simp_all add: demo_defs cm_defs)
  show ?thesis
    using camera_reconnect_orphans_screens [OF ok r f, of "[(demo_ids, RotateAll)]"]
    by (auto split: prod.splits)
qed

end
