(* ===== verification/Connection_Race.thy ===== *)
theory Connection_Race
  imports Connection_Delivery
begin

text \<open>
  The same manager under its threads. \<open>AddReaderSession\<close> and \<open>AddWriterSession\<close> release their locks
  between registering the session and connecting it; every other operation is one critical section.
  A configuration is the manager with the calls caught between their two sections; a step is one
  critical section. What every interleaving keeps is proved by rule induction, and two reachable
  configurations show what the gap between the sections lets happen.
\<close>

section \<open>Configurations and steps\<close>

datatype pending_call =
  PendReader tcp_addr bool "session option"
| PendWriter session bool "session option"

record race =
  mgr :: conn_manager
  pend :: "pending_call list"
  crashed :: bool
  issued :: "ulong list"

definition race_init :: race where
  "race_init = \<lparr>mgr = cm_init, pend = [], crashed = False, issued = []\<rparr>"

fun single_section :: "cm_event \<Rightarrow> bool" where
  "single_section (AddReader s) = False"
| "single_section (AddWriter s) = False"
| "single_section _ = True"

text \<open>The last section of a call: \<open>finish_add\<close> closes the replaced session and draws the number.\<close>

definition drop_call :: "nat \<Rightarrow> race \<Rightarrow> race" where
  "drop_call i c = c\<lparr>pend := take i (pend c) @ drop (Suc i) (pend c)\<rparr>"

inductive race_step :: "race \<Rightarrow> race \<Rightarrow> bool" where
  begin_reader: "\<not> crashed c \<Longrightarrow> add_reader_1 s (mgr c) = (m, is_first, old) \<Longrightarrow>
    race_step c (c\<lparr>mgr := m, pend := pend c @ [PendReader (sess_addr s) is_first old]\<rparr>)"
| end_reader: "\<not> crashed c \<Longrightarrow> i < length (pend c) \<Longrightarrow> pend c ! i = PendReader a is_first old \<Longrightarrow>
    finish_add old (add_reader_2 a is_first (mgr c)) = (m, closed, n) \<Longrightarrow>
    race_step c ((drop_call i c)\<lparr>mgr := m, issued := n # issued c\<rparr>)"
| begin_writer: "\<not> crashed c \<Longrightarrow> add_writer_1 s (mgr c) = (m, replace, old) \<Longrightarrow>
    race_step c (c\<lparr>mgr := m, pend := pend c @ [PendWriter s replace old]\<rparr>)"
| end_writer: "\<not> crashed c \<Longrightarrow> i < length (pend c) \<Longrightarrow> pend c ! i = PendWriter s replace old \<Longrightarrow>
    add_writer_2 s replace old (mgr c) = Some m' \<Longrightarrow> finish_add old m' = (m, closed, n) \<Longrightarrow>
    race_step c ((drop_call i c)\<lparr>mgr := m, issued := n # issued c\<rparr>)"
| dangling: "\<not> crashed c \<Longrightarrow> i < length (pend c) \<Longrightarrow> pend c ! i = PendWriter s replace old \<Longrightarrow>
    add_writer_2 s replace old (mgr c) = None \<Longrightarrow>
    race_step c (c\<lparr>crashed := True\<rparr>)"
| section_step: "\<not> crashed c \<Longrightarrow> single_section e \<Longrightarrow>
    race_step c (c\<lparr>mgr := cm_step ids e (mgr c)\<rparr>)"

inductive_simps race_step_crashed [simp]: "race_step \<lparr>mgr = m, pend = p, crashed = True, issued = n\<rparr> c'"

inductive race_reach :: "race \<Rightarrow> bool" where
  reach_init: "race_reach race_init"
| reach_step: "race_reach c \<Longrightarrow> race_step c c' \<Longrightarrow> race_reach c'"

section \<open>What every interleaving keeps\<close>

text \<open>The maps stay maps and sessions stay under their own address.\<close>

definition cm_keyed :: "conn_manager \<Rightarrow> bool" where
  "cm_keyed m \<longleftrightarrow> sessions_keyed (reader_sessions m) \<and> sessions_keyed (writer_sessions m) \<and>
     om_wf (reader_connections m) \<and> om_wf (writer_connections m)"

lemma cm_keyed_move:
  "om_wf wc \<Longrightarrow> move_connections r dead to wc = (conns, wc') \<Longrightarrow> om_wf wc'"
  by (auto simp: move_connections_eq)

lemma cm_keyed_RemoveReader: "cm_keyed m \<Longrightarrow> cm_keyed (RemoveReaderSession ids s m)"
  by (auto simp: cm_keyed_def RemoveReaderSession_def Let_def dest: cm_keyed_move
      split: option.splits prod.splits)

lemma cm_keyed_RemoveWriter: "cm_keyed m \<Longrightarrow> cm_keyed (RemoveWriterSession ids s m)"
  using om_wf_map_values [of "\<lambda>_ _. []" "reader_connections m"]
  by (auto simp: cm_keyed_def RemoveWriterSession_def Let_def split: option.splits)

lemma cm_keyed_rotations:
  assumes "cm_keyed m"
  shows "cm_keyed (fst (RotateWriterConnection a m))" "cm_keyed (fst (ResetWriterConnection a m))"
    "cm_keyed (fst (RotateAllConnections m))" "cm_keyed (fst (PointReaderAtWriters a m))"
    "cm_keyed (fst (cm_clear m))"
  using assms unfolding cm_keyed_def
  by (simp_all add: RotateWriterConnection_def ResetWriterConnection_def RotateAllConnections_def
      PointReader_eq cm_clear_def Let_def split: option.splits list.splits prod.splits)

lemma cm_keyed_section: "cm_keyed m \<Longrightarrow> single_section e \<Longrightarrow> cm_keyed (cm_step ids e m)"
  by (cases e) (auto simp: cm_keyed_RemoveReader cm_keyed_RemoveWriter cm_keyed_rotations)

lemma last_number_section:
  "single_section e \<Longrightarrow> last_session_number (cm_step ids e m) = last_session_number m"
  by (cases e) (auto simp: cm_defs Let_def split: option.splits list.splits prod.splits)

lemma add_reader_2_keeps:
  "cm_keyed m \<Longrightarrow> cm_keyed (add_reader_2 a f m)"
  "last_session_number (add_reader_2 a f m) = last_session_number m"
  by (auto simp: cm_keyed_def add_reader_2_def)

lemma add_writer_2_keeps:
  "add_writer_2 s r old m = Some m' \<Longrightarrow> cm_keyed m \<Longrightarrow> cm_keyed m'"
  "add_writer_2 s r old m = Some m' \<Longrightarrow> last_session_number m' = last_session_number m"
  by (auto simp: cm_keyed_def add_writer_2_def split: if_splits option.splits list.splits)

text \<open>The session numbers drawn so far: \<open>n, n - 1, ..., 1\<close>, from the one atomic counter.\<close>

definition numbers_drawn :: "race \<Rightarrow> bool" where
  "numbers_drawn c \<longleftrightarrow>
     last_session_number (mgr c) = of_nat (length (issued c)) \<and>
     issued c = map of_nat (rev [1..<Suc (length (issued c))])"

lemma numbers_drawn_next:
  assumes "numbers_drawn c" "last_session_number m' = last_session_number (mgr c)"
    "finish_add old m' = (m, closed, n)"
  shows "last_session_number m = of_nat (Suc (length (issued c))) \<and>
    n # issued c = map of_nat (rev [1..<Suc (Suc (length (issued c)))])"
  using assms by (auto simp: numbers_drawn_def finish_add_def Let_def)

lemma race_invariant:
  assumes "race_reach c"
  shows "cm_keyed (mgr c) \<and> numbers_drawn c"
  using assms
proof induction
  case reach_init
  show ?case by (simp add: race_init_def cm_keyed_def cm_init_def numbers_drawn_def)
next
  case (reach_step c c')
  from reach_step.hyps(2) show ?case
  proof cases
    case begin_reader
    with reach_step.IH show ?thesis
      by (auto simp: add_reader_1_def cm_keyed_def numbers_drawn_def)
  next
    case end_reader
    from reach_step.IH numbers_drawn_next [OF _ _ end_reader(5)] add_reader_2_keeps end_reader
    show ?thesis by (auto simp: drop_call_def finish_add_def Let_def cm_keyed_def numbers_drawn_def)
  next
    case begin_writer
    with reach_step.IH show ?thesis
      by (auto simp: add_writer_1_def cm_keyed_def numbers_drawn_def Let_def)
  next
    case end_writer
    from reach_step.IH numbers_drawn_next [OF _ add_writer_2_keeps(2) [OF end_writer(5)] end_writer(6)]
      add_writer_2_keeps(1) [OF end_writer(5)] end_writer
    show ?thesis by (auto simp: drop_call_def finish_add_def Let_def cm_keyed_def numbers_drawn_def)
  next
    case dangling
    with reach_step.IH show ?thesis by (simp add: numbers_drawn_def)
  next
    case section_step
    with reach_step.IH show ?thesis
      by (simp add: cm_keyed_section numbers_drawn_def last_number_section)
  qed
qed



section \<open>What the gap between the sections lets happen\<close>

text \<open>The calls one after the other: how a schedule is run, as a function, so that a reachable
  configuration can be computed.\<close>

datatype sched =
  BeginReader session | BeginWriter session | EndCall nat | Section id_heap cm_event

fun sched_step :: "sched \<Rightarrow> race \<Rightarrow> race" where
  "sched_step (BeginReader s) c =
     (case add_reader_1 s (mgr c) of (m, f, old) \<Rightarrow>
        c\<lparr>mgr := m, pend := pend c @ [PendReader (sess_addr s) f old]\<rparr>)"
| "sched_step (BeginWriter s) c =
     (case add_writer_1 s (mgr c) of (m, r, old) \<Rightarrow>
        c\<lparr>mgr := m, pend := pend c @ [PendWriter s r old]\<rparr>)"
| "sched_step (EndCall i) c =
     (if i \<ge> length (pend c) then c
      else case pend c ! i of
        PendReader a f old \<Rightarrow>
          (case finish_add old (add_reader_2 a f (mgr c)) of (m, closed, n) \<Rightarrow>
             (drop_call i c)\<lparr>mgr := m, issued := n # issued c\<rparr>)
      | PendWriter s r old \<Rightarrow>
          (case add_writer_2 s r old (mgr c) of
             None \<Rightarrow> c\<lparr>crashed := True\<rparr>
           | Some m' \<Rightarrow>
               (case finish_add old m' of (m, closed, n) \<Rightarrow>
                  (drop_call i c)\<lparr>mgr := m, issued := n # issued c\<rparr>)))"
| "sched_step (Section ids e) c =
     (if single_section e then c\<lparr>mgr := cm_step ids e (mgr c)\<rparr> else c)"

definition sched_run :: "sched list \<Rightarrow> race \<Rightarrow> race" where
  "sched_run ss c = fold (\<lambda>s c. if crashed c then c else sched_step s c) ss c"

lemma sched_step_reach:
  assumes "race_reach c" "\<not> crashed c"
  shows "race_reach (sched_step s c)"
proof (cases s)
  case (BeginReader x)
  obtain m f old where a: "add_reader_1 x (mgr c) = (m, f, old)" by (metis prod_cases3)
  with reach_step [OF assms(1) race_step.begin_reader [OF assms(2) a]] BeginReader
  show ?thesis by simp
next
  case (BeginWriter x)
  obtain m r old where a: "add_writer_1 x (mgr c) = (m, r, old)" by (metis prod_cases3)
  with reach_step [OF assms(1) race_step.begin_writer [OF assms(2) a]] BeginWriter
  show ?thesis by simp
next
  case (Section ids e)
  with reach_step [OF assms(1) race_step.section_step [OF assms(2), of e ids]] assms(1)
  show ?thesis by simp
next
  case (EndCall i)
  show ?thesis
  proof (cases "i < length (pend c)")
    case False
    with EndCall assms(1) show ?thesis by simp
  next
    case i: True
    show ?thesis
    proof (cases "pend c ! i")
      case (PendReader a f old)
      obtain m closed n where "finish_add old (add_reader_2 a f (mgr c)) = (m, closed, n)"
        by (metis prod_cases3)
      with reach_step [OF assms(1) race_step.end_reader [OF assms(2) i PendReader this]] EndCall i
        PendReader show ?thesis by simp
    next
      case (PendWriter x r old)
      show ?thesis
      proof (cases "add_writer_2 x r old (mgr c)")
        case None
        with reach_step [OF assms(1) race_step.dangling [OF assms(2) i PendWriter None]] EndCall i
          PendWriter show ?thesis by simp
      next
        case (Some m')
        obtain m closed n where f: "finish_add old m' = (m, closed, n)" by (metis prod_cases3)
        with reach_step [OF assms(1) race_step.end_writer [OF assms(2) i PendWriter Some f]] EndCall i
          PendWriter Some show ?thesis by simp
      qed
    qed
  qed
qed

lemma sched_run_reach: "race_reach c \<Longrightarrow> race_reach (sched_run ss c)"
  unfolding sched_run_def
  by (rule fold_invariant_run) (auto simp: sched_step_reach)

lemmas race_eval = sched_run_def race_init_def drop_call_def PostMessage_def demo_defs cm_defs

text \<open>The gap makes the manager write a frame twice: a screen registers, the first camera
  then registers and takes every registered screen, and the screen's call ends by appending it to
  that camera again. Removing the screen afterwards takes one of the two entries away: with another
  screen registered, the frames of the camera are still written to the removed session.\<close>

theorem interleaving_delivers_twice:
  "\<exists>c. race_reach c \<and> \<not> crashed c \<and> pend c = [] \<and>
     map fst (PostMessage 100 b (mgr c)) = [scr1, scr2, scr1] \<and>
     (let m = RemoveWriterSession demo_ids scr1 (mgr c) in
       om_find (writer_sessions m) (sess_addr scr1) = None \<and>
       map fst (PostMessage 100 b m) = [scr2, scr1])"
proof -
  let ?c = "sched_run [BeginWriter scr2, EndCall 0, BeginWriter scr1, BeginReader cam1, EndCall 1,
    EndCall 0] race_init"
  have "race_reach ?c" by (intro sched_run_reach reach_init)
  then show ?thesis by (intro exI [of _ ?c]) (simp add: race_eval RemoveWriterSession_def)
qed

text \<open>The gap makes the manager follow a dangling pointer: a connected screen registers
  again and keeps a pointer to its entry of \<open>_writer_connections\<close>, the only camera leaves and the
  entries are cleared, and the second section then reads through the pointer.\<close>

theorem interleaving_dangling_pointer:
  "\<exists>c. race_reach c \<and> crashed c \<and> writer_connections (mgr c) = []"
proof -
  let ?c = "sched_run [BeginWriter scr1, EndCall 0, BeginReader cam1, EndCall 0,
    BeginWriter \<lparr>sess_ptr = 9, sess_addr = 200\<rparr>, Section demo_ids (RemoveReader cam1), EndCall 0]
    race_init"
  have "race_reach ?c" by (intro sched_run_reach reach_init)
  then show ?thesis by (intro exI [of _ ?c]) (simp add: race_eval)
qed

end
