(* ===== verification/Packet_Header.thy ===== *)
theory Packet_Header
  imports Prelude
begin

text \<open>
  \<open>src/internal/infrastructure/tcp/tcp_utils.hpp\<close>: the packet header of the frame stream. The C++
  header is a union of a packed structure with a \<open>char[24]\<close>: a header here is its 24 bytes, and a
  field is read from and stored into them at its offset, little endian, at its own width. The three
  counters beside the union are kept at their width too.
\<close>

section \<open>Little-endian fields of a byte array\<close>

fun le_nat :: "byte list \<Rightarrow> nat" where
  "le_nat [] = 0"
| "le_nat (b # bs) = unat b + 256 * le_nat bs"

fun le_bytes :: "nat \<Rightarrow> nat \<Rightarrow> byte list" where
  "le_bytes 0 v = []"
| "le_bytes (Suc n) v = of_nat v # le_bytes n (v div 256)"

lemma length_le_bytes [simp]: "length (le_bytes n v) = n"
  by (induction n arbitrary: v) auto

lemma le_nat_bytes: "le_nat (le_bytes n v) = v mod 256 ^ n"
proof (induction n arbitrary: v)
  case (Suc n)
  have "unat (of_nat v :: byte) = v mod 256" by (simp add: unat_of_nat)
  with Suc show ?case by (simp add: mod_mult2_eq)
qed simp

lemma le_nat_zeros [simp]: "le_nat (replicate n 0) = 0"
  by (induction n) auto

lemma le_bytes_0 [simp]: "le_bytes n 0 = replicate n 0"
  by (induction n) auto

definition get16 :: "nat \<Rightarrow> byte list \<Rightarrow> uint16" where
  "get16 off d = of_nat (le_nat (take 2 (drop off d)))"

definition get32 :: "nat \<Rightarrow> byte list \<Rightarrow> uint32" where
  "get32 off d = of_nat (le_nat (take 4 (drop off d)))"

definition put16 :: "nat \<Rightarrow> uint16 \<Rightarrow> byte list \<Rightarrow> byte list" where
  "put16 off v d = store_at d off (le_bytes 2 (unat v))"

definition put32 :: "nat \<Rightarrow> uint32 \<Rightarrow> byte list \<Rightarrow> byte list" where
  "put32 off v d = store_at d off (le_bytes 4 (unat v))"

lemma le_nat_bytes16: "of_nat (le_nat (le_bytes 2 (unat (v :: uint16)))) = v"
proof -
  have "unat v < 256 ^ 2" using unsigned_less [of v] by simp
  then show ?thesis by (simp add: le_nat_bytes)
qed

lemma le_nat_bytes32: "of_nat (le_nat (le_bytes 4 (unat (v :: uint32)))) = v"
proof -
  have "unat v < 256 ^ 4" using unsigned_less [of v] by simp
  then show ?thesis by (simp add: le_nat_bytes)
qed

lemma length_put [simp]:
  "off + 2 \<le> length d \<Longrightarrow> length (put16 off v16 d) = length d"
  "off + 4 \<le> length d \<Longrightarrow> length (put32 off v32 d) = length d"
  by (simp_all add: put16_def put32_def)

lemma get_put_same [simp]:
  "off + 2 \<le> length d \<Longrightarrow> get16 off (put16 off v16 d) = v16"
  "off + 4 \<le> length d \<Longrightarrow> get32 off (put32 off v32 d) = v32"
  by (simp_all add: get16_def put16_def get32_def put32_def le_nat_bytes16 le_nat_bytes32)

text \<open>Two fields whose byte ranges do not overlap do not disturb each other.\<close>

lemma get_put_other:
  "off + 2 \<le> length d \<Longrightarrow> a + 2 \<le> off \<or> off + 2 \<le> a \<Longrightarrow> get16 a (put16 off v16 d) = get16 a d"
  "off + 4 \<le> length d \<Longrightarrow> a + 2 \<le> off \<or> off + 4 \<le> a \<Longrightarrow> get16 a (put32 off v32 d) = get16 a d"
  "off + 2 \<le> length d \<Longrightarrow> a + 4 \<le> off \<or> off + 2 \<le> a \<Longrightarrow> get32 a (put16 off v16 d) = get32 a d"
  "off + 4 \<le> length d \<Longrightarrow> a + 4 \<le> off \<or> off + 4 \<le> a \<Longrightarrow> get32 a (put32 off v32 d) = get32 a d"
  by (auto simp: get16_def put16_def get32_def put32_def)

section \<open>The header\<close>

record packet_header =
  hdr_data :: "byte list"
  bytes_written :: uint64
  recall_packet_number :: uint16
  last_packet_number :: uint16
  last_sequence_number :: uint16

definition new_header :: packet_header where
  "new_header = \<lparr>hdr_data = replicate 24 0, bytes_written = 0, recall_packet_number = 0,
     last_packet_number = 0, last_sequence_number = 0\<rparr>"

definition hdr_size :: nat where "hdr_size = 24"

definition MaxSize :: uint64 where "MaxSize = 65536"

definition front_field :: "packet_header \<Rightarrow> uint32" where "front_field h = get32 0 (hdr_data h)"
definition packet_number :: "packet_header \<Rightarrow> uint16" where "packet_number h = get16 4 (hdr_data h)"
definition sequence_number :: "packet_header \<Rightarrow> uint16" where "sequence_number h = get16 6 (hdr_data h)"
definition data_length :: "packet_header \<Rightarrow> uint32" where "data_length h = get32 12 (hdr_data h)"
definition total_bytes :: "packet_header \<Rightarrow> uint32" where "total_bytes h = get32 16 (hdr_data h)"
definition back_field :: "packet_header \<Rightarrow> uint32" where "back_field h = get32 20 (hdr_data h)"

lemmas hdr_fields = front_field_def packet_number_def sequence_number_def data_length_def
  total_bytes_def back_field_def

definition set_packet_number :: "uint16 \<Rightarrow> packet_header \<Rightarrow> packet_header" where
  "set_packet_number v h = h\<lparr>hdr_data := put16 4 v (hdr_data h)\<rparr>"
definition set_sequence_number :: "uint16 \<Rightarrow> packet_header \<Rightarrow> packet_header" where
  "set_sequence_number v h = h\<lparr>hdr_data := put16 6 v (hdr_data h)\<rparr>"
definition set_data_length :: "uint32 \<Rightarrow> packet_header \<Rightarrow> packet_header" where
  "set_data_length v h = h\<lparr>hdr_data := put32 12 v (hdr_data h)\<rparr>"
definition set_total_bytes :: "uint32 \<Rightarrow> packet_header \<Rightarrow> packet_header" where
  "set_total_bytes v h = h\<lparr>hdr_data := put32 16 v (hdr_data h)\<rparr>"

section \<open>Its operations\<close>

definition DataLength :: "packet_header \<Rightarrow> uint32" where "DataLength h = data_length h"

text \<open>\<open>BytesWritten\<close> returns the 64-bit counter as a \<open>uint32_t\<close>.\<close>

definition BytesWritten :: "packet_header \<Rightarrow> uint32" where "BytesWritten h = ucast (bytes_written h)"

definition OffsetPacket :: "uint64 \<Rightarrow> packet_header \<Rightarrow> packet_header" where
  "OffsetPacket n h =
     (let h1 = set_data_length (ucast (ucast (data_length h) - n)) h
      in h1\<lparr>bytes_written := bytes_written h1 + n\<rparr>)"

definition IsFinished :: "packet_header \<Rightarrow> packet_header \<times> bool" where
  "IsFinished h =
     (let h1 = h\<lparr>bytes_written := bytes_written h + ucast (data_length h)\<rparr>
      in (h1, bytes_written h1 \<ge> ucast (total_bytes h1)))"

definition SetupHeader :: "uint64 \<Rightarrow> packet_header \<Rightarrow> packet_header" where
  "SetupHeader frame_size h =
     (let h1 = h\<lparr>hdr_data := replicate 24 0\<rparr>;
          h2 = h1\<lparr>recall_packet_number := recall_packet_number h1 + 1\<rparr>;
          h3 = set_packet_number (recall_packet_number h2) h2;
          h4 = set_total_bytes (ucast frame_size) h3;
          h5 = h4\<lparr>bytes_written := 0\<rparr>
      in set_data_length (ucast (min frame_size MaxSize)) h5)"

definition SetupNextHeader :: "packet_header \<Rightarrow> packet_header" where
  "SetupNextHeader h =
     (let h1 = set_sequence_number (sequence_number h + 1) h
      in set_data_length (ucast (min (ucast (total_bytes h1) - bytes_written h1) MaxSize)) h1)"

definition Ok :: "packet_header \<Rightarrow> bool" where
  "Ok h = (\<not> (front_field h \<noteq> 0 \<or> back_field h \<noteq> 0))"

definition ResetHeader :: "packet_header \<Rightarrow> packet_header" where
  "ResetHeader h = h\<lparr>bytes_written := 0\<rparr>"

text \<open>\<open>rolling_less_than\<close>: the operands are promoted to \<open>int\<close> before the subtraction.\<close>

definition rolling_less_than :: "uint16 \<Rightarrow> uint16 \<Rightarrow> bool" where
  "rolling_less_than a b \<longleftrightarrow> a \<noteq> b \<and>
     (a < b \<and> uint b - uint a < 2 ^ 15 \<or> b < a \<and> uint a - uint b > 2 ^ 15)"

section \<open>Fields after an operation\<close>

definition hdr_wf :: "packet_header \<Rightarrow> bool" where
  "hdr_wf h \<longleftrightarrow> length (hdr_data h) = 24"

lemma hdr_wf_ops [simp]:
  "hdr_wf new_header"
  "hdr_wf h \<Longrightarrow> hdr_wf (set_packet_number v16 h)"
  "hdr_wf h \<Longrightarrow> hdr_wf (set_sequence_number v16 h)"
  "hdr_wf h \<Longrightarrow> hdr_wf (set_data_length v32 h)"
  "hdr_wf h \<Longrightarrow> hdr_wf (set_total_bytes v32 h)"
  "hdr_wf (h\<lparr>bytes_written := w\<rparr>) = hdr_wf h"
  "hdr_wf (h\<lparr>recall_packet_number := v16\<rparr>) = hdr_wf h"
  by (simp_all add: hdr_wf_def new_header_def set_packet_number_def set_sequence_number_def
      set_data_length_def set_total_bytes_def)

lemma field_set_simps [hdr_simps]:
  assumes "hdr_wf h"
  shows "packet_number (set_packet_number v16 h) = v16"
    "sequence_number (set_packet_number v16 h) = sequence_number h"
    "data_length (set_packet_number v16 h) = data_length h"
    "total_bytes (set_packet_number v16 h) = total_bytes h"
    "front_field (set_packet_number v16 h) = front_field h"
    "back_field (set_packet_number v16 h) = back_field h"
    "packet_number (set_sequence_number v16 h) = packet_number h"
    "sequence_number (set_sequence_number v16 h) = v16"
    "data_length (set_sequence_number v16 h) = data_length h"
    "total_bytes (set_sequence_number v16 h) = total_bytes h"
    "front_field (set_sequence_number v16 h) = front_field h"
    "back_field (set_sequence_number v16 h) = back_field h"
    "packet_number (set_data_length v32 h) = packet_number h"
    "sequence_number (set_data_length v32 h) = sequence_number h"
    "data_length (set_data_length v32 h) = v32"
    "total_bytes (set_data_length v32 h) = total_bytes h"
    "front_field (set_data_length v32 h) = front_field h"
    "back_field (set_data_length v32 h) = back_field h"
    "packet_number (set_total_bytes v32 h) = packet_number h"
    "sequence_number (set_total_bytes v32 h) = sequence_number h"
    "data_length (set_total_bytes v32 h) = data_length h"
    "total_bytes (set_total_bytes v32 h) = v32"
    "front_field (set_total_bytes v32 h) = front_field h"
    "back_field (set_total_bytes v32 h) = back_field h"
  using assms
  by (simp_all add: hdr_fields set_packet_number_def set_sequence_number_def set_data_length_def
      set_total_bytes_def hdr_wf_def get_put_other)

lemma counter_set_simps [hdr_simps]:
  "bytes_written (set_packet_number v16 h) = bytes_written h"
  "bytes_written (set_sequence_number v16 h) = bytes_written h"
  "bytes_written (set_data_length v32 h) = bytes_written h"
  "bytes_written (set_total_bytes v32 h) = bytes_written h"
  "recall_packet_number (set_packet_number v16 h) = recall_packet_number h"
  "recall_packet_number (set_sequence_number v16 h) = recall_packet_number h"
  "recall_packet_number (set_data_length v32 h) = recall_packet_number h"
  "recall_packet_number (set_total_bytes v32 h) = recall_packet_number h"
  by (simp_all add: set_packet_number_def set_sequence_number_def set_data_length_def
      set_total_bytes_def)

lemma field_counter_simps [hdr_simps]:
  "packet_number (h\<lparr>bytes_written := w\<rparr>) = packet_number h"
  "sequence_number (h\<lparr>bytes_written := w\<rparr>) = sequence_number h"
  "data_length (h\<lparr>bytes_written := w\<rparr>) = data_length h"
  "total_bytes (h\<lparr>bytes_written := w\<rparr>) = total_bytes h"
  "front_field (h\<lparr>bytes_written := w\<rparr>) = front_field h"
  "back_field (h\<lparr>bytes_written := w\<rparr>) = back_field h"
  by (simp_all add: hdr_fields)

section \<open>The bytes of a header\<close>

text \<open>The layout as one concatenation: front, packet number, sequence number, session number and
  timestamp, data length, total length, back.\<close>

definition mk_header :: "uint16 \<Rightarrow> uint16 \<Rightarrow> uint32 \<Rightarrow> uint32 \<Rightarrow> byte list" where
  "mk_header p q dl t = replicate 4 0 @ le_bytes 2 (unat p) @ le_bytes 2 (unat q) @
     replicate 4 0 @ le_bytes 4 (unat dl) @ le_bytes 4 (unat t) @ replicate 4 0"

lemma length_mk_header [simp]: "length (mk_header p q dl t) = 24"
  by (simp add: mk_header_def)

lemma mk_header_zero: "mk_header 0 0 0 0 = replicate 24 0"
  by (simp add: mk_header_def numeral_eq_Suc)

lemma put_mk_header:
  "put16 4 v (mk_header p q dl t) = mk_header v q dl t"
  "put16 6 v (mk_header p q dl t) = mk_header p v dl t"
  "put32 12 w (mk_header p q dl t) = mk_header p q w t"
  "put32 16 w (mk_header p q dl t) = mk_header p q dl w"
  by (simp_all add: mk_header_def put16_def put32_def store_at_def)

lemma get_mk_header:
  assumes "hdr_data h = mk_header p q dl t"
  shows "packet_number h = p" "sequence_number h = q" "data_length h = dl" "total_bytes h = t"
    "front_field h = 0" "back_field h = 0"
  using assms
  by (simp_all add: hdr_fields get16_def get32_def mk_header_def le_nat_bytes16 le_nat_bytes32)

lemma SetupHeader_data:
  "hdr_data (SetupHeader n h) =
     mk_header (recall_packet_number h + 1) 0 (ucast (min n MaxSize)) (ucast n) \<and>
   bytes_written (SetupHeader n h) = 0 \<and>
   recall_packet_number (SetupHeader n h) = recall_packet_number h + 1"
  by (simp add: SetupHeader_def Let_def set_packet_number_def set_total_bytes_def
      set_data_length_def mk_header_zero [symmetric] put_mk_header)

lemma SetupNextHeader_data:
  assumes "hdr_data h = mk_header p q dl t"
  shows "hdr_data (SetupNextHeader h) =
      mk_header p (q + 1) (ucast (min (ucast t - bytes_written h) MaxSize)) t \<and>
    bytes_written (SetupNextHeader h) = bytes_written h \<and>
    recall_packet_number (SetupNextHeader h) = recall_packet_number h"
  using assms get_mk_header [OF assms]
  by (simp add: SetupNextHeader_def Let_def set_sequence_number_def set_data_length_def
      put_mk_header get_mk_header)

lemma OffsetPacket_data:
  assumes "hdr_data h = mk_header p q dl t"
  shows "hdr_data (OffsetPacket n h) = mk_header p q (ucast (ucast dl - n)) t \<and>
    bytes_written (OffsetPacket n h) = bytes_written h + n \<and>
    recall_packet_number (OffsetPacket n h) = recall_packet_number h"
  using assms get_mk_header [OF assms]
  by (simp add: OffsetPacket_def Let_def set_data_length_def put_mk_header)

text \<open>C36 (roundtrip): the header of the first packet of a frame, read back from its 24 bytes by the
  other end, is accepted and carries the next packet number, sequence number 0, the length of the
  frame and the length of its first packet, for every frame shorter than \<open>2 ^ 32\<close> bytes.\<close>

theorem header_roundtrip:
  assumes "n < 2 ^ 32" "hdr_data r = hdr_data (SetupHeader (of_nat n) h)"
  shows "Ok r \<and> length (hdr_data r) = hdr_size \<and>
    packet_number r = recall_packet_number h + 1 \<and> sequence_number r = 0 \<and>
    unat (total_bytes r) = n \<and> unat (DataLength r) = min n 65536"
proof -
  have n: "unat (of_nat n :: uint64) = n" "unat (of_nat n :: uint32) = n"
    using assms(1) by (simp_all add: unat_of_nat)
  have "unat (ucast (of_nat n :: uint64) :: uint32) = n"
    using n assms(1) by (simp add: unsigned_ucast_eq take_bit_nat_eq_self)
  moreover have "unat (ucast (min (of_nat n :: uint64) MaxSize) :: uint32) = min n 65536"
  proof (cases "(of_nat n :: uint64) \<le> MaxSize")
    case True
    then have "n \<le> 65536" using n by (simp add: MaxSize_def word_le_nat_alt)
    then show ?thesis using True n assms(1) by (simp add: min_def unsigned_ucast_eq take_bit_nat_eq_self)
  next
    case False
    then have "\<not> n \<le> 65536" using n by (simp add: MaxSize_def word_le_nat_alt)
    then show ?thesis using False by (simp add: min_def MaxSize_def)
  qed
  moreover note get_mk_header [OF assms(2) [unfolded conjunct1 [OF SetupHeader_data]]]
  ultimately show ?thesis
    using assms(2) SetupHeader_data [of "of_nat n" h] by (simp add: Ok_def DataLength_def hdr_size_def)
qed

theorem header_roundtrip_witness:
  "unat (DataLength (SetupHeader (of_nat 100000) new_header)) = 65536"
  using header_roundtrip [of 100000 "SetupHeader (of_nat 100000) new_header" new_header] by simp

text \<open>The rolling comparison of 16-bit numbers says that \<open>b\<close> is between 1 and
  \<open>2 ^ 15 - 1\<close> steps ahead of \<open>a\<close> on the circle, so at most one of two numbers is less than the
  other, and exactly one unless they are equal or exactly opposite.\<close>

theorem rolling_less_than_circle:
  "(rolling_less_than a b \<longleftrightarrow> 0 < unat (b - a) \<and> unat (b - a) < 2 ^ 15) \<and>
   \<not> (rolling_less_than a b \<and> rolling_less_than b a) \<and>
   (rolling_less_than a b \<or> rolling_less_than b a \<longleftrightarrow> a \<noteq> b \<and> unat (b - a) \<noteq> 2 ^ 15)"
proof -
  have a: "unat a < 2 ^ 16" and b: "unat b < 2 ^ 16"
    using unsigned_less [of a] unsigned_less [of b] by simp_all
  have ba: "unat (b - a) = (if unat a \<le> unat b then unat b - unat a else 2 ^ 16 + unat b - unat a)"
    using a b by (auto simp: unat_sub_if_size word_le_nat_alt word_size)
  have nat_int: "(int x - int y < 2 ^ 15) = (x - y < 2 ^ 15)" "(int x - int y > 2 ^ 15) = (x - y > 2 ^ 15)"
    if "y < x" for x y :: nat using that by (simp_all, presburger+)
  have r: "rolling_less_than a b \<longleftrightarrow> unat a \<noteq> unat b \<and>
      (unat a < unat b \<and> unat b - unat a < 2 ^ 15 \<or> unat b < unat a \<and> unat a - unat b > 2 ^ 15)"
    for a b :: uint16
    unfolding rolling_less_than_def word_less_nat_alt uint_nat using nat_int by (metis unsigned_word_eqI)
  have ab: "a \<noteq> b \<longleftrightarrow> unat a \<noteq> unat b" by (metis unsigned_word_eqI)
  show ?thesis unfolding r ba ab using a b
    by (cases "unat a \<le> unat b") (simp_all, presburger+)
qed

end
