(* ===== verification/Packet_Stream.thy ===== *)
theory Packet_Stream
  imports Packet_Header
begin

text \<open>
  The frame stream between two ends of a TCP connection, as a contract. The wire format is
  \<open>encode_frames\<close>; a writer and a reader are the two reference machines every class that writes or
  reads frames must follow (locales \<open>frame_writer\<close> and \<open>frame_reader\<close>). A completion handler of
  the code is one step of them: the operation that was pending completes with a number of bytes
  chosen by the network, and the next one is started.
\<close>

section \<open>The wire format\<close>

function encode_packets :: "uint16 \<Rightarrow> uint16 \<Rightarrow> uint32 \<Rightarrow> byte list \<Rightarrow> byte list" where
  "encode_packets p q t bs =
     mk_header p q (of_nat (min (length bs) 65536)) t @ take 65536 bs @
     (if length bs \<le> 65536 then [] else encode_packets p (q + 1) t (drop 65536 bs))"
  by pat_completeness auto
termination by (relation "measure (\<lambda>(p, q, t, bs). length bs)") auto

declare encode_packets.simps [simp del]

definition encode_frame :: "uint16 \<Rightarrow> byte list \<Rightarrow> byte list" where
  "encode_frame p f = encode_packets p 0 (of_nat (length f)) f"

fun encode_frames :: "uint16 \<Rightarrow> byte list list \<Rightarrow> byte list" where
  "encode_frames p [] = []"
| "encode_frames p (f # fs) = encode_frame (p + 1) f @ encode_frames (p + 1) fs"

lemma encode_frames_append:
  "encode_frames p (fs @ gs) = encode_frames p fs @ encode_frames (p + of_nat (length fs)) gs"
  by (induction fs arbitrary: p) (auto simp: add_ac)

text \<open>A pending operation: none, the header from an offset, the body of the current packet.\<close>

datatype io_op = NoOp | HeaderOp nat | BodyOp

section \<open>The writing machine\<close>

record frame_out =
  out_hdr :: packet_header
  out_queue :: "byte list list"
  out_op :: io_op

definition out_idle :: frame_out where
  "out_idle = \<lparr>out_hdr = new_header, out_queue = [], out_op = NoOp\<rparr>"

text \<open>The bytes the pending operation offers to the network.\<close>

definition out_view :: "frame_out \<Rightarrow> byte list" where
  "out_view c = (case out_op c of
     NoOp \<Rightarrow> []
   | HeaderOp n \<Rightarrow> drop n (hdr_data (out_hdr c))
   | BodyOp \<Rightarrow> take (unat (DataLength (out_hdr c)))
                (drop (unat (BytesWritten (out_hdr c))) (hd (out_queue c))))"

definition out_post :: "byte list \<Rightarrow> frame_out \<Rightarrow> frame_out" where
  "out_post f c =
     (if out_queue c = [] then
        \<lparr>out_hdr = SetupHeader (of_nat (length f)) (out_hdr c), out_queue = [f], out_op = HeaderOp 0\<rparr>
      else c\<lparr>out_queue := out_queue c @ [f]\<rparr>)"

definition out_sent :: "nat \<Rightarrow> frame_out \<Rightarrow> frame_out" where
  "out_sent k c = (case out_op c of
     NoOp \<Rightarrow> c
   | HeaderOp n \<Rightarrow>
       if n + k = hdr_size then c\<lparr>out_op := BodyOp\<rparr> else c\<lparr>out_op := HeaderOp (n + k)\<rparr>
   | BodyOp \<Rightarrow>
       if k \<noteq> unat (DataLength (out_hdr c)) then c\<lparr>out_hdr := OffsetPacket (of_nat k) (out_hdr c)\<rparr>
       else case IsFinished (out_hdr c) of
         (h, True) \<Rightarrow>
           (case tl (out_queue c) of
              [] \<Rightarrow> \<lparr>out_hdr = h, out_queue = [], out_op = NoOp\<rparr>
            | f # fs \<Rightarrow> \<lparr>out_hdr = SetupHeader (of_nat (length f)) h, out_queue = f # fs,
                         out_op = HeaderOp 0\<rparr>)
       | (h, False) \<Rightarrow> c\<lparr>out_hdr := SetupNextHeader h, out_op := HeaderOp 0\<rparr>)"

text \<open>What is still to be sent in a state, and the states that occur.\<close>

definition out_rest :: "frame_out \<Rightarrow> byte list" where
  "out_rest c = (case out_queue c of
     [] \<Rightarrow> []
   | f # fs \<Rightarrow>
       (let h = out_hdr c; e = unat (bytes_written h) + unat (data_length h) in
        (if e < length f
         then encode_packets (recall_packet_number h) (sequence_number h + 1) (of_nat (length f)) (drop e f)
         else []) @ encode_frames (recall_packet_number h) fs))"

definition out_remaining :: "frame_out \<Rightarrow> byte list" where
  "out_remaining c = (case out_op c of
     NoOp \<Rightarrow> []
   | HeaderOp n \<Rightarrow> drop n (hdr_data (out_hdr c)) @ out_view (c\<lparr>out_op := BodyOp\<rparr>) @ out_rest c
   | BodyOp \<Rightarrow> out_view c @ out_rest c)"

definition frame_ok :: "byte list \<Rightarrow> bool" where
  "frame_ok f \<longleftrightarrow> length f < 2 ^ 32"

definition out_wf :: "frame_out \<Rightarrow> bool" where
  "out_wf c \<longleftrightarrow> (case out_queue c of
     [] \<Rightarrow> out_op c = NoOp
   | f # fs \<Rightarrow>
       (let h = out_hdr c in
        list_all frame_ok (f # fs) \<and>
        hdr_data h = mk_header (recall_packet_number h) (sequence_number h) (data_length h)
          (of_nat (length f)) \<and>
        unat (bytes_written h) + unat (data_length h) \<le> length f \<and>
        (unat (data_length h) = 0 \<longrightarrow> unat (bytes_written h) = length f) \<and>
        (case out_op c of NoOp \<Rightarrow> False | HeaderOp n \<Rightarrow> n < 24 | BodyOp \<Rightarrow> True)))"

lemma out_wf_idle: "out_wf out_idle"
  by (simp add: out_wf_def out_idle_def)

section \<open>Numbers\<close>

lemma unat_of_nat_small:
  "n < 2 ^ 32 \<Longrightarrow> unat (of_nat n :: uint64) = n"
  "n < 2 ^ 32 \<Longrightarrow> unat (of_nat n :: uint32) = n"
  by (simp_all add: unat_of_nat)

lemma ucast_of_nat_small: "n < 2 ^ 32 \<Longrightarrow> (ucast (of_nat n :: uint64) :: uint32) = of_nat n"
  by (simp add: unsigned_of_nat take_bit_nat_eq_self)

lemma unat_ucast_narrow: "unat (w :: uint64) < 2 ^ 32 \<Longrightarrow> unat (ucast w :: uint32) = unat w"
  by (simp add: unsigned_ucast_eq take_bit_nat_eq_self)

lemma unat_ucast_wide: "unat (ucast (w :: uint32) :: uint64) = unat w"
proof -
  have "unat w < 2 ^ 32" using unsigned_less [of w] by simp
  then have "unat w < 2 ^ 64" by simp
  then show ?thesis by (simp add: unsigned_ucast_eq take_bit_nat_eq_self)
qed

lemma ucast_min_MaxSize:
  "unat (w :: uint64) < 2 ^ 32 \<Longrightarrow>
   (ucast (min w MaxSize) :: uint32) = of_nat (min (unat w) 65536)"
  by (cases "w \<le> MaxSize")
     (auto simp: min_def MaxSize_def word_le_nat_alt unsigned_ucast_eq take_bit_nat_eq_self
       intro!: unsigned_word_eqI unat_of_nat_small(2) [symmetric] split: if_splits)

lemma unat_plus_small:
  "unat a + unat (b :: uint64) < 2 ^ 64 \<Longrightarrow> unat (a + b) = unat a + unat b"
  by (simp add: unat_plus_if_size word_size)

section \<open>One step of the writing machine\<close>

lemma encode_packets_view:
  "length bs \<le> n \<Longrightarrow> n < 2 ^ 32 \<Longrightarrow> t = of_nat n \<Longrightarrow> unat dl = min (length bs) 65536 \<Longrightarrow>
   encode_packets p q t bs = mk_header p q dl t @ take (unat dl) bs @
     (if unat dl < length bs then encode_packets p (q + 1) t (drop (unat dl) bs) else [])"
proof -
  assume a: "unat dl = min (length bs) 65536"
  then have "dl = of_nat (min (length bs) 65536)" by (simp flip: a)
  moreover have "take (unat dl) bs = take 65536 bs" using a by (auto simp: min_def)
  moreover have "drop (unat dl) bs = drop 65536 bs" using a by (auto simp: min_def)
  ultimately show ?thesis using a by (subst encode_packets.simps) (auto simp: min_def)
qed

lemma out_post_step:
  assumes "out_wf c" "frame_ok f"
  shows "out_wf (out_post f c) \<and>
    out_remaining (out_post f c) = out_remaining c @
      encode_frame (recall_packet_number (out_hdr c) +
        (if out_queue c = [] then 1 else of_nat (length (out_queue c)))) f"
proof (cases "out_queue c")
  case Nil
  define h where "h = SetupHeader (of_nat (length f)) (out_hdr c)"
  have n: "unat (of_nat (length f) :: uint64) = length f" "length f < 2 ^ 32"
    using assms(2) unat_of_nat_small(1) by (auto simp: frame_ok_def)
  have d: "hdr_data h = mk_header (recall_packet_number (out_hdr c) + 1) 0
      (of_nat (min (length f) 65536)) (of_nat (length f))"
    using SetupHeader_data [of "of_nat (length f)" "out_hdr c"] n
    by (simp add: h_def ucast_min_MaxSize ucast_of_nat_small)
  note g = get_mk_header [OF d]
  have b: "bytes_written h = 0" "recall_packet_number h = recall_packet_number (out_hdr c) + 1"
    using SetupHeader_data [of "of_nat (length f)" "out_hdr c"] by (simp_all add: h_def)
  have dl: "unat (data_length h) = min (length f) 65536"
    using g(3) n(2) by (simp add: unat_of_nat_small)
  show ?thesis
    using Nil assms(1) d g(2,3) b dl assms(2)
      encode_packets_view [of f "length f" "of_nat (length f)" "data_length h"
        "recall_packet_number h" 0] n(2)
    by (auto simp: out_post_def out_wf_def out_remaining_def out_view_def out_rest_def Let_def
        encode_frame_def DataLength_def BytesWritten_def h_def [symmetric])
next
  case (Cons g gs)
  with assms show ?thesis
    by (auto simp: out_post_def out_wf_def out_remaining_def out_view_def out_rest_def Let_def
        encode_frames_append add_ac split: io_op.splits)
qed

text \<open>The first packet of a frame, right after its header was set up.\<close>

lemma out_setup:
  assumes "list_all frame_ok (f # fs)" "h' = SetupHeader (of_nat (length f)) h"
  shows "out_wf \<lparr>out_hdr = h', out_queue = f # fs, out_op = HeaderOp 0\<rparr> \<and>
    out_remaining \<lparr>out_hdr = h', out_queue = f # fs, out_op = HeaderOp 0\<rparr> =
      encode_frames (recall_packet_number h) (f # fs)"
proof -
  have "out_wf (out_post f \<lparr>out_hdr = h, out_queue = [], out_op = NoOp\<rparr>) \<and>
    out_remaining (out_post f \<lparr>out_hdr = h, out_queue = [], out_op = NoOp\<rparr>) =
      encode_frame (recall_packet_number h + 1) f"
    using out_post_step [of "\<lparr>out_hdr = h, out_queue = [], out_op = NoOp\<rparr>" f] assms(1)
    by (simp add: out_wf_def out_remaining_def)
  moreover have "recall_packet_number h' = recall_packet_number h + 1"
    using SetupHeader_data assms(2) by simp
  ultimately show ?thesis using assms
    by (auto simp: out_post_def out_wf_def out_remaining_def out_view_def out_rest_def Let_def)
qed

lemma out_sent_header:
  assumes "out_wf c" "out_op c = HeaderOp n" "k \<le> length (out_view c)" "k \<noteq> 0"
  shows "out_wf (out_sent k c) \<and>
    out_remaining c = take k (out_view c) @ out_remaining (out_sent k c)"
proof -
  obtain f fs where q: "out_queue c = f # fs"
    using assms(1,2) by (auto simp: out_wf_def split: list.splits)
  have l: "length (hdr_data (out_hdr c)) = 24"
    using assms(1) q by (auto simp: out_wf_def Let_def)
  then have k: "n + k \<le> 24" "n < 24"
    using assms q by (auto simp: out_view_def out_wf_def Let_def)
  have "drop n (hdr_data (out_hdr c)) =
      take k (drop n (hdr_data (out_hdr c))) @ drop (n + k) (hdr_data (out_hdr c))"
    by (metis add.commute append_take_drop_id drop_drop)
  then show ?thesis using assms q k l
    by (auto simp: out_sent_def out_wf_def out_remaining_def out_view_def out_rest_def Let_def hdr_size_def)
qed

lemma OffsetPacket_numbers:
  assumes "hdr_data h = mk_header p q dl t" "k \<le> unat dl"
    "unat (bytes_written h) + unat dl \<le> n" "n < 2 ^ 32" "h' = OffsetPacket (of_nat k) h"
  shows "hdr_data h' = mk_header p q (data_length h') t" "unat (data_length h') = unat dl - k"
    "unat (bytes_written h') = unat (bytes_written h) + k"
    "unat (BytesWritten h') = unat (bytes_written h) + k"
    "sequence_number h' = q" "recall_packet_number h' = recall_packet_number h"
proof -
  note o = OffsetPacket_data [OF assms(1), of "of_nat k", folded assms(5)]
  note g = get_mk_header [OF conjunct1 [OF o]]
  have kk: "unat (of_nat k :: uint64) = k" using assms(2-4) by (simp add: unat_of_nat_small)
  have "unat (ucast dl - of_nat k :: uint64) = unat dl - k"
    using kk assms(2) by (simp add: unat_sub word_le_nat_alt unat_ucast_wide)
  then show "unat (data_length h') = unat dl - k"
    using g(3) assms(3,4) by (simp add: unat_ucast_narrow)
  show "hdr_data h' = mk_header p q (data_length h') t" "sequence_number h' = q"
    "recall_packet_number h' = recall_packet_number h"
    using o g by simp_all
  show bw: "unat (bytes_written h') = unat (bytes_written h) + k"
    using o kk assms(2-4) by (simp add: unat_plus_small)
  then show "unat (BytesWritten h') = unat (bytes_written h) + k"
    using assms(2-4) by (simp add: BytesWritten_def unat_ucast_narrow)
qed

lemma out_sent_part:
  assumes "out_wf c" "out_op c = BodyOp" "k \<le> length (out_view c)"
    "k \<noteq> unat (DataLength (out_hdr c))"
  shows "out_wf (out_sent k c) \<and>
    out_remaining c = take k (out_view c) @ out_remaining (out_sent k c)"
proof -
  obtain f fs where q: "out_queue c = f # fs"
    using assms(1,2) by (auto simp: out_wf_def split: list.splits)
  let ?h = "out_hdr c"
  define bw dl where "bw = unat (bytes_written ?h)" and "dl = unat (data_length ?h)"
  have wf: "list_all frame_ok (f # fs)" "bw + dl \<le> length f"
    "hdr_data ?h = mk_header (recall_packet_number ?h) (sequence_number ?h) (data_length ?h)
      (of_nat (length f))"
    using assms(1) q by (auto simp: out_wf_def Let_def bw_def dl_def)
  then have len: "length f < 2 ^ 32" by (simp add: frame_ok_def)
  then have small: "bw < 2 ^ 32" "dl < 2 ^ 32" using wf(2) by auto
  have BW: "unat (BytesWritten ?h) = bw"
    using small(1) by (simp add: BytesWritten_def bw_def unat_ucast_narrow)
  have k: "k < dl" "k \<le> dl"
    using assms(3,4) q assms(2) by (auto simp: out_view_def DataLength_def dl_def)
  let ?h' = "OffsetPacket (of_nat k) ?h"
  note o = OffsetPacket_numbers [OF wf(3) k(2) [unfolded dl_def] wf(2) [unfolded bw_def dl_def] len refl]
  have bw': "unat (bytes_written ?h') = bw + k" and BW': "unat (BytesWritten ?h') = bw + k"
    and dl': "unat (data_length ?h') = dl - k"
    using o by (simp_all add: bw_def dl_def)
  note g = o(5,6)
  have split: "take dl (drop bw f) = take k (drop bw f) @ take (dl - k) (drop (bw + k) f)"
    using k(2) by (metis add.commute drop_drop le_add_diff_inverse take_add)
  have lt: "\<not> length f - bw \<le> k" using k(1) wf(2) by linarith
  have sent: "out_sent k c = c\<lparr>out_hdr := ?h'\<rparr>"
    using assms(2,4) by (simp add: out_sent_def)
  have "out_wf (c\<lparr>out_hdr := ?h'\<rparr>)"
    using q wf k(1,2) o(1) g bw' dl' assms(2) by (simp add: out_wf_def Let_def)
  moreover have "out_remaining c = take k (out_view c) @ out_remaining (c\<lparr>out_hdr := ?h'\<rparr>)"
    using assms(2) q k bw' BW' BW dl' g split wf(2) lt
    by (simp add: out_remaining_def out_view_def out_rest_def Let_def DataLength_def dl_def [symmetric]
        bw_def [symmetric] min_def)
  ultimately show ?thesis by (simp add: sent)
qed

text \<open>The body of a packet is sent: the next packet of the frame, the next frame, or nothing.\<close>

lemma IsFinished_numbers:
  assumes "hdr_data h = mk_header p q dl (of_nat n)" "n < 2 ^ 32"
    "unat (bytes_written h) + unat dl \<le> n" "IsFinished h = (h', fin)"
  shows "hdr_data h' = hdr_data h \<and> recall_packet_number h' = recall_packet_number h \<and>
    unat (bytes_written h') = unat (bytes_written h) + unat dl \<and>
    (fin \<longleftrightarrow> unat (bytes_written h) + unat dl = n)"
proof -
  note g = get_mk_header [OF assms(1)]
  have u: "unat (bytes_written h + ucast dl) = unat (bytes_written h) + unat dl"
    using assms(2,3) by (subst unat_plus_small) (simp_all add: unat_ucast_wide)
  have "h' = h\<lparr>bytes_written := bytes_written h + ucast dl\<rparr>"
    "fin = (bytes_written h + ucast dl \<ge> ucast (of_nat n :: uint32))"
    using assms(4) g by (auto simp: IsFinished_def Let_def total_bytes_def)
  then show ?thesis
    using u assms(2,3) by (auto simp: word_le_nat_alt unat_ucast_wide unat_of_nat_small)
qed

lemma out_sent_whole:
  assumes "out_wf c" "out_op c = BodyOp" "k = unat (DataLength (out_hdr c))"
  shows "out_wf (out_sent k c) \<and>
    out_remaining c = out_view c @ out_remaining (out_sent k c)"
proof -
  obtain f fs where q: "out_queue c = f # fs"
    using assms(1,2) by (auto simp: out_wf_def split: list.splits)
  let ?h = "out_hdr c"
  define e where "e = unat (bytes_written ?h) + unat (data_length ?h)"
  have wf: "list_all frame_ok (f # fs)" "e \<le> length f"
    "hdr_data ?h = mk_header (recall_packet_number ?h) (sequence_number ?h) (data_length ?h)
      (of_nat (length f))" "length f < 2 ^ 32"
    using assms(1) q by (auto simp: out_wf_def Let_def e_def frame_ok_def)
  obtain h' fin where fin: "IsFinished ?h = (h', fin)" by fastforce
  note n = IsFinished_numbers [OF wf(3,4) _ fin]
  have n: "hdr_data h' = hdr_data ?h" "recall_packet_number h' = recall_packet_number ?h"
    "unat (bytes_written h') = e" "fin \<longleftrightarrow> e = length f"
    using IsFinished_numbers [OF wf(3,4) _ fin] wf(2) by (auto simp: e_def)
  have rem: "out_remaining c = out_view c @ (if e < length f
         then encode_packets (recall_packet_number ?h) (sequence_number ?h + 1) (of_nat (length f)) (drop e f)
         else []) @ encode_frames (recall_packet_number ?h) fs"
    using assms(2) q by (simp add: out_remaining_def out_rest_def Let_def e_def)
  show ?thesis
  proof (cases fin)
    case True
    show ?thesis
    proof (cases fs)
      case Nil
      then have "out_sent k c = \<lparr>out_hdr = h', out_queue = [], out_op = NoOp\<rparr>"
        using assms(2,3) fin True q by (simp add: out_sent_def)
      then show ?thesis using rem n(4) True Nil by (simp add: out_wf_def out_remaining_def)
    next
      case (Cons g gs)
      then have "out_sent k c =
          \<lparr>out_hdr = SetupHeader (of_nat (length g)) h', out_queue = g # gs, out_op = HeaderOp 0\<rparr>"
        using assms(2,3) fin True q by (simp add: out_sent_def)
      then show ?thesis
        using rem n(2,4) True Cons wf(1) out_setup [of g gs _ h'] by simp
    qed
  next
    case False
    then have lt: "e < length f" using n(4) wf(2) by simp
    let ?h2 = "SetupNextHeader h'"
    have d': "hdr_data h' = mk_header (recall_packet_number ?h) (sequence_number ?h) (data_length ?h)
      (of_nat (length f))" using n(1) wf(3) by simp
    note s = SetupNextHeader_data [OF d']
    have "unat (ucast (of_nat (length f) :: uint32) - bytes_written h' :: uint64) = length f - e"
      using n(3) wf(2,4) by (simp add: unat_sub word_le_nat_alt unat_ucast_wide unat_of_nat_small)
    moreover then have "ucast (min (ucast (of_nat (length f) :: uint32) - bytes_written h') MaxSize) =
        (of_nat (min (length f - e) 65536) :: uint32)"
      using wf(4) by (simp add: ucast_min_MaxSize)
    ultimately have d2: "hdr_data ?h2 = mk_header (recall_packet_number ?h) (sequence_number ?h + 1)
        (of_nat (min (length f - e) 65536)) (of_nat (length f))"
      using s by simp
    note g = get_mk_header [OF d2]
    have dl: "unat (data_length ?h2) = min (length f - e) 65536"
      using g(3) wf(4) by (simp add: unat_of_nat_small)
    have bw: "unat (bytes_written ?h2) = e" "recall_packet_number ?h2 = recall_packet_number ?h"
      using s n by simp_all
    have BW: "unat (BytesWritten ?h2) = e"
      using bw(1) wf(2,4) by (simp add: BytesWritten_def unat_ucast_narrow)
    have sent: "out_sent k c = c\<lparr>out_hdr := ?h2, out_op := HeaderOp 0\<rparr>"
      using assms(2,3) fin False by (simp add: out_sent_def)
    have "out_wf (c\<lparr>out_hdr := ?h2, out_op := HeaderOp 0\<rparr>)"
      using q wf(1,2) d2 g(2,3) bw dl lt by (auto simp: out_wf_def Let_def min_def)
    moreover have "out_remaining (c\<lparr>out_hdr := ?h2, out_op := HeaderOp 0\<rparr>) =
        encode_packets (recall_packet_number ?h) (sequence_number ?h + 1) (of_nat (length f)) (drop e f) @
        encode_frames (recall_packet_number ?h) fs"
      using q d2 bw BW dl lt wf(4) g(2,3) encode_packets_view [of "drop e f" "length f" "of_nat (length f)"
          "data_length ?h2" "recall_packet_number ?h" "sequence_number ?h + 1"]
      by (auto simp: out_remaining_def out_view_def out_rest_def Let_def DataLength_def add_ac)
    ultimately show ?thesis using sent rem lt by simp
  qed
qed

end
