(* ===== verification/Packet_Read.thy ===== *)
theory Packet_Read
  imports Packet_Stream
begin

text \<open>
  The reading machine of the frame stream, and what it makes of a well-formed stream however the
  network cuts it: it takes every cut without failing and without writing outside its buffer, and
  posts the frames of the stream in order.
\<close>

section \<open>The reading machine\<close>

text \<open>The buffer being filled is whether it is the pool's leaky one, and its memory.\<close>

record frame_in =
  in_hdr :: packet_header
  in_buf :: "(bool \<times> byte list) option"
  in_op :: io_op
  in_out :: "byte list list"

definition in_start :: frame_in where
  "in_start = \<lparr>in_hdr = new_header, in_buf = None, in_op = HeaderOp 0, in_out = []\<rparr>"

text \<open>How many bytes the pending read asks for.\<close>

definition in_want :: "frame_in \<Rightarrow> nat" where
  "in_want c = (case in_op c of
     NoOp \<Rightarrow> 0 | HeaderOp n \<Rightarrow> hdr_size - n | BodyOp \<Rightarrow> unat (DataLength (in_hdr c)))"

text \<open>The pending read completes with \<open>chunk\<close>; \<open>fresh\<close> is the buffer the pool hands out when one is
  needed. \<open>None\<close>: a header that is not \<open>Ok\<close>, or a write outside the buffer.\<close>

definition in_recv :: "bool \<times> byte list \<Rightarrow> byte list \<Rightarrow> frame_in \<Rightarrow> frame_in option" where
  "in_recv fresh chunk c = (case in_op c of
     NoOp \<Rightarrow> None
   | HeaderOp n \<Rightarrow>
       (let h = (in_hdr c)\<lparr>hdr_data := store_at (hdr_data (in_hdr c)) n chunk\<rparr> in
        if n + length chunk = hdr_size \<and> Ok h then
          Some (c\<lparr>in_hdr := h, in_op := BodyOp,
                  in_buf := (case in_buf c of None \<Rightarrow> Some fresh | Some b \<Rightarrow> Some b)\<rparr>)
        else if n + length chunk \<noteq> hdr_size then
          Some (c\<lparr>in_hdr := h, in_op := HeaderOp (n + length chunk)\<rparr>)
        else None)
   | BodyOp \<Rightarrow>
       (case in_buf c of
          None \<Rightarrow> None
        | Some (leaky, mem) \<Rightarrow>
            (let off = unat (BytesWritten (in_hdr c)); mem' = store_at mem off chunk in
             if off + length chunk > length mem then None
             else if length chunk \<noteq> unat (DataLength (in_hdr c)) then
               Some (c\<lparr>in_hdr := OffsetPacket (of_nat (length chunk)) (in_hdr c),
                       in_buf := Some (leaky, mem')\<rparr>)
             else case IsFinished (in_hdr c) of
               (h, True) \<Rightarrow>
                 Some (c\<lparr>in_hdr := ResetHeader h, in_buf := None, in_op := HeaderOp 0,
                   in_out := in_out c @
                     (if leaky then [] else [take (unat (BytesWritten h)) mem'])\<rparr>)
             | (h, False) \<Rightarrow>
                 Some (c\<lparr>in_hdr := h, in_buf := Some (leaky, mem'), in_op := HeaderOp 0\<rparr>))))"

section \<open>Where the machine is in a stream\<close>

definition fits :: "nat \<Rightarrow> byte list \<Rightarrow> bool" where
  "fits cap f \<longleftrightarrow> length f \<le> cap \<and> frame_ok f"

text \<open>\<open>in_at cap c stream rest\<close>: \<open>stream\<close> is what is still to come and \<open>rest\<close> the frames still to be
  completed from it, the first of them possibly begun. The reader does not look at packet numbers,
  so the frames may carry any (\<open>encoded\<close>).\<close>

fun encoded :: "byte list list \<Rightarrow> byte list \<Rightarrow> bool" where
  "encoded [] s \<longleftrightarrow> s = []"
| "encoded (f # fs) s \<longleftrightarrow> (\<exists>p s'. s = encode_frame p f @ s' \<and> encoded fs s')"

lemma encoded_frames: "encoded fs (encode_frames p fs)"
  by (induction p fs rule: encode_frames.induct) auto

lemma encoded_append: "encoded fs s \<Longrightarrow> encoded (fs @ [f]) (s @ encode_frame p f)"
  by (induction fs s rule: encoded.induct) fastforce+

definition at_header :: "nat \<Rightarrow> frame_in \<Rightarrow> nat \<Rightarrow> byte list \<Rightarrow> byte list list \<Rightarrow> bool" where
  "at_header cap c n stream rest \<longleftrightarrow> n < 24 \<and> length (hdr_data (in_hdr c)) = 24 \<and>
     (let bw = unat (bytes_written (in_hdr c)) in
      rest = [] \<and> stream = [] \<and> n = 0 \<and> in_buf c = None \<and> bw = 0 \<or>
      (\<exists>f fs p tail q. rest = f # fs \<and> encoded fs tail \<and>
         (case in_buf c of
            None \<Rightarrow> bw = 0
          | Some (leaky, mem) \<Rightarrow> bw < length f \<and> length mem = cap \<and> take bw mem = take bw f) \<and>
         (let s = encode_packets p q (of_nat (length f)) (drop bw f) in
          take n (hdr_data (in_hdr c)) = take n s \<and> stream = drop n s @ tail)))"

definition at_body :: "nat \<Rightarrow> frame_in \<Rightarrow> byte list \<Rightarrow> byte list list \<Rightarrow> bool" where
  "at_body cap c stream rest \<longleftrightarrow>
     (let h = in_hdr c; bw = unat (bytes_written h); dl = unat (data_length h) in
      \<exists>f fs p tail q leaky mem. rest = f # fs \<and> encoded fs tail \<and> in_buf c = Some (leaky, mem) \<and> length mem = cap \<and>
        take bw mem = take bw f \<and> bw + dl \<le> length f \<and> (dl = 0 \<longrightarrow> bw = length f) \<and>
        hdr_data h = mk_header p q (data_length h) (of_nat (length f)) \<and>
        stream = take dl (drop bw f) @
          (if bw + dl < length f
           then encode_packets p (q + 1) (of_nat (length f)) (drop (bw + dl) f) else []) @ tail)"

definition in_at :: "nat \<Rightarrow> frame_in \<Rightarrow> byte list \<Rightarrow> byte list list \<Rightarrow> bool" where
  "in_at cap c stream rest \<longleftrightarrow> list_all (fits cap) rest \<and>
     (case in_op c of
        NoOp \<Rightarrow> False
      | HeaderOp n \<Rightarrow> at_header cap c n stream rest
      | BodyOp \<Rightarrow> at_body cap c stream rest)"

lemma in_at_start:
  assumes "list_all (fits cap) fs"
  shows "in_at cap in_start (encode_frames p fs) fs"
proof (cases fs)
  case Nil
  then show ?thesis by (simp add: in_at_def in_start_def at_header_def new_header_def)
next
  case (Cons f gs)
  then have "encode_frames p fs = encode_packets (p + 1) 0 (of_nat (length f)) f @ encode_frames (p + 1) gs"
    by (simp add: encode_frame_def)
  with Cons assms show ?thesis
    by (auto simp: in_at_def in_start_def at_header_def new_header_def Let_def intro: encoded_frames)
qed

lemma encode_packets_head:
  "\<exists>dl rest. encode_packets p q t bs = mk_header p q dl t @ take (unat dl) bs @ rest \<and>
     unat dl = min (length bs) 65536 \<and>
     rest = (if unat dl < length bs then encode_packets p (q + 1) t (drop (unat dl) bs) else [])"
proof -
  have "unat (of_nat (min (length bs) 65536) :: uint32) = min (length bs) 65536"
    by (intro unat_of_nat_small) simp
  then show ?thesis
    by (intro exI [of _ "of_nat (min (length bs) 65536)"])
       (simp add: encode_packets.simps [of p q t bs] min_def)
qed

section \<open>One completed read\<close>

text \<open>Part of a header, the rest of which is in front.\<close>

lemma store_at_prefix:
  assumes "take n d = take n hb" "length d = length hb" "n + length chunk \<le> length hb"
    "chunk = take (length chunk) (drop n hb)"
  shows "take (n + length chunk) (store_at d n chunk) = take (n + length chunk) hb"
    "length (store_at d n chunk) = length hb"
proof -
  have "take n hb @ take (length chunk) (drop n hb) = take (n + length chunk) hb"
    by (simp add: take_add)
  moreover have "take (n + length chunk) (store_at d n chunk) = take n d @ chunk"
    using assms(2,3) by (intro take_store_at_at) simp
  ultimately show "take (n + length chunk) (store_at d n chunk) = take (n + length chunk) hb"
    using assms(1,4) by metis
  show "length (store_at d n chunk) = length hb" using assms by simp
qed

lemma recv_header:
  assumes "at_header cap c n (chunk @ stream) rest" "in_op c = HeaderOp n"
    "length chunk \<le> in_want c" "chunk \<noteq> []" "length (snd fresh) = cap" "list_all (fits cap) rest"
  shows "\<exists>c'. in_recv fresh chunk c = Some c' \<and> in_at cap c' stream rest \<and> in_out c' = in_out c \<and>
    (in_buf c' = in_buf c \<or> in_buf c = None \<and> in_buf c' = Some fresh)"
proof -
  let ?h = "in_hdr c"
  define bw where "bw = unat (bytes_written ?h)"
  have n: "n < 24" "length (hdr_data ?h) = 24" using assms(1) by (auto simp: at_header_def)
  have "\<exists>f fs p tl' q. rest = f # fs \<and> encoded fs tl' \<and>
         (case in_buf c of
            None \<Rightarrow> bw = 0
          | Some (leaky, mem) \<Rightarrow> bw < length f \<and> length mem = cap \<and> take bw mem = take bw f) \<and>
         (let s = encode_packets p q (of_nat (length f)) (drop bw f) in
          take n (hdr_data ?h) = take n s \<and> chunk @ stream = drop n s @ tl')"
    using assms(1,4) unfolding at_header_def Let_def bw_def [symmetric] by simp
  then obtain f fs p tl' q where
    r: "rest = f # fs" "encoded fs tl'"
    and buf: "case in_buf c of None \<Rightarrow> bw = 0
          | Some (leaky, mem) \<Rightarrow> bw < length f \<and> length mem = cap \<and> take bw mem = take bw f"
    and s: "take n (hdr_data ?h) = take n (encode_packets p q (of_nat (length f)) (drop bw f))"
      "chunk @ stream = drop n (encode_packets p q (of_nat (length f)) (drop bw f)) @ tl'"
    unfolding Let_def by blast
  obtain dl tail where e: "encode_packets p q (of_nat (length f)) (drop bw f) =
      mk_header p q dl (of_nat (length f)) @ take (unat dl) (drop bw f) @ tail"
    "unat dl = min (length (drop bw f)) 65536"
    "tail = (if unat dl < length (drop bw f)
       then encode_packets p (q + 1) (of_nat (length f)) (drop (unat dl) (drop bw f)) else [])"
    using encode_packets_head by blast
  define hb where "hb = mk_header p q dl (of_nat (length f))"
  have hb: "length hb = 24" by (simp add: hb_def)
  have k: "n + length chunk \<le> 24" using assms(2,3) n by (simp add: in_want_def hdr_size_def)
  have "chunk @ stream = drop n hb @ take (unat dl) (drop bw f) @ tail @ tl'"
    using s(2) e(1) n hb by (simp add: hb_def)
  then have ch: "chunk = take (length chunk) (drop n hb)"
    and st: "stream = drop (n + length chunk) hb @ take (unat dl) (drop bw f) @ tail @ tl'"
    using k hb n by (auto simp: append_eq_append_conv_if add.commute)
  have tk: "take n (hdr_data ?h) = take n hb" using s(1) e(1) n hb by (simp add: hb_def)
  have sp: "take (n + length chunk) (store_at (hdr_data ?h) n chunk) = take (n + length chunk) hb"
    "length (store_at (hdr_data ?h) n chunk) = 24"
    using store_at_prefix [OF tk _ _ ch] n hb k by simp_all
  let ?h' = "?h\<lparr>hdr_data := store_at (hdr_data ?h) n chunk\<rparr>"
  show ?thesis
  proof (cases "n + length chunk = 24")
    case True
    then have d: "hdr_data ?h' = hb" using sp hb by simp
    note g = get_mk_header [OF d [unfolded hb_def]]
    have rv: "in_recv fresh chunk c = Some (c\<lparr>in_hdr := ?h', in_op := BodyOp,
        in_buf := (case in_buf c of None \<Rightarrow> Some fresh | Some b \<Rightarrow> Some b)\<rparr>)"
      using assms(2) True g by (simp add: in_recv_def Let_def hdr_size_def Ok_def)
    have "unat dl = 0 \<longrightarrow> bw = length f" "bw + unat dl \<le> length f"
      using e(2) buf by (auto simp: min_def split: option.splits)
    moreover have "stream = take (unat dl) (drop bw f) @
        (if bw + unat dl < length f then encode_packets p (q + 1) (of_nat (length f)) (drop (bw + unat dl) f)
         else []) @ tl'"
      using st True hb e(3) by (auto simp: add.commute)
    moreover obtain leaky mem where b: "(case in_buf c of None \<Rightarrow> Some fresh | Some b \<Rightarrow> Some b) =
        Some (leaky, mem)" "length mem = cap" "take bw mem = take bw f"
      using buf assms(5) by (cases fresh) (auto split: option.splits)
    ultimately have "at_body cap (c\<lparr>in_hdr := ?h', in_op := BodyOp,
        in_buf := (case in_buf c of None \<Rightarrow> Some fresh | Some b \<Rightarrow> Some b)\<rparr>) stream rest"
      unfolding at_body_def Let_def
      by (intro exI [of _ f] exI [of _ fs] exI [of _ p] exI [of _ tl'] exI [of _ q] exI [of _ leaky]
          exI [of _ mem]) (simp add: r d g(3) bw_def [symmetric] hb_def)
    with rv assms(6) show ?thesis
      by (auto simp: in_at_def split: option.splits)
  next
    case False
    then have "in_recv fresh chunk c = Some (c\<lparr>in_hdr := ?h', in_op := HeaderOp (n + length chunk)\<rparr>)"
      using assms(2) by (simp add: in_recv_def Let_def hdr_size_def)
    moreover have "take (n + length chunk) (store_at (hdr_data ?h) n chunk) =
        take (n + length chunk) (encode_packets p q (of_nat (length f)) (drop bw f))"
      using sp(1) e(1) k hb by (simp add: hb_def)
    moreover have "stream = drop (n + length chunk) (encode_packets p q (of_nat (length f)) (drop bw f)) @
        tl'"
      using st e(1) k hb by (simp add: hb_def)
    ultimately show ?thesis
      using r sp(2) k False buf assms(6) bw_def
      by (auto simp: in_at_def at_header_def Let_def)
  qed
qed

lemma recv_body:
  assumes "at_body cap c (chunk @ stream) rest" "in_op c = BodyOp" "length chunk \<le> in_want c"
    "list_all (fits cap) rest"
  shows "\<exists>c'. in_recv fresh chunk c = Some c' \<and>
    (in_at cap c' stream rest \<and> in_out c' = in_out c \<and> map_option fst (in_buf c') = map_option fst (in_buf c) \<or>
     (\<exists>f fs leaky mem. rest = f # fs \<and> in_at cap c' stream fs \<and> in_buf c = Some (leaky, mem) \<and>
        in_buf c' = None \<and> in_out c' = in_out c @ (if leaky then [] else [f])))"
proof -
  let ?h = "in_hdr c" and ?k = "length chunk"
  define bw dl where "bw = unat (bytes_written ?h)" and "dl = unat (data_length ?h)"
  from assms(1) obtain f fs p tl' q leaky mem where
    r: "rest = f # fs" "encoded fs tl'" and buf: "in_buf c = Some (leaky, mem)" "length mem = cap"
      "take bw mem = take bw f"
    and e: "bw + dl \<le> length f" "dl = 0 \<longrightarrow> bw = length f"
    and d: "hdr_data ?h = mk_header p q (data_length ?h) (of_nat (length f))"
    and s: "chunk @ stream = take dl (drop bw f) @
          (if bw + dl < length f
           then encode_packets p (q + 1) (of_nat (length f)) (drop (bw + dl) f) else []) @
          tl'"
    unfolding at_body_def Let_def bw_def [symmetric] dl_def [symmetric] by blast
  have len: "length f < 2 ^ 32" "length f \<le> cap" using assms(4) r by (auto simp: fits_def frame_ok_def)
  have k: "?k \<le> dl" using assms(2,3) by (simp add: in_want_def DataLength_def dl_def)
  define more where "more = (if bw + dl < length f
      then encode_packets p (q + 1) (of_nat (length f)) (drop (bw + dl) f) else []) @ tl'"
  have tl: "length (take dl (drop bw f)) = dl" using e(1) by simp
  have ch: "chunk = take ?k (drop bw f)" and st: "stream = drop ?k (take dl (drop bw f)) @ more"
    using s k tl by (auto simp: append_eq_append_conv_if more_def [symmetric] min_def)
  have BW: "unat (BytesWritten ?h) = bw"
    using e(1) len(1) by (simp add: BytesWritten_def bw_def unat_ucast_narrow)
  let ?mem = "store_at mem bw chunk"
  have "take (bw + ?k) ?mem = take bw mem @ chunk"
    using e(1) len(2) buf(2) by (intro take_store_at_at) simp
  then have m: "take (bw + ?k) ?mem = take (bw + ?k) f" "length ?mem = cap"
    using buf(2,3) ch e(1) k len(2) by (simp_all add: take_add)
  show ?thesis
  proof (cases "?k = dl")
    case False
    let ?h' = "OffsetPacket (of_nat ?k) ?h"
    have rv: "in_recv fresh chunk c = Some (c\<lparr>in_hdr := ?h', in_buf := Some (leaky, ?mem)\<rparr>)"
      using assms(2) buf(1,2) BW False k e(1) len(2) by (simp add: in_recv_def Let_def DataLength_def dl_def [symmetric])
    note o = OffsetPacket_numbers [OF d k [unfolded dl_def] e(1) [unfolded bw_def dl_def] len(1) refl]
    have n: "unat (bytes_written ?h') = bw + ?k" "unat (data_length ?h') = dl - ?k"
      using o by (simp_all add: bw_def dl_def)
    have "stream = take (dl - ?k) (drop (bw + ?k) f) @ more"
      using st by (simp add: drop_take add.commute)
    moreover have "bw + ?k + (dl - ?k) = bw + dl" using k by simp
    ultimately have "at_body cap (c\<lparr>in_hdr := ?h', in_buf := Some (leaky, ?mem)\<rparr>) stream rest"
      unfolding at_body_def Let_def
      by (intro exI [of _ f] exI [of _ fs] exI [of _ p] exI [of _ tl'] exI [of _ q] exI [of _ leaky]
          exI [of _ ?mem]) (use r n m e o(1) k False in \<open>simp add: more_def\<close>)
    with rv buf(1) assms(2,4) show ?thesis by (simp add: in_at_def)
  next
    case True
    obtain h' fin where fin: "IsFinished ?h = (h', fin)" by fastforce
    have n: "hdr_data h' = hdr_data ?h" "unat (bytes_written h') = bw + dl" "fin \<longleftrightarrow> bw + dl = length f"
      using IsFinished_numbers [OF d len(1) _ fin] e(1) by (auto simp: bw_def dl_def)
    have st': "stream = more" using st True tl by simp
    have l24: "length (hdr_data h') = 24" using n(1) d by simp
    show ?thesis
    proof (cases fin)
      case True
      have "unat (BytesWritten h') = length f"
        using n(2,3) True len(1) by (simp add: BytesWritten_def unat_ucast_narrow)
      then have "in_recv fresh chunk c = Some (c\<lparr>in_hdr := ResetHeader h', in_buf := None,
          in_op := HeaderOp 0, in_out := in_out c @ (if leaky then [] else [f])\<rparr>)"
        using assms(2) buf(1,2) BW \<open>?k = dl\<close> e(1) len(2) fin True m(1) n(3)
        by (simp add: in_recv_def Let_def DataLength_def dl_def [symmetric])
      moreover have "in_at cap (c\<lparr>in_hdr := ResetHeader h', in_buf := None,
          in_op := HeaderOp 0, in_out := in_out c @ (if leaky then [] else [f])\<rparr>) stream fs"
        using st' n(3) True assms(4) r l24
        by (cases fs) (auto simp: in_at_def at_header_def Let_def ResetHeader_def more_def encode_frame_def)
      ultimately show ?thesis using r buf(1) by auto
    next
      case False
      have rv: "in_recv fresh chunk c =
          Some (c\<lparr>in_hdr := h', in_buf := Some (leaky, ?mem), in_op := HeaderOp 0\<rparr>)"
        using assms(2) buf(1,2) BW \<open>?k = dl\<close> e(1) len(2) fin False
        by (simp add: in_recv_def Let_def DataLength_def dl_def [symmetric])
      have "at_header cap (c\<lparr>in_hdr := h', in_buf := Some (leaky, ?mem), in_op := HeaderOp 0\<rparr>) 0
          stream rest"
        unfolding at_header_def Let_def
        using st' False n e(1) r l24 m \<open>?k = dl\<close>
        by (intro conjI disjI2 exI [of _ f] exI [of _ fs] exI [of _ p] exI [of _ tl'] exI [of _ "q + 1"])
           (simp_all add: more_def)
      with rv buf(1) assms(4) show ?thesis by (simp add: in_at_def)
    qed
  qed
qed

end
