(* ===== verification/Frame_Link.thy ===== *)
theory Frame_Link
  imports Packet_Read "HOL-Library.Sublist"
begin

text \<open>
  A writer and a reader joined by a connection that keeps order and loses nothing. The locales state
  what a class must do to be a writer or a reader of frames: follow the machines of \<open>Packet_Stream\<close>
  and \<open>Packet_Read\<close>. Inside \<open>frame_link\<close> the two together are proved to deliver: every interleaving
  of submitted frames, partial sends and partial receives hands on the submitted frames, in order.
\<close>

section \<open>The contracts\<close>

locale frame_writer =
  fixes w_view :: "'s \<Rightarrow> frame_out"
    and w_live :: "'s \<Rightarrow> bool"
    and w_ok :: "byte list \<Rightarrow> bool"
    and w_accepts :: "'s \<Rightarrow> bool"
    and w_post :: "byte list \<Rightarrow> 's \<Rightarrow> 's"
    and w_sent :: "nat \<Rightarrow> 's \<Rightarrow> 's"
  assumes ok_frame: "w_ok f \<Longrightarrow> frame_ok f"
    and post_view: "w_live s \<Longrightarrow> w_ok f \<Longrightarrow>
      w_view (w_post f s) = (if w_accepts s then out_post f (w_view s) else w_view s)"
    and post_live: "w_live s \<Longrightarrow> w_ok f \<Longrightarrow> w_live (w_post f s)"
    and sent_view: "w_live s \<Longrightarrow> out_wf (w_view s) \<Longrightarrow> out_op (w_view s) \<noteq> NoOp \<Longrightarrow>
      k \<le> length (out_view (w_view s)) \<Longrightarrow> w_view (w_sent k s) = out_sent k (w_view s)"
    and sent_live: "w_live s \<Longrightarrow> out_wf (w_view s) \<Longrightarrow> out_op (w_view s) \<noteq> NoOp \<Longrightarrow>
      k \<le> length (out_view (w_view s)) \<Longrightarrow> w_live (w_sent k s)"
begin

lemma post_remaining:
  assumes "w_live s" "w_ok f" "out_wf (w_view s)"
  shows "out_wf (w_view (w_post f s)) \<and>
    (\<exists>p. out_remaining (w_view (w_post f s)) =
       out_remaining (w_view s) @ (if w_accepts s then encode_frame p f else []))"
  using out_post_step [OF assms(3) ok_frame [OF assms(2)]] post_view [OF assms(1,2)] assms(3)
  by auto

lemma sent_remaining:
  assumes "w_live s" "out_wf (w_view s)" "out_op (w_view s) \<noteq> NoOp"
    "k \<le> length (out_view (w_view s))" "k = 0 \<longrightarrow> out_view (w_view s) = []"
  shows "out_wf (w_view (w_sent k s)) \<and>
    out_remaining (w_view s) = take k (out_view (w_view s)) @ out_remaining (w_view (w_sent k s))"
proof (cases "out_op (w_view s)")
  case (HeaderOp n)
  have "k \<noteq> 0"
  proof
    assume "k = 0"
    then have "out_view (w_view s) = []" using assms(5) by simp
    moreover have "length (hdr_data (out_hdr (w_view s))) = 24 \<and> n < 24"
      using assms(2) HeaderOp by (auto simp: out_wf_def Let_def split: list.splits)
    ultimately show False using HeaderOp by (simp add: out_view_def)
  qed
  with out_sent_header [OF assms(2) HeaderOp assms(4)] sent_view [OF assms(1-4)] show ?thesis by simp
next
  case BodyOp
  show ?thesis
  proof (cases "k = unat (DataLength (out_hdr (w_view s)))")
    case True
    have "take k (out_view (w_view s)) = out_view (w_view s)"
      using True BodyOp by (simp add: out_view_def)
    with out_sent_whole [OF assms(2) BodyOp True] sent_view [OF assms(1-4)] show ?thesis by simp
  next
    case False
    with out_sent_part [OF assms(2) BodyOp assms(4)] sent_view [OF assms(1-4)] show ?thesis by simp
  qed
qed (use assms in simp)

end

locale frame_reader =
  fixes r_view :: "'r \<Rightarrow> frame_in"
    and r_live :: "'r \<Rightarrow> bool"
    and r_cap :: nat
    and r_fresh :: "'r \<Rightarrow> bool \<times> byte list"
    and r_recv :: "byte list \<Rightarrow> 'r \<Rightarrow> 'r option"
    and r_release :: "'r \<Rightarrow> 'r"
  assumes fresh_cap: "r_live s \<Longrightarrow> length (snd (r_fresh s)) = r_cap"
    and recv_view: "r_live s \<Longrightarrow> in_recv (r_fresh s) chunk (r_view s) = Some c \<Longrightarrow>
      length chunk \<le> in_want (r_view s) \<Longrightarrow>
      \<exists>s'. r_recv chunk s = Some s' \<and> r_view s' = c \<and> r_live s'"
    and release_view: "r_live s \<Longrightarrow> r_view (r_release s) = r_view s"
    and release_live: "r_live s \<Longrightarrow> r_live (r_release s)"
begin

text \<open>One completed read: the frames still expected, and whether the buffer was the leaky one.\<close>

lemma recv_step:
  assumes "r_live s" "in_at r_cap (r_view s) (chunk @ stream) rest"
    "length chunk \<le> in_want (r_view s)" "chunk = [] \<longrightarrow> in_want (r_view s) = 0"
  shows "\<exists>s'. r_recv chunk s = Some s' \<and> r_live s' \<and>
    (in_at r_cap (r_view s') stream rest \<and> in_out (r_view s') = in_out (r_view s) \<and>
       (map_option fst (in_buf (r_view s')) = map_option fst (in_buf (r_view s)) \<or>
        in_buf (r_view s) = None \<and> in_buf (r_view s') = Some (r_fresh s)) \<or>
     (\<exists>f fs leaky mem. rest = f # fs \<and> in_at r_cap (r_view s') stream fs \<and>
        in_buf (r_view s) = Some (leaky, mem) \<and> in_buf (r_view s') = None \<and>
        in_out (r_view s') = in_out (r_view s) @ (if leaky then [] else [f])))"
proof (cases "in_op (r_view s)")
  case NoOp
  with assms(2) show ?thesis by (simp add: in_at_def)
next
  case (HeaderOp n)
  have h: "at_header r_cap (r_view s) n (chunk @ stream) rest" "list_all (fits r_cap) rest"
    using assms(2) HeaderOp by (auto simp: in_at_def)
  then have "chunk \<noteq> []" using assms(4) HeaderOp by (auto simp: at_header_def in_want_def hdr_size_def)
  from recv_header [OF h(1) HeaderOp assms(3) this fresh_cap [OF assms(1)] h(2)]
    recv_view [OF assms(1) _ assms(3)] show ?thesis by metis
next
  case BodyOp
  have h: "at_body r_cap (r_view s) (chunk @ stream) rest" "list_all (fits r_cap) rest"
    using assms(2) BodyOp by (auto simp: in_at_def)
  from recv_body [OF h(1) BodyOp assms(3) h(2), of "r_fresh s"] recv_view [OF assms(1) _ assms(3)]
  show ?thesis by metis
qed

end

lemma in_at_extend:
  assumes "in_at cap c s rest" "fits cap f"
  shows "in_at cap c (s @ encode_frame p f) (rest @ [f])"
proof (cases "in_op c")
  case NoOp
  with assms show ?thesis by (simp add: in_at_def)
next
  case (HeaderOp n)
  have "at_header cap c n (s @ encode_frame p f) (rest @ [f])"
  proof (cases rest)
    case Nil
    with assms(1) HeaderOp have "at_header cap c n (s @ encode_packets p 0 (of_nat (length f)) (drop 0 f) @ []) [f]"
      unfolding at_header_def Let_def in_at_def by fastforce
    with Nil show ?thesis by (simp add: encode_frame_def)
  next
    case (Cons g gs)
    let ?bw = "unat (bytes_written (in_hdr c))"
    from Cons assms(1) HeaderOp obtain p' tail q where
      e: "n < 24" "length (hdr_data (in_hdr c)) = 24" "encoded gs tail"
        "(case in_buf c of None \<Rightarrow> ?bw = 0
          | Some (leaky, mem) \<Rightarrow> ?bw < length g \<and> length mem = cap \<and> take ?bw mem = take ?bw g)"
        "take n (hdr_data (in_hdr c)) = take n (encode_packets p' q (of_nat (length g)) (drop ?bw g))"
        "s = drop n (encode_packets p' q (of_nat (length g)) (drop ?bw g)) @ tail"
      unfolding at_header_def Let_def in_at_def by auto
    show ?thesis unfolding at_header_def Let_def
      by (intro conjI disjI2 exI [of _ g] exI [of _ "gs @ [f]"] exI [of _ p']
          exI [of _ "tail @ encode_frame p f"] exI [of _ q])
         (use e Cons encoded_append in simp_all)
  qed
  with HeaderOp assms show ?thesis by (simp add: in_at_def)
next
  case BodyOp
  let ?h = "in_hdr c"
  let ?bw = "unat (bytes_written ?h)" and ?dl = "unat (data_length ?h)"
  from assms(1) BodyOp obtain g gs p' tail q leaky mem where
    e: "rest = g # gs" "encoded gs tail" "in_buf c = Some (leaky, mem)" "length mem = cap"
      "take ?bw mem = take ?bw g" "?bw + ?dl \<le> length g" "?dl = 0 \<longrightarrow> ?bw = length g"
      "hdr_data ?h = mk_header p' q (data_length ?h) (of_nat (length g))"
      "s = take ?dl (drop ?bw g) @ (if ?bw + ?dl < length g
           then encode_packets p' (q + 1) (of_nat (length g)) (drop (?bw + ?dl) g) else []) @ tail"
    unfolding at_body_def Let_def in_at_def by auto
  have "at_body cap c (s @ encode_frame p f) (rest @ [f])" unfolding at_body_def Let_def
    by (intro exI [of _ g] exI [of _ "gs @ [f]"] exI [of _ p'] exI [of _ "tail @ encode_frame p f"]
        exI [of _ q] exI [of _ leaky] exI [of _ mem])
       (use e encoded_append in simp)
  with BodyOp assms show ?thesis by (simp add: in_at_def)
qed

section \<open>The connection\<close>

record ('s, 'r) link =
  sender :: 's
  wire :: "byte list"
  receiver :: 'r
  accepted :: "byte list list"
  lost :: nat
  broken :: bool

datatype link_event = Submit "byte list" | Transmit nat | Deliver nat | Release

text \<open>One event. The network sends some of the bytes offered (at least one, when any is) and delivers
  some of the bytes asked for, in order; \<open>lost\<close> counts the frames the receiver had to read into its
  pool's leaky buffer; \<open>Release\<close> is a consumer giving a buffer back.\<close>

locale frame_link =
  frame_writer w_view w_live w_ok w_accepts w_post w_sent +
  frame_reader r_view r_live r_cap r_fresh r_recv r_release
  for w_view :: "'s \<Rightarrow> frame_out" and w_live w_ok w_accepts w_post w_sent
    and r_view :: "'r \<Rightarrow> frame_in" and r_live r_cap r_fresh r_recv r_release +
  assumes ok_fits: "w_ok f \<Longrightarrow> length f \<le> r_cap"

definition can_transmit :: "frame_out \<Rightarrow> nat \<Rightarrow> bool" where
  "can_transmit c k \<longleftrightarrow> out_op c \<noteq> NoOp \<and> k \<le> length (out_view c) \<and> (k = 0 \<longrightarrow> out_view c = [])"

definition can_deliver :: "frame_in \<Rightarrow> byte list \<Rightarrow> nat \<Rightarrow> bool" where
  "can_deliver c w k \<longleftrightarrow> k \<le> length w \<and> k \<le> in_want c \<and> (k = 0 \<longrightarrow> in_want c = 0)"

definition link_step ::
    "('s \<Rightarrow> frame_out) \<Rightarrow> ('s \<Rightarrow> bool) \<Rightarrow> (byte list \<Rightarrow> 's \<Rightarrow> 's) \<Rightarrow> (nat \<Rightarrow> 's \<Rightarrow> 's) \<Rightarrow>
     ('r \<Rightarrow> frame_in) \<Rightarrow> (byte list \<Rightarrow> 'r \<Rightarrow> 'r option) \<Rightarrow> ('r \<Rightarrow> 'r) \<Rightarrow>
     link_event \<Rightarrow> ('s, 'r) link \<Rightarrow> ('s, 'r) link" where
  "link_step wv acc post sent rv recv release e l = (case e of
     Submit f \<Rightarrow> l\<lparr>sender := post f (sender l),
                  accepted := accepted l @ (if acc (sender l) then [f] else [])\<rparr>
   | Transmit k \<Rightarrow>
       if can_transmit (wv (sender l)) k
       then l\<lparr>sender := sent k (sender l), wire := wire l @ take k (out_view (wv (sender l)))\<rparr>
       else l
   | Deliver k \<Rightarrow>
       if can_deliver (rv (receiver l)) (wire l) k
       then (case recv (take k (wire l)) (receiver l) of
           None \<Rightarrow> l\<lparr>broken := True\<rparr>
         | Some r \<Rightarrow> l\<lparr>receiver := r, wire := drop k (wire l),
             lost := lost l + (case in_buf (rv r) of
               Some (True, _) \<Rightarrow> (if in_buf (rv (receiver l)) = None then 1 else 0) | _ \<Rightarrow> 0)\<rparr>)
       else l
   | Release \<Rightarrow> l\<lparr>receiver := release (receiver l)\<rparr>)"

fun submits :: "link_event list \<Rightarrow> byte list list" where
  "submits [] = []"
| "submits (Submit f # es) = f # submits es"
| "submits (_ # es) = submits es"

definition link_done :: "('s \<Rightarrow> frame_out) \<Rightarrow> ('r \<Rightarrow> frame_in) \<Rightarrow> ('s, 'r) link \<Rightarrow> bool" where
  "link_done wv rv l \<longleftrightarrow>
     wire l = [] \<and> out_op (wv (sender l)) = NoOp \<and> in_want (rv (receiver l)) \<noteq> 0"

context frame_link
begin

definition linked :: "('s, 'r) link \<Rightarrow> bool" where
  "linked l \<longleftrightarrow> \<not> broken l \<and> w_live (sender l) \<and> r_live (receiver l) \<and> out_wf (w_view (sender l)) \<and>
     (\<exists>fin rest. accepted l = fin @ rest \<and>
        in_at r_cap (r_view (receiver l)) (wire l @ out_remaining (w_view (sender l))) rest \<and>
        subseq (in_out (r_view (receiver l))) fin \<and>
        (lost l = 0 \<longrightarrow> in_out (r_view (receiver l)) = fin \<and>
           map_option fst (in_buf (r_view (receiver l))) \<noteq> Some True))"

lemma linkedI:
  assumes "\<not> broken l" "w_live (sender l)" "r_live (receiver l)" "out_wf (w_view (sender l))"
    "accepted l = fin @ rest"
    "in_at r_cap (r_view (receiver l)) (wire l @ out_remaining (w_view (sender l))) rest"
    "subseq (in_out (r_view (receiver l))) fin"
    "lost l = 0 \<longrightarrow> in_out (r_view (receiver l)) = fin \<and>
       map_option fst (in_buf (r_view (receiver l))) \<noteq> Some True"
  shows "linked l"
  unfolding linked_def by (intro conjI exI [of _ fin] exI [of _ rest] assms)

definition step :: "link_event \<Rightarrow> ('s, 'r) link \<Rightarrow> ('s, 'r) link" where
  "step = link_step w_view w_accepts w_post w_sent r_view r_recv r_release"

lemma linked_step:
  assumes "linked l" "\<And>f. e = Submit f \<Longrightarrow> w_ok f"
  shows "linked (step e l)"
proof -
  from assms(1) obtain fin rest where
    l: "\<not> broken l" "w_live (sender l)" "r_live (receiver l)" "out_wf (w_view (sender l))"
      "accepted l = fin @ rest"
      "in_at r_cap (r_view (receiver l)) (wire l @ out_remaining (w_view (sender l))) rest"
      "subseq (in_out (r_view (receiver l))) fin"
      "lost l = 0 \<longrightarrow> in_out (r_view (receiver l)) = fin \<and>
         map_option fst (in_buf (r_view (receiver l))) \<noteq> Some True"
    by (auto simp: linked_def)
  show ?thesis
  proof (cases e)
    case (Submit f)
    then have ok: "w_ok f" using assms(2) by blast
    have fit: "fits r_cap f" using ok_fits [OF ok] ok_frame [OF ok] by (simp add: fits_def)
    from post_remaining [OF l(2) ok l(4)] obtain p where
      p: "out_wf (w_view (w_post f (sender l)))"
        "out_remaining (w_view (w_post f (sender l))) = out_remaining (w_view (sender l)) @
          (if w_accepts (sender l) then encode_frame p f else [])" by blast
    have "in_at r_cap (r_view (receiver l)) (wire l @ out_remaining (w_view (w_post f (sender l))))
        (rest @ (if w_accepts (sender l) then [f] else []))"
      using in_at_extend [OF l(6) fit, of p] p(2) l(6) by simp
    with Submit l p(1) post_live [OF l(2) ok] show ?thesis
      by (intro linkedI [of _ fin "rest @ (if w_accepts (sender l) then [f] else [])"])
         (simp_all add: step_def link_step_def)
  next
    case (Transmit k)
    show ?thesis
    proof (cases "can_transmit (w_view (sender l)) k")
      case True
      then have k: "out_op (w_view (sender l)) \<noteq> NoOp" "k \<le> length (out_view (w_view (sender l)))"
        "k = 0 \<longrightarrow> out_view (w_view (sender l)) = []" by (auto simp: can_transmit_def)
      from sent_remaining [OF l(2,4) k] sent_live [OF l(2,4) k(1,2)] Transmit True l
      show ?thesis
        by (intro linkedI [of _ fin rest]) (simp_all add: step_def link_step_def)
    next
      case False
      with Transmit assms(1) show ?thesis by (simp add: step_def link_step_def)
    qed
  next
    case (Deliver k)
    show ?thesis
    proof (cases "can_deliver (r_view (receiver l)) (wire l) k")
      case True
      let ?c = "take k (wire l)"
      have k: "length ?c \<le> in_want (r_view (receiver l))"
        "?c = [] \<longrightarrow> in_want (r_view (receiver l)) = 0"
        using True by (auto simp: can_deliver_def)
      have "in_at r_cap (r_view (receiver l))
          (?c @ drop k (wire l) @ out_remaining (w_view (sender l))) rest"
        using l(6) by (simp flip: append_assoc)
      from recv_step [OF l(3) this k] obtain s' where
        s': "r_recv ?c (receiver l) = Some s'" "r_live s'" and
        alt: "in_at r_cap (r_view s') (drop k (wire l) @ out_remaining (w_view (sender l))) rest \<and>
          in_out (r_view s') = in_out (r_view (receiver l)) \<and>
          (map_option fst (in_buf (r_view s')) = map_option fst (in_buf (r_view (receiver l))) \<or>
           in_buf (r_view (receiver l)) = None \<and> in_buf (r_view s') = Some (r_fresh (receiver l))) \<or>
         (\<exists>f fs leaky mem. rest = f # fs \<and>
          in_at r_cap (r_view s') (drop k (wire l) @ out_remaining (w_view (sender l))) fs \<and>
          in_buf (r_view (receiver l)) = Some (leaky, mem) \<and> in_buf (r_view s') = None \<and>
          in_out (r_view s') = in_out (r_view (receiver l)) @ (if leaky then [] else [f]))"
        by blast
      let ?l = "step e l"
      have st: "sender ?l = sender l" "wire ?l = drop k (wire l)" "receiver ?l = s'"
        "accepted ?l = accepted l" "broken ?l = broken l"
        "lost ?l = lost l + (case in_buf (r_view s') of
           Some (True, _) \<Rightarrow> (if in_buf (r_view (receiver l)) = None then 1 else 0) | _ \<Rightarrow> 0)"
        using Deliver True s'(1) by (simp_all add: step_def link_step_def)
      from alt show ?thesis
      proof
        assume a: "in_at r_cap (r_view s') (drop k (wire l) @ out_remaining (w_view (sender l))) rest \<and>
          in_out (r_view s') = in_out (r_view (receiver l)) \<and>
          (map_option fst (in_buf (r_view s')) = map_option fst (in_buf (r_view (receiver l))) \<or>
           in_buf (r_view (receiver l)) = None \<and> in_buf (r_view s') = Some (r_fresh (receiver l)))"
        then have "lost ?l = 0 \<longrightarrow> lost l = 0 \<and> map_option fst (in_buf (r_view s')) \<noteq> Some True"
          using l(8) st(6)
          by (cases "r_fresh (receiver l)"; cases "in_buf (r_view s')") (auto split: bool.splits)
        then show ?thesis using conjunct1 [OF a] conjunct1 [OF conjunct2 [OF a]] l st(1-5) s'(2)
          by (intro linkedI [of _ fin rest]) simp_all
      next
        assume "\<exists>f fs leaky mem. rest = f # fs \<and>
          in_at r_cap (r_view s') (drop k (wire l) @ out_remaining (w_view (sender l))) fs \<and>
          in_buf (r_view (receiver l)) = Some (leaky, mem) \<and> in_buf (r_view s') = None \<and>
          in_out (r_view s') = in_out (r_view (receiver l)) @ (if leaky then [] else [f])"
        then obtain f fs leaky mem where a: "rest = f # fs"
          "in_at r_cap (r_view s') (drop k (wire l) @ out_remaining (w_view (sender l))) fs"
          "in_buf (r_view (receiver l)) = Some (leaky, mem)" "in_buf (r_view s') = None"
          "in_out (r_view s') = in_out (r_view (receiver l)) @ (if leaky then [] else [f])" by blast
        have "subseq (in_out (r_view s')) (fin @ [f])"
          using l(7) a(5) by (auto intro: list_emb_append_mono subseq_rev_drop_many)
        moreover have "lost ?l = lost l" using st(6) a(4) by simp
        ultimately show ?thesis using a l st s'
          by (intro linkedI [of _ "fin @ [f]" fs]) auto
      qed
    next
      case False
      with Deliver assms(1) show ?thesis by (simp add: step_def link_step_def)
    qed
  next
    case Release
    with l release_view [OF l(3)] release_live [OF l(3)] show ?thesis
      by (intro linkedI [of _ fin rest]) (simp_all add: step_def link_step_def)
  qed
qed

definition run :: "link_event list \<Rightarrow> ('s, 'r) link \<Rightarrow> ('s, 'r) link" where
  "run es l = fold step es l"

lemma submits_in: "Submit f \<in> set es \<Longrightarrow> f \<in> set (submits es)"
  by (induction es rule: submits.induct) auto

lemma linked_run: "linked l \<Longrightarrow> list_all w_ok (submits es) \<Longrightarrow> linked (run es l)"
  unfolding run_def
  by (rule fold_invariant_run) (auto intro!: linked_step dest!: submits_in simp: list_all_iff)

lemma linked_prefix:
  assumes "linked l"
  shows "\<not> broken l" "subseq (in_out (r_view (receiver l))) (accepted l)"
    "lost l = 0 \<Longrightarrow> prefix (in_out (r_view (receiver l))) (accepted l)"
  using assms unfolding linked_def by (auto intro: list_emb_prefix)

lemma linked_link_done:
  assumes "linked l" "link_done w_view r_view l" "lost l = 0"
  shows "in_out (r_view (receiver l)) = accepted l"
proof -
  let ?c = "r_view (receiver l)"
  from assms(1) obtain fin rest where
    r: "accepted l = fin @ rest" "in_at r_cap ?c (wire l @ out_remaining (w_view (sender l))) rest"
      "in_out ?c = fin"
    using assms(3) by (auto simp: linked_def)
  have at: "in_at r_cap ?c [] rest" "in_want ?c \<noteq> 0"
    using r(2) assms(2) by (auto simp: link_done_def out_remaining_def)
  have "rest = []"
  proof (rule ccontr)
    assume ne: "rest \<noteq> []"
    show False
    proof (cases "in_op ?c")
      case (HeaderOp n)
      with at(1) ne obtain f p q where "n < 24"
        "drop n (encode_packets p q (of_nat (length f)) (drop (unat (bytes_written (in_hdr ?c))) f)) = []"
        by (auto simp: in_at_def at_header_def Let_def)
      then show False
        by (subst (asm) encode_packets.simps) (auto simp: drop_eq_Nil)
    next
      case BodyOp
      with at show False by (auto simp: in_at_def at_body_def Let_def in_want_def DataLength_def)
    qed (use at in \<open>simp add: in_at_def\<close>)
  qed
  with r show ?thesis by simp
qed

text \<open>Left alone, the network empties the connection: every step it can take decreases this measure.\<close>

definition load :: "('s, 'r) link \<Rightarrow> nat" where
  "load l = 3 * length (out_remaining (w_view (sender l))) + 2 * length (wire l) +
     length (out_queue (w_view (sender l))) + (if in_want (r_view (receiver l)) = 0 then 1 else 0)"

lemma transmit_load:
  assumes "linked l" "can_transmit (w_view (sender l)) k"
  shows "load (step (Transmit k) l) < load l"
proof -
  let ?c = "w_view (sender l)" and ?c' = "w_view (w_sent k (sender l))"
  have l: "w_live (sender l)" "out_wf ?c" using assms(1) by (auto simp: linked_def)
  have k: "out_op ?c \<noteq> NoOp" "k \<le> length (out_view ?c)" "k = 0 \<longrightarrow> out_view ?c = []"
    using assms(2) by (auto simp: can_transmit_def)
  have v: "?c' = out_sent k ?c" using sent_view [OF l k(1,2)] .
  have rem: "length (out_remaining ?c) = k + length (out_remaining ?c')"
    using sent_remaining [OF l k] k(2) by simp
  have q: "length (out_queue ?c') \<le> length (out_queue ?c)"
    by (auto simp: v out_sent_def split: io_op.splits prod.splits bool.splits list.splits)
       (metis length_tl diff_le_self list.size(4) One_nat_def add.commute plus_1_eq_Suc)+
  have z: "length (out_queue ?c') < length (out_queue ?c)" if "k = 0"
  proof (cases "out_queue ?c")
    case Nil
    with l(2) k(1) show ?thesis by (simp add: out_wf_def)
  next
    case (Cons f fs)
    let ?h = "out_hdr ?c"
    have wf: "hdr_data ?h = mk_header (recall_packet_number ?h) (sequence_number ?h) (data_length ?h)
          (of_nat (length f))" "length f < 2 ^ 32"
        "unat (bytes_written ?h) + unat (data_length ?h) \<le> length f"
        "unat (data_length ?h) = 0 \<longrightarrow> unat (bytes_written ?h) = length f"
      using l(2) Cons by (auto simp: out_wf_def Let_def frame_ok_def)
    have op: "out_op ?c = BodyOp"
    proof (cases "out_op ?c")
      case (HeaderOp n)
      then show ?thesis using k(3) that l(2) Cons by (simp add: out_view_def out_wf_def Let_def)
    qed (use k in auto)
    have "unat (BytesWritten ?h) = unat (bytes_written ?h)"
      using wf(2,3) by (simp add: BytesWritten_def unat_ucast_narrow)
    then have dl: "unat (data_length ?h) = 0"
      using k(3) that Cons op wf(3,4) by (auto simp: out_view_def DataLength_def)
    obtain h' fin where fin: "IsFinished ?h = (h', fin)" by fastforce
    then have "fin" using IsFinished_numbers [OF wf(1,2,3) fin] wf(4) dl by simp
    with fin op dl that Cons v show ?thesis
      by (auto simp: out_sent_def DataLength_def split: list.splits)
  qed
  have "step (Transmit k) l = l\<lparr>sender := w_sent k (sender l), wire := wire l @ take k (out_view ?c)\<rparr>"
    using assms(2) by (simp add: step_def link_step_def)
  then show ?thesis using rem q z k(2) by (cases "k = 0") (auto simp: load_def)
qed

lemma deliver_load:
  assumes "linked l" "can_deliver (r_view (receiver l)) (wire l) k"
  shows "load (step (Deliver k) l) < load l"
proof -
  let ?c = "r_view (receiver l)"
  have "\<not> broken (step (Deliver k) l)" "\<not> broken l"
    using linked_step [OF assms(1), of "Deliver k"] assms(1) by (auto simp: linked_def)
  then obtain s' where s': "r_recv (take k (wire l)) (receiver l) = Some s'"
    using assms(2) by (auto simp: step_def link_step_def split: option.splits)
  have st: "sender (step (Deliver k) l) = sender l" "wire (step (Deliver k) l) = drop k (wire l)"
    "receiver (step (Deliver k) l) = s'"
    using assms(2) s' by (simp_all add: step_def link_step_def)
  have k: "k \<le> length (wire l)" "k = 0 \<longrightarrow> in_want ?c = 0"
    using assms(2) by (auto simp: can_deliver_def)
  have "in_want (r_view s') \<noteq> 0" if "k = 0"
  proof -
    have w: "in_want ?c = 0" using k that by simp
    from assms(1) obtain rest where at: "r_live (receiver l)"
      "in_at r_cap ?c ([] @ wire l @ out_remaining (w_view (sender l))) rest" by (auto simp: linked_def)
    have b: "in_op ?c = BodyOp"
      using at(2) w by (cases "in_op ?c") (auto simp: in_at_def at_header_def in_want_def hdr_size_def)
    from at(2) b have "at_body r_cap ?c ([] @ wire l @ out_remaining (w_view (sender l))) rest"
      by (simp add: in_at_def)
    then obtain f fs p q leaky mem where h: "in_buf ?c = Some (leaky, mem)" "rest = f # fs"
      "length mem = r_cap"
      "hdr_data (in_hdr ?c) = mk_header p q (data_length (in_hdr ?c)) (of_nat (length f))"
      "unat (data_length (in_hdr ?c)) = 0 \<longrightarrow> unat (bytes_written (in_hdr ?c)) = length f"
      unfolding at_body_def Let_def by (elim exE conjE) (rule that, assumption+)
    have h4: "unat (bytes_written (in_hdr ?c)) = length f"
      using h(5) b w by (simp add: in_want_def DataLength_def)
    have "length f < 2 ^ 32" "length f \<le> r_cap"
      using at(2) h(2) by (auto simp: in_at_def fits_def frame_ok_def)
    obtain h' fin where fin: "IsFinished (in_hdr ?c) = (h', fin)" by fastforce
    have fin': "fin" using IsFinished_numbers [OF h(4) _ _ fin] w b h4 \<open>length f < 2 ^ 32\<close>
      by (auto simp: in_want_def DataLength_def)
    have "unat (BytesWritten (in_hdr ?c)) = length f"
      using h4 \<open>length f < 2 ^ 32\<close> by (simp add: BytesWritten_def unat_ucast_narrow)
    then have "\<exists>c'. in_recv (r_fresh (receiver l)) [] ?c = Some c' \<and> in_op c' = HeaderOp 0"
      using b h(1,3) w fin fin' \<open>length f \<le> r_cap\<close> by (simp add: in_recv_def in_want_def DataLength_def)
    then obtain c' where "in_recv (r_fresh (receiver l)) [] ?c = Some c'" "in_op c' = HeaderOp 0" by blast
    with recv_view [OF at(1) this(1)] s' that show ?thesis by (auto simp: in_want_def hdr_size_def)
  qed
  then show ?thesis using st k by (cases "k = 0") (auto simp: load_def)
qed

lemma network_drains:
  assumes "linked l"
  shows "\<exists>es. submits es = [] \<and> link_done w_view r_view (run es l)"
  using assms
proof (induction "load l" arbitrary: l rule: less_induct)
  case less
  show ?case
  proof (cases "link_done w_view r_view l")
    case True
    then show ?thesis by (intro exI [of _ "[]"]) (simp add: run_def)
  next
    case False
    have "\<exists>e. submits [e] = [] \<and> load (step e l) < load l"
    proof (cases "out_op (w_view (sender l)) = NoOp")
      case False
      then have "can_transmit (w_view (sender l)) (length (out_view (w_view (sender l))))"
        by (simp add: can_transmit_def)
      with transmit_load [OF less.prems this] show ?thesis
        by (intro exI [of _ "Transmit (length (out_view (w_view (sender l))))"]) simp
    next
      case True
      with False have "wire l \<noteq> [] \<or> in_want (r_view (receiver l)) = 0" by (simp add: link_done_def)
      then have "can_deliver (r_view (receiver l)) (wire l)
          (min (length (wire l)) (in_want (r_view (receiver l))))"
        by (auto simp: can_deliver_def min_def split: if_splits)
      with deliver_load [OF less.prems this] show ?thesis
        by (intro exI [of _ "Deliver (min (length (wire l)) (in_want (r_view (receiver l))))"]) simp
    qed
    then obtain e where e: "submits [e] = []" "load (step e l) < load l" by blast
    have "linked (step e l)" using e(1) by (intro linked_step less.prems) auto
    from less.hyps [OF e(2) this] obtain es where
      "submits es = []" "link_done w_view r_view (run es (step e l))" by blast
    then show ?thesis using e(1)
      by (intro exI [of _ "e # es"]) (cases e; simp add: run_def)
  qed
qed

end

end
