(* ===== verification/Buffer_Pool.thy ===== *)
theory Buffer_Pool
  imports Prelude
begin

text \<open>
  Buffer pools. Every pool of the program is a \<open>std::deque\<close> of buffers: a request pops the front,
  the deleter of the handed-out \<open>shared_ptr\<close> pushes the buffer back. The locale \<open>buffer_pool\<close>
  states that discipline and proves what follows from it once: no buffer is lost or duplicated, and
  a request fails only while every buffer is out. The two TCP pools of
  \<open>src/internal/infrastructure/tcp/tcp_utils.hpp\<close> are its first instances.
\<close>

section \<open>The discipline\<close>

locale buffer_pool =
  fixes stock :: "'p \<Rightarrow> 'b list"
    and get :: "'p \<Rightarrow> 'b option \<times> 'p"
    and put :: "'b \<Rightarrow> 'p \<Rightarrow> 'p"
  assumes get_empty: "stock p = [] \<Longrightarrow> get p = (None, p)"
    and get_front: "stock p = b # bs \<Longrightarrow> \<exists>q. get p = (Some b, q) \<and> stock q = bs"
    and put_back: "stock (put b p) = stock p @ [b]"
begin

text \<open>Requests and returns in any order: a return gives back the \<open>i\<close>-th of the buffers that are out.\<close>

fun pool_run :: "nat option list \<Rightarrow> 'p \<times> 'b list \<Rightarrow> 'p \<times> 'b list" where
  "pool_run [] (p, out) = (p, out)"
| "pool_run (None # es) (p, out) =
     (case get p of (None, q) \<Rightarrow> pool_run es (q, out) | (Some b, q) \<Rightarrow> pool_run es (q, out @ [b]))"
| "pool_run (Some i # es) (p, out) =
     (if i < length out
      then pool_run es (put (out ! i) p, take i out @ drop (Suc i) out)
      else pool_run es (p, out))"

lemma take_out_mset: "i < length out \<Longrightarrow> mset out = add_mset (out ! i) (mset (take i out @ drop (Suc i) out))"
  by (metis id_take_nth_drop mset.simps(2) mset_append union_mset_add_mset_right)

lemma pool_conserves:
  "pool_run es (p, out) = (p', out') \<Longrightarrow>
   mset (stock p') + mset out' = mset (stock p) + mset out"
proof (induction es "(p, out)" arbitrary: p out rule: pool_run.induct)
  case (2 es p out)
  then show ?case
  proof (cases "stock p")
    case Nil
    with 2 get_empty [OF Nil] show ?thesis by simp
  next
    case (Cons b bs)
    from get_front [OF Cons] obtain q where "get p = (Some b, q)" "stock q = bs" by blast
    with 2 Cons show ?thesis by fastforce
  qed
next
  case (3 i es p out)
  show ?case
  proof (cases "i < length out")
    case True
    with 3 have "mset (stock p') + mset out' =
        mset (stock (put (out ! i) p)) + mset (take i out @ drop (Suc i) out)" by simp
    also have "\<dots> = mset (stock p) + add_mset (out ! i) (mset (take i out @ drop (Suc i) out))"
      by (simp add: put_back)
    finally show ?thesis by (simp only: take_out_mset [OF True])
  qed (use 3 in simp)
qed simp

lemma pool_size:
  assumes "pool_run es (p, out) = (p', out')"
  shows "length (stock p') + length out' = length (stock p) + length out"
  using arg_cong [OF pool_conserves [OF assms], of size] by simp

text \<open>A pool that starts full refuses a request exactly when all its buffers are out.\<close>

lemma pool_refuses_iff:
  assumes "pool_run es (p, []) = (p', out')"
  shows "fst (get p') = None \<longleftrightarrow> mset out' = mset (stock p)"
proof (cases "stock p'")
  case Nil
  with get_empty [OF Nil] pool_conserves [OF assms] show ?thesis by simp
next
  case (Cons b bs)
  with get_front [OF Cons] pool_size [OF assms] show ?thesis
    by (auto dest: arg_cong [where f = size])
qed

end

section \<open>TCP buffers\<close>

record tcp_buffer =
  tb_max_size :: nat
  tb_is_leaky :: bool
  tb_memory :: "byte list"
  tb_size :: nat

text \<open>\<open>new unsigned char[_max_size]\<close>: the bytes are whatever the memory held (\<open>junk\<close>).\<close>

definition new_tcp_buffer :: "(nat \<Rightarrow> byte) \<Rightarrow> int \<Rightarrow> bool \<Rightarrow> tcp_buffer" where
  "new_tcp_buffer junk sz leaky =
     \<lparr>tb_max_size = nat sz, tb_is_leaky = leaky, tb_memory = map junk [0..<nat sz], tb_size = 0\<rparr>"

definition SetSize :: "nat \<Rightarrow> tcp_buffer \<Rightarrow> tcp_buffer" where
  "SetSize n b = b\<lparr>tb_size := n\<rparr>"

text \<open>What a consumer of the buffer sees: \<open>GetSize()\<close> bytes from \<open>GetMemory()\<close>.\<close>

definition buffer_bytes :: "tcp_buffer \<Rightarrow> byte list" where
  "buffer_bytes b = take (tb_size b) (tb_memory b)"

definition buffer_ok :: "nat \<Rightarrow> bool \<Rightarrow> tcp_buffer \<Rightarrow> bool" where
  "buffer_ok cap leaky b \<longleftrightarrow>
     tb_max_size b = cap \<and> length (tb_memory b) = cap \<and> tb_is_leaky b = leaky"

lemma new_buffer_ok: "buffer_ok (nat sz) leaky (new_tcp_buffer junk sz leaky)"
  by (simp add: buffer_ok_def new_tcp_buffer_def)

section \<open>The read pool\<close>

record read_pool =
  rp_buffers :: "tcp_buffer list"
  rp_leaky :: tcp_buffer

definition TcpReadBufferPool :: "(nat \<Rightarrow> byte) \<Rightarrow> int \<Rightarrow> int \<Rightarrow> read_pool" where
  "TcpReadBufferPool junk buffer_count buffer_size =
     \<lparr>rp_buffers = map (\<lambda>_. new_tcp_buffer junk buffer_size False) [0..<nat buffer_count],
      rp_leaky = new_tcp_buffer junk buffer_size True\<rparr>"

definition GetReadBuffer :: "read_pool \<Rightarrow> tcp_buffer \<times> read_pool" where
  "GetReadBuffer p = (case rp_buffers p of
     [] \<Rightarrow> (rp_leaky p, p)
   | b # bs \<Rightarrow> (b, p\<lparr>rp_buffers := bs\<rparr>))"

text \<open>The deleter of a handed-out buffer; the leaky buffer has none.\<close>

definition return_read_buffer :: "tcp_buffer \<Rightarrow> read_pool \<Rightarrow> read_pool" where
  "return_read_buffer b p = p\<lparr>rp_buffers := rp_buffers p @ [b]\<rparr>"

definition read_pool_ok :: "nat \<Rightarrow> read_pool \<Rightarrow> bool" where
  "read_pool_ok cap p \<longleftrightarrow> list_all (buffer_ok cap False) (rp_buffers p) \<and> buffer_ok cap True (rp_leaky p)"

text \<open>Seen as a pool that refuses: the leaky buffer is the refusal.\<close>

definition get_owned :: "read_pool \<Rightarrow> tcp_buffer option \<times> read_pool" where
  "get_owned p = (case rp_buffers p of [] \<Rightarrow> (None, p) | _ \<Rightarrow> (case GetReadBuffer p of (b, q) \<Rightarrow> (Some b, q)))"

interpretation reads: buffer_pool rp_buffers get_owned return_read_buffer
  by unfold_locales (auto simp: get_owned_def GetReadBuffer_def return_read_buffer_def)

lemma read_pool_ok_new: "read_pool_ok (nat sz) (TcpReadBufferPool junk n sz)"
  by (simp add: read_pool_ok_def TcpReadBufferPool_def new_buffer_ok list_all_iff)

lemma read_pool_ok_return: "read_pool_ok cap p \<Longrightarrow> buffer_ok cap False b \<Longrightarrow> read_pool_ok cap (return_read_buffer b p)"
  by (simp add: read_pool_ok_def return_read_buffer_def)

lemma GetReadBuffer_ok:
  assumes "read_pool_ok cap p" "GetReadBuffer p = (b, q)"
  shows "read_pool_ok cap q \<and> buffer_ok cap (tb_is_leaky b) b \<and>
    (tb_is_leaky b \<longleftrightarrow> rp_buffers p = [])"
  using assms by (auto simp: GetReadBuffer_def read_pool_ok_def buffer_ok_def split: list.splits)

text \<open>However buffers are taken from a read pool of \<open>n\<close> buffers and given back, none is
  lost or duplicated, and a request gets the leaky buffer exactly when all \<open>n\<close> are out.\<close>

theorem read_pool_conserves:
  assumes "reads.pool_run es (TcpReadBufferPool junk n sz, []) = (p, out)"
  shows "length (rp_buffers p) + length out = nat n \<and>
    (tb_is_leaky (fst (GetReadBuffer p)) \<longleftrightarrow> length out = nat n)"
proof -
  let ?p0 = "TcpReadBufferPool junk n sz"
  have n: "length (rp_buffers p) + length out = nat n"
    using reads.pool_size [OF assms] by (simp add: TcpReadBufferPool_def)
  have "rp_leaky q = rp_leaky p1" if "get_owned p1 = (b, q)" for p1 b q
    using that by (auto simp: get_owned_def GetReadBuffer_def split: list.splits)
  then have leaky: "rp_leaky p' = rp_leaky p1" if "reads.pool_run es (p1, o1) = (p', o2)" for es p1 o1 p' o2
    using that
    by (induction es "(p1, o1)" arbitrary: p1 o1 rule: reads.pool_run.induct)
       (auto simp: return_read_buffer_def split: if_splits option.splits prod.splits)
  have "set (rp_buffers p) \<subseteq> set (rp_buffers ?p0)"
    using arg_cong [OF reads.pool_conserves [OF assms], of set_mset] by auto
  then have "b \<in> set (rp_buffers p) \<Longrightarrow> \<not> tb_is_leaky b" for b
    by (auto simp: TcpReadBufferPool_def new_tcp_buffer_def)
  then have "tb_is_leaky (fst (GetReadBuffer p)) \<longleftrightarrow> rp_buffers p = []"
    using leaky [OF assms] by (auto simp: GetReadBuffer_def TcpReadBufferPool_def new_tcp_buffer_def split: list.splits)
  with n show ?thesis by auto
qed

theorem read_pool_conserves_witness:
  "tb_is_leaky (fst (GetReadBuffer (fst (reads.pool_run [None, None, None] (TcpReadBufferPool (\<lambda>_. 0) 2 4, [])))))"
proof -
  obtain p out where "reads.pool_run [None, None, None] (TcpReadBufferPool (\<lambda>_. 0) 2 4, []) = (p, out)"
    by fastforce
  moreover from this have "length out = 2"
    by (auto simp: get_owned_def GetReadBuffer_def TcpReadBufferPool_def numeral_2_eq_2)
  ultimately show ?thesis using read_pool_conserves [of "[None, None, None]" "\<lambda>_. 0" 2 4 p out] by simp
qed

section \<open>The write pool\<close>

record write_pool =
  wp_buffers :: "tcp_buffer list"

definition TcpWriteBufferPool :: "(nat \<Rightarrow> byte) \<Rightarrow> int \<Rightarrow> int \<Rightarrow> write_pool" where
  "TcpWriteBufferPool junk buffer_count buffer_size =
     \<lparr>wp_buffers = map (\<lambda>_. new_tcp_buffer junk buffer_size False) [0..<nat buffer_count]\<rparr>"

definition take_write_buffer :: "write_pool \<Rightarrow> tcp_buffer option \<times> write_pool" where
  "take_write_buffer p = (case wp_buffers p of
     [] \<Rightarrow> (None, p) | b # bs \<Rightarrow> (Some b, p\<lparr>wp_buffers := bs\<rparr>))"

definition return_write_buffer :: "tcp_buffer \<Rightarrow> write_pool \<Rightarrow> write_pool" where
  "return_write_buffer b p = p\<lparr>wp_buffers := wp_buffers p @ [b]\<rparr>"

interpretation writes: buffer_pool wp_buffers take_write_buffer return_write_buffer
  by unfold_locales (auto simp: take_write_buffer_def return_write_buffer_def)

text \<open>\<open>memcpy\<close> copies all of the source: \<open>None\<close> when it is larger than the buffer.\<close>

definition CopyToWriteBuffer :: "byte list \<Rightarrow> write_pool \<Rightarrow> (tcp_buffer option \<times> write_pool) option" where
  "CopyToWriteBuffer src p = (case take_write_buffer p of
     (None, q) \<Rightarrow> Some (None, q)
   | (Some b, q) \<Rightarrow>
       if length src > tb_max_size b then None
       else Some (Some (SetSize (length src) (b\<lparr>tb_memory := store_at (tb_memory b) 0 src\<rparr>)), q))"

definition write_pool_ok :: "nat \<Rightarrow> write_pool \<Rightarrow> bool" where
  "write_pool_ok cap p \<longleftrightarrow> list_all (buffer_ok cap False) (wp_buffers p)"

lemma write_pool_ok_new: "write_pool_ok (nat sz) (TcpWriteBufferPool junk n sz)"
  by (simp add: write_pool_ok_def TcpWriteBufferPool_def new_buffer_ok list_all_iff)

lemma write_pool_ok_return:
  "write_pool_ok cap p \<Longrightarrow> buffer_ok cap False b \<Longrightarrow> write_pool_ok cap (return_write_buffer b p)"
  by (simp add: write_pool_ok_def return_write_buffer_def)

lemma CopyToWriteBuffer_ok:
  assumes "write_pool_ok cap p" "length src \<le> cap"
  shows "case wp_buffers p of
      [] \<Rightarrow> CopyToWriteBuffer src p = Some (None, p)
    | x # xs \<Rightarrow> \<exists>b. CopyToWriteBuffer src p = Some (Some b, p\<lparr>wp_buffers := xs\<rparr>) \<and>
        buffer_bytes b = src \<and> buffer_ok cap False b \<and> tb_size b = length src"
  using assms
  by (auto simp: CopyToWriteBuffer_def take_write_buffer_def write_pool_ok_def buffer_ok_def
      SetSize_def buffer_bytes_def store_at_def split: list.splits)

end
