(* ===== verification/Tcp_Server.thy ===== *)
theory Tcp_Server
  imports Frame_Link Buffer_Pool Asio_Context
begin

text \<open>
  \<open>src/internal/infrastructure/tcp/tcp_server.cpp\<close>: the acceptor, the camera session (which reads
  frames and posts them to its manager) and the headset session (which writes the frames posted to
  it). A session is its fields, the asynchronous operation that is pending, whether the timeout timer
  is armed and whether the socket is open. A completion handler is a function of the result of the
  operation; it returns the calls it makes on the manager, and \<open>None\<close> when the code's behaviour is
  undefined (the front of an empty queue, a write past the end of a buffer).
\<close>

section \<open>Results of asynchronous operations, and calls on the manager\<close>

datatype io_error = NoError | Aborted | OtherError

datatype session_call =
  CreateConnection
| PostBuffer tcp_addr tcp_buffer
| DestroyConnection
| PostDoClose

section \<open>The camera session\<close>

record camera_session =
  cs_addr :: tcp_addr
  cs_live :: bool
  cs_id :: ulong
  cs_open :: bool
  cs_timer :: bool
  cs_op :: io_op
  cs_header :: packet_header
  cs_pool :: "read_pool option"
  cs_buffer :: "tcp_buffer option"

definition TcpCameraSession :: "(nat \<Rightarrow> byte) \<Rightarrow> tcp_addr \<Rightarrow> int \<Rightarrow> int \<Rightarrow> camera_session" where
  "TcpCameraSession junk addr buffer_count buffer_size =
     \<lparr>cs_addr = addr, cs_live = True, cs_id = 0, cs_open = True, cs_timer = False, cs_op = NoOp,
      cs_header = new_header, cs_pool = Some (TcpReadBufferPool junk buffer_count buffer_size),
      cs_buffer = None\<rparr>"

definition camera_startTimer :: "camera_session \<Rightarrow> camera_session" where
  "camera_startTimer s = s\<lparr>cs_timer := True\<rparr>"

definition camera_readHeader :: "nat \<Rightarrow> camera_session \<Rightarrow> camera_session" where
  "camera_readHeader last_bytes s = (camera_startTimer s)\<lparr>cs_op := HeaderOp last_bytes\<rparr>"

definition camera_readBody :: "camera_session \<Rightarrow> camera_session option" where
  "camera_readBody s =
     (case cs_buffer s of
        Some b \<Rightarrow> Some ((camera_startTimer s)\<lparr>cs_op := BodyOp\<rparr>)
      | None \<Rightarrow>
          (case cs_pool s of
             None \<Rightarrow> None
           | Some p \<Rightarrow> (case GetReadBuffer p of (b, q) \<Rightarrow>
               Some ((camera_startTimer (s\<lparr>cs_pool := Some q, cs_buffer := Some b\<rparr>))
                 \<lparr>cs_op := BodyOp\<rparr>))))"

text \<open>\<open>Run\<close>: the manager's number becomes the session id.\<close>

definition camera_Run :: "ulong \<Rightarrow> camera_session \<Rightarrow> camera_session \<times> session_call list" where
  "camera_Run session_id s = (camera_readHeader 0 (s\<lparr>cs_id := session_id\<rparr>), [CreateConnection])"

definition camera_doClose :: "camera_session \<Rightarrow> camera_session" where
  "camera_doClose s = (if cs_open s then s\<lparr>cs_open := False\<rparr> else s)\<lparr>cs_pool := None\<rparr>"

definition camera_TryClose :: "bool \<Rightarrow> camera_session \<Rightarrow> camera_session \<times> session_call list" where
  "camera_TryClose internal_close s =
     (if \<not> cs_live s then (s, [])
      else if internal_close then (camera_doClose (s\<lparr>cs_live := False\<rparr>), [DestroyConnection])
      else (s\<lparr>cs_live := False\<rparr>, [PostDoClose]))"

text \<open>The timer's handler: an expiry closes, a cancellation does nothing.\<close>

definition camera_timer_fired :: "io_error \<Rightarrow> camera_session \<Rightarrow> camera_session \<times> session_call list" where
  "camera_timer_fired ec s =
     (if ec = NoError then camera_TryClose True (s\<lparr>cs_timer := False\<rparr>) else (s, []))"

text \<open>The completion handlers: \<open>chunk\<close> are the bytes the read stored.\<close>

definition camera_header_done ::
    "nat \<Rightarrow> io_error \<Rightarrow> byte list \<Rightarrow> camera_session \<Rightarrow> (camera_session \<times> session_call list) option" where
  "camera_header_done last_bytes ec chunk s0 =
     (let s = s0\<lparr>cs_op := NoOp,
          cs_header := (cs_header s0)\<lparr>hdr_data := store_at (hdr_data (cs_header s0)) last_bytes chunk\<rparr>\<rparr>
      in if ec = Aborted then Some (s, [])
      else let s1 = s\<lparr>cs_timer := False\<rparr> in
      if \<not> cs_live s1 then Some (s1, [])
      else let total = last_bytes + length chunk in
      if ec = NoError \<and> total = hdr_size \<and> Ok (cs_header s1) then
        map_option (\<lambda>s'. (s', [])) (camera_readBody s1)
      else if ec = NoError \<and> total \<noteq> hdr_size then Some (camera_readHeader total s1, [])
      else Some (camera_TryClose True s1))"

text \<open>The read of a body stores \<open>chunk\<close> at \<open>BytesWritten()\<close> of the buffer's memory: nothing in the
  code bounds it by the buffer's size.\<close>

definition camera_body_done ::
    "io_error \<Rightarrow> byte list \<Rightarrow> camera_session \<Rightarrow> (camera_session \<times> session_call list) option" where
  "camera_body_done ec chunk s0 =
     (case cs_buffer s0 of None \<Rightarrow> None | Some b0 \<Rightarrow>
      let off = unat (BytesWritten (cs_header s0)) in
      if off + length chunk > length (tb_memory b0) then None else
      let b = b0\<lparr>tb_memory := store_at (tb_memory b0) off chunk\<rparr>;
          s = s0\<lparr>cs_op := NoOp, cs_buffer := Some b\<rparr> in
      if ec = Aborted then Some (s, [])
      else let s1 = s\<lparr>cs_timer := False\<rparr> in
      if \<not> cs_live s1 then Some (s1, [])
      else if ec \<noteq> NoError then Some (camera_TryClose True s1)
      else if length chunk \<noteq> unat (DataLength (cs_header s1)) then
        map_option (\<lambda>s'. (s', []))
          (camera_readBody (s1\<lparr>cs_header := OffsetPacket (of_nat (length chunk)) (cs_header s1)\<rparr>))
      else (case IsFinished (cs_header s1) of
          (h, True) \<Rightarrow>
            Some (camera_readHeader 0 (s1\<lparr>cs_buffer := None, cs_header := ResetHeader h\<rparr>),
              if tb_is_leaky b then []
              else [PostBuffer (cs_addr s1) (SetSize (unat (BytesWritten h)) b)])
        | (h, False) \<Rightarrow> Some (camera_readHeader 0 (s1\<lparr>cs_header := h\<rparr>), [])))"

section \<open>The headset session\<close>

record headset_session =
  hs_addr :: tcp_addr
  hs_live :: bool
  hs_id :: ulong
  hs_open :: bool
  hs_timer :: bool
  hs_op :: io_op
  hs_header :: packet_header
  hs_pool :: write_pool
  hs_queue :: "tcp_buffer list"

definition TcpHeadsetSession :: "(nat \<Rightarrow> byte) \<Rightarrow> tcp_addr \<Rightarrow> int \<Rightarrow> int \<Rightarrow> headset_session" where
  "TcpHeadsetSession junk addr buffer_count buffer_size =
     \<lparr>hs_addr = addr, hs_live = True, hs_id = 0, hs_open = True, hs_timer = False, hs_op = NoOp,
      hs_header = new_header, hs_pool = TcpWriteBufferPool junk buffer_count buffer_size,
      hs_queue = []\<rparr>"

definition headset_ConnectAndWait :: "ulong \<Rightarrow> headset_session \<Rightarrow> headset_session \<times> session_call list" where
  "headset_ConnectAndWait session_id s = (s\<lparr>hs_id := session_id\<rparr>, [CreateConnection])"

definition headset_startTimer :: "headset_session \<Rightarrow> headset_session" where
  "headset_startTimer s = s\<lparr>hs_timer := True\<rparr>"

definition headset_writeHeader :: "nat \<Rightarrow> headset_session \<Rightarrow> headset_session" where
  "headset_writeHeader last_bytes s = (headset_startTimer s)\<lparr>hs_op := HeaderOp last_bytes\<rparr>"

text \<open>\<open>writeBody\<close> takes the front of the queue: undefined on an empty one.\<close>

definition headset_writeBody :: "headset_session \<Rightarrow> headset_session option" where
  "headset_writeBody s =
     (if hs_queue s = [] then None else Some ((headset_startTimer s)\<lparr>hs_op := BodyOp\<rparr>))"

text \<open>The bytes the pending operation offers to the socket.\<close>

definition headset_offer :: "headset_session \<Rightarrow> byte list" where
  "headset_offer s = (case hs_op s of
     NoOp \<Rightarrow> []
   | HeaderOp n \<Rightarrow> drop n (hdr_data (hs_header s))
   | BodyOp \<Rightarrow> take (unat (DataLength (hs_header s)))
                (drop (unat (BytesWritten (hs_header s))) (tb_memory (hd (hs_queue s)))))"

text \<open>The closure \<open>Write\<close> posts to the socket's executor. Without a free buffer the frame is dropped.\<close>

definition headset_Write :: "byte list \<Rightarrow> headset_session \<Rightarrow> headset_session option" where
  "headset_Write copy_buffer s =
     (if \<not> hs_live s then Some s
      else case CopyToWriteBuffer copy_buffer (hs_pool s) of
        None \<Rightarrow> None
      | Some (None, p) \<Rightarrow> Some (s\<lparr>hs_pool := p\<rparr>)
      | Some (Some out_buffer, p) \<Rightarrow>
          let write_in_progress = hs_queue s \<noteq> [];
              s1 = s\<lparr>hs_pool := p, hs_queue := hs_queue s @ [out_buffer]\<rparr>
          in if write_in_progress then Some s1
             else Some (headset_writeHeader 0
               (s1\<lparr>hs_header := SetupHeader (of_nat (tb_size (hd (hs_queue s1)))) (hs_header s1)\<rparr>)))"

text \<open>\<open>pop\<close> destroys the \<open>shared_ptr\<close>, whose deleter returns the buffer to the pool.\<close>

definition headset_pop :: "headset_session \<Rightarrow> headset_session option" where
  "headset_pop s = (case hs_queue s of
     [] \<Rightarrow> None
   | b # bs \<Rightarrow> Some (s\<lparr>hs_queue := bs, hs_pool := return_write_buffer b (hs_pool s)\<rparr>))"

definition headset_doClose :: "headset_session \<Rightarrow> headset_session" where
  "headset_doClose s =
     s\<lparr>hs_queue := [], hs_pool := fold return_write_buffer (hs_queue s) (hs_pool s)\<rparr>"

definition headset_TryClose :: "bool \<Rightarrow> headset_session \<Rightarrow> headset_session \<times> session_call list" where
  "headset_TryClose internal_close s =
     (if \<not> hs_live s then (s, [])
      else if internal_close then (headset_doClose (s\<lparr>hs_live := False\<rparr>), [DestroyConnection])
      else (s\<lparr>hs_live := False\<rparr>, [PostDoClose]))"

definition headset_timer_fired :: "io_error \<Rightarrow> headset_session \<Rightarrow> headset_session \<times> session_call list" where
  "headset_timer_fired ec s =
     (if ec = NoError then headset_TryClose True (s\<lparr>hs_timer := False\<rparr>) else (s, []))"

definition headset_header_done ::
    "nat \<Rightarrow> io_error \<Rightarrow> nat \<Rightarrow> headset_session \<Rightarrow> (headset_session \<times> session_call list) option" where
  "headset_header_done last_bytes ec written s0 =
     (let s = s0\<lparr>hs_op := NoOp\<rparr> in
      if ec = Aborted then Some (s, [])
      else let s1 = s\<lparr>hs_timer := False\<rparr>; total = last_bytes + written in
      if ec = NoError \<and> total = hdr_size then map_option (\<lambda>s'. (s', [])) (headset_writeBody s1)
      else if ec = NoError \<and> total < hdr_size then Some (headset_writeHeader total s1, [])
      else Some (headset_TryClose True s1))"

definition headset_body_done ::
    "io_error \<Rightarrow> nat \<Rightarrow> headset_session \<Rightarrow> (headset_session \<times> session_call list) option" where
  "headset_body_done ec written s0 =
     (let s = s0\<lparr>hs_op := NoOp\<rparr> in
      if ec = Aborted then Some (s, [])
      else let s1 = s\<lparr>hs_timer := False\<rparr> in
      if ec \<noteq> NoError then Some (headset_TryClose True s1)
      else if written \<noteq> unat (DataLength (hs_header s1)) then
        map_option (\<lambda>s'. (s', []))
          (headset_writeBody (s1\<lparr>hs_header := OffsetPacket (of_nat written) (hs_header s1)\<rparr>))
      else (case IsFinished (hs_header s1) of
          (h, True) \<Rightarrow>
            (case headset_pop (s1\<lparr>hs_header := h\<rparr>) of
               None \<Rightarrow> None
             | Some s2 \<Rightarrow>
                 if hs_queue s2 = [] then Some (s2, [])
                 else Some (headset_writeHeader 0 (s2\<lparr>hs_header :=
                   SetupHeader (of_nat (tb_size (hd (hs_queue s2)))) (hs_header s2)\<rparr>), []))
        | (h, False) \<Rightarrow>
            Some (headset_writeHeader 0 (s1\<lparr>hs_header := SetupNextHeader h\<rparr>), [])))"

section \<open>The acceptor\<close>

record tcp_server =
  ts_stopped :: bool
  ts_accepting :: bool

datatype accept_call = RunCamera tcp_addr | ConnectHeadset tcp_addr | ShutdownSocket | HandlerThrew

definition TcpServer :: tcp_server where
  "TcpServer = \<lparr>ts_stopped = True, ts_accepting = False\<rparr>"

definition server_acceptConnections :: "tcp_server \<Rightarrow> tcp_server" where
  "server_acceptConnections t = (if ts_stopped t then t else t\<lparr>ts_accepting := True\<rparr>)"

definition server_Start :: "tcp_server \<Rightarrow> tcp_server" where
  "server_Start t =
     (if ts_stopped t then server_acceptConnections (t\<lparr>ts_stopped := False\<rparr>) else t)"

text \<open>\<open>Stop\<close> waits until the cancellation of the acceptor has run on its strand.\<close>

definition server_Stop :: "tcp_server \<Rightarrow> tcp_server" where
  "server_Stop t = (if \<not> ts_stopped t then t\<lparr>ts_stopped := True, ts_accepting := False\<rparr> else t)"

text \<open>The accept handler. \<open>remote\<close> is the peer, \<open>None\<close> when \<open>remote_endpoint()\<close> (or an option of the
  socket) throws because the peer is gone already: the exception leaves the handler before
  \<open>acceptConnections\<close> is called again, and the pool thread catches and prints it. \<open>shutdown_ec\<close> is
  what \<open>shutdown\<close> writes into \<open>ec\<close>.\<close>

definition server_accepted ::
    "(endpoint \<Rightarrow> connection_type) \<Rightarrow> io_error \<Rightarrow> endpoint option \<Rightarrow> io_error \<Rightarrow> tcp_server \<Rightarrow>
     tcp_server \<times> accept_call list" where
  "server_accepted GetConnectionType ec remote shutdown_ec t0 =
     (let t = t0\<lparr>ts_accepting := False\<rparr> in
      if ts_stopped t then (t, [])
      else
        (let again = (\<lambda>e calls. (if e \<noteq> Aborted then server_acceptConnections t else t, calls)) in
         if ec = NoError then
           (case remote of
              None \<Rightarrow> (t, [HandlerThrew])
            | Some peer \<Rightarrow>
                (case GetConnectionType peer of
                   CAMERA_CONNECTION \<Rightarrow> again ec [RunCamera (ep_addr peer)]
                 | UNKNOWN_CONNECTION \<Rightarrow> again shutdown_ec [ShutdownSocket]
                 | _ \<Rightarrow> again ec [ConnectHeadset (ep_addr peer)]))
         else again ec []))"

end
