(* ===== verification/Tcp_Client.thy ===== *)
theory Tcp_Client
  imports Tcp_Server
begin

text \<open>
  \<open>src/internal/infrastructure/tcp/tcp_client.cpp\<close>: the client end. A camera writes frames to the
  server, a headset or display reads them; on any error, and on a read timeout, the client drops the
  connection and connects again until it is stopped. The state is the object's fields with the
  pending operation; the sockets is \<open>None\<close> for a null pointer and otherwise whether it is open.
\<close>

datatype client_call =
  CreateCameraClient | DestroyCameraClient
| CreateHeadsetClient | PostHeadsetClient tcp_buffer | DestroyHeadsetClient

record tcp_client =
  tc_type :: connection_type
  tc_stopped :: bool
  tc_connected :: bool
  tc_socket :: "bool option"
  tc_connecting :: bool
  tc_port :: "uint16 option"
  tc_fixed :: bool
  tc_timer :: bool
  tc_op :: io_op
  tc_header :: packet_header
  tc_queue :: "byte list list"
  tc_pool :: "read_pool option"
  tc_buffer :: "tcp_buffer option"

text \<open>The constructor throws on an unknown connection type.\<close>

definition TcpClient ::
    "(nat \<Rightarrow> byte) \<Rightarrow> connection_type \<Rightarrow> bool \<Rightarrow> int \<Rightarrow> int \<Rightarrow> string + tcp_client" where
  "TcpClient junk ctype use_fixed_port buffer_count buffer_size =
     (if ctype = UNKNOWN_CONNECTION then Inl ''TcpClient::TcpClient INVALID CONNECTION TYPE''
      else Inr \<lparr>tc_type = ctype, tc_stopped = True, tc_connected = False, tc_socket = None,
        tc_connecting = False, tc_port = None, tc_fixed = use_fixed_port, tc_timer = False,
        tc_op = NoOp, tc_header = new_header, tc_queue = [],
        tc_pool = (if ctype \<noteq> CAMERA_CONNECTION
                   then Some (TcpReadBufferPool junk buffer_count buffer_size) else None),
        tc_buffer = None\<rparr>)"

definition fixed_port :: "connection_type \<Rightarrow> uint16" where
  "fixed_port ctype = (case ctype of
     CAMERA_CONNECTION \<Rightarrow> 11111
   | HEADSET_CONNECTION \<Rightarrow> 21222
   | DISPLAY_CONNECTION \<Rightarrow> 31333
   | UNKNOWN_CONNECTION \<Rightarrow> 0)"

definition client_startConnection :: "bool \<Rightarrow> tcp_client \<Rightarrow> tcp_client" where
  "client_startConnection is_initial_connection c =
     (if tc_stopped c then c
      else
        let c1 = (if tc_socket c = None then
                    (if tc_fixed c
                     then c\<lparr>tc_socket := Some True, tc_port := Some (fixed_port (tc_type c))\<rparr>
                     else c\<lparr>tc_socket := Some False, tc_port := None\<rparr>)
                  else c)
        in c1\<lparr>tc_header := ResetHeader (tc_header c1), tc_socket := Some True, tc_connecting := True\<rparr>)"

definition client_Start :: "tcp_client \<Rightarrow> tcp_client" where
  "client_Start c =
     (if tc_stopped c then client_startConnection True (c\<lparr>tc_stopped := False\<rparr>) else c)"

text \<open>Dropping the buffer being filled gives it back to the pool, unless it is the leaky one.\<close>

definition client_drop_buffer :: "tcp_client \<Rightarrow> tcp_client" where
  "client_drop_buffer c = (case (tc_buffer c, tc_pool c) of
     (Some b, Some p) \<Rightarrow>
       c\<lparr>tc_buffer := None, tc_pool := Some (if tb_is_leaky b then p else return_read_buffer b p)\<rparr>
   | _ \<Rightarrow> c\<lparr>tc_buffer := None\<rparr>)"

definition client_disconnect :: "tcp_client \<Rightarrow> tcp_client \<times> client_call list" where
  "client_disconnect c =
     (let c1 = c\<lparr>tc_connected := False\<rparr>;
          c2 = (if tc_socket c1 = Some True then c1\<lparr>tc_socket := None\<rparr> else c1)
      in if tc_type c2 = CAMERA_CONNECTION then (c2\<lparr>tc_queue := []\<rparr>, [DestroyCameraClient])
         else (client_drop_buffer c2, [DestroyHeadsetClient]))"

definition client_reconnect :: "tcp_client \<Rightarrow> tcp_client \<times> client_call list" where
  "client_reconnect c =
     (case client_disconnect c of (c1, calls) \<Rightarrow> (client_startConnection False c1, calls))"

definition client_Stop :: "tcp_client \<Rightarrow> tcp_client \<times> client_call list" where
  "client_Stop c = (if \<not> tc_stopped c then client_disconnect (c\<lparr>tc_stopped := True\<rparr>) else (c, []))"

text \<open>\<open>_is_stopped || !_is_connected\<close>, the guard of every step of the two paths.\<close>

definition client_idle :: "tcp_client \<Rightarrow> bool" where
  "client_idle c \<longleftrightarrow> tc_stopped c \<or> \<not> tc_connected c"

section \<open>Reading\<close>

definition client_startTimer :: "tcp_client \<Rightarrow> tcp_client" where
  "client_startTimer c = c\<lparr>tc_timer := True\<rparr>"

definition client_timer_fired :: "io_error \<Rightarrow> tcp_client \<Rightarrow> tcp_client \<times> client_call list" where
  "client_timer_fired ec c =
     (if ec = NoError then client_reconnect (c\<lparr>tc_timer := False\<rparr>) else (c, []))"

definition client_readHeader :: "nat \<Rightarrow> tcp_client \<Rightarrow> tcp_client" where
  "client_readHeader last_bytes c =
     (if client_idle c then c else (client_startTimer c)\<lparr>tc_op := HeaderOp last_bytes\<rparr>)"

definition client_readBody :: "tcp_client \<Rightarrow> tcp_client option" where
  "client_readBody c =
     (if client_idle c then Some c
      else case tc_buffer c of
        Some b \<Rightarrow> Some ((client_startTimer c)\<lparr>tc_op := BodyOp\<rparr>)
      | None \<Rightarrow>
          (case tc_pool c of
             None \<Rightarrow> None
           | Some p \<Rightarrow> (case GetReadBuffer p of (b, q) \<Rightarrow>
               Some ((client_startTimer (c\<lparr>tc_pool := Some q, tc_buffer := Some b\<rparr>))
                 \<lparr>tc_op := BodyOp\<rparr>))))"

definition client_startRead :: "tcp_client \<Rightarrow> tcp_client \<times> client_call list" where
  "client_startRead c =
     ((if client_idle c then c else client_readHeader 0 c), [CreateHeadsetClient])"

definition client_header_read ::
    "nat \<Rightarrow> io_error \<Rightarrow> byte list \<Rightarrow> tcp_client \<Rightarrow> (tcp_client \<times> client_call list) option" where
  "client_header_read last_bytes ec chunk c0 =
     (let c = c0\<lparr>tc_op := NoOp,
          tc_header := (tc_header c0)\<lparr>hdr_data := store_at (hdr_data (tc_header c0)) last_bytes chunk\<rparr>\<rparr>
      in if ec = Aborted then Some (c, [])
      else let c1 = c\<lparr>tc_timer := False\<rparr> in
      if client_idle c1 then Some (c1, [])
      else let total = last_bytes + length chunk in
      if ec = NoError \<and> total = hdr_size \<and> Ok (tc_header c1) then
        map_option (\<lambda>c'. (c', [])) (client_readBody c1)
      else if ec = NoError \<and> total < hdr_size then Some (client_readHeader total c1, [])
      else Some (client_reconnect c1))"

text \<open>The bytes read are stored in the buffer the operation was started with. \<open>disconnect\<close> may have
  dropped that buffer meanwhile; the code then relies on the guards to not look at it.\<close>

definition store_chunk :: "nat \<Rightarrow> byte list \<Rightarrow> tcp_buffer option \<Rightarrow> tcp_buffer option option" where
  "store_chunk off chunk buf = (case buf of
     None \<Rightarrow> Some None
   | Some b \<Rightarrow>
       if off + length chunk > length (tb_memory b) then None
       else Some (Some (b\<lparr>tb_memory := store_at (tb_memory b) off chunk\<rparr>)))"

definition client_body_read ::
    "io_error \<Rightarrow> byte list \<Rightarrow> tcp_client \<Rightarrow> (tcp_client \<times> client_call list) option" where
  "client_body_read ec chunk c0 =
     (case store_chunk (unat (BytesWritten (tc_header c0))) chunk (tc_buffer c0) of
        None \<Rightarrow> None
      | Some buf \<Rightarrow>
      let c = c0\<lparr>tc_op := NoOp, tc_buffer := buf\<rparr> in
      if ec = Aborted then Some (c, [])
      else let c1 = c\<lparr>tc_timer := False\<rparr> in
      if client_idle c1 then Some (c1, [])
      else if ec \<noteq> NoError then Some (client_reconnect c1)
      else if length chunk \<noteq> unat (DataLength (tc_header c1)) then
        map_option (\<lambda>c'. (c', []))
          (client_readBody (c1\<lparr>tc_header := OffsetPacket (of_nat (length chunk)) (tc_header c1)\<rparr>))
      else (case IsFinished (tc_header c1) of
          (h, True) \<Rightarrow>
            (case buf of
               None \<Rightarrow> None
             | Some b \<Rightarrow>
                 Some (client_readHeader 0 (c1\<lparr>tc_buffer := None, tc_header := ResetHeader h\<rparr>),
                   if tb_is_leaky b then []
                   else [PostHeadsetClient (SetSize (unat (BytesWritten h)) b)]))
        | (h, False) \<Rightarrow> Some (client_readHeader 0 (c1\<lparr>tc_header := h\<rparr>), [])))"

section \<open>Writing\<close>

definition client_startWrite :: "tcp_client \<Rightarrow> tcp_client \<times> client_call list" where
  "client_startWrite c = (c, [CreateCameraClient])"

definition client_writeHeader :: "nat \<Rightarrow> tcp_client \<Rightarrow> tcp_client" where
  "client_writeHeader last_bytes c = (if client_idle c then c else c\<lparr>tc_op := HeaderOp last_bytes\<rparr>)"

definition client_writeBody :: "tcp_client \<Rightarrow> tcp_client option" where
  "client_writeBody c =
     (if client_idle c then Some c
      else if tc_queue c = [] then None
      else Some (c\<lparr>tc_op := BodyOp\<rparr>))"

definition client_Post :: "byte list \<Rightarrow> tcp_client \<Rightarrow> tcp_client" where
  "client_Post buffer c =
     (if client_idle c then c
      else
        let write_in_progress = tc_queue c \<noteq> [];
            c1 = c\<lparr>tc_queue := tc_queue c @ [buffer]\<rparr>
        in if write_in_progress then c1
           else client_writeHeader 0
             (c1\<lparr>tc_header := SetupHeader (of_nat (length (hd (tc_queue c1)))) (tc_header c1)\<rparr>))"

definition client_header_written ::
    "nat \<Rightarrow> io_error \<Rightarrow> nat \<Rightarrow> tcp_client \<Rightarrow> (tcp_client \<times> client_call list) option" where
  "client_header_written last_bytes ec written c0 =
     (let c = c0\<lparr>tc_op := NoOp\<rparr> in
      if client_idle c then Some (c, [])
      else let total = last_bytes + written in
      if ec = NoError \<and> total = hdr_size then map_option (\<lambda>c'. (c', [])) (client_writeBody c)
      else if ec = NoError \<and> total < hdr_size then Some (client_writeHeader total c, [])
      else Some (client_reconnect c))"

definition client_body_written ::
    "io_error \<Rightarrow> nat \<Rightarrow> tcp_client \<Rightarrow> (tcp_client \<times> client_call list) option" where
  "client_body_written ec written c0 =
     (let c = c0\<lparr>tc_op := NoOp\<rparr> in
      if client_idle c then Some (c, [])
      else if ec \<noteq> NoError then Some (client_reconnect c)
      else if written \<noteq> unat (DataLength (tc_header c)) then
        map_option (\<lambda>c'. (c', []))
          (client_writeBody (c\<lparr>tc_header := OffsetPacket (of_nat written) (tc_header c)\<rparr>))
      else (case IsFinished (tc_header c) of
          (h, True) \<Rightarrow>
            (case tc_queue c of
               [] \<Rightarrow> None
             | _ # bs \<Rightarrow>
                 let c2 = c\<lparr>tc_header := h, tc_queue := bs\<rparr> in
                 if bs = [] then Some (c2, [])
                 else Some (client_writeHeader 0
                   (c2\<lparr>tc_header := SetupHeader (of_nat (length (hd bs))) (tc_header c2)\<rparr>), []))
        | (h, False) \<Rightarrow> Some (client_writeHeader 0 (c\<lparr>tc_header := SetupNextHeader h\<rparr>), [])))"

section \<open>Connecting\<close>

definition client_connect_done :: "io_error \<Rightarrow> tcp_client \<Rightarrow> tcp_client \<times> client_call list" where
  "client_connect_done ec c0 =
     (let c = c0\<lparr>tc_connecting := False\<rparr> in
      if ec = NoError \<and> \<not> tc_stopped c then
        let c1 = c\<lparr>tc_connected := True\<rparr> in
        if tc_type c1 = CAMERA_CONNECTION then client_startWrite c1 else client_startRead c1
      else if \<not> tc_stopped c then (client_startConnection False c, [])
      else (c, []))"

end
