(* ===== verification/Tcp_Links.thy ===== *)
theory Tcp_Links
  imports Tcp_Client
begin

text \<open>
  The two frame connections of the system, camera to server and server to headset or display, as
  instances of \<open>Frame_Link\<close>: the client and server classes satisfy the writer and reader contracts,
  so frames cross them whole and in order whatever the network does.
\<close>

section \<open>The camera session reads\<close>

text \<open>The reading end with what its manager got: the frames posted, and the buffers still held by
  their consumers.\<close>

type_synonym camera_end = "camera_session \<times> tcp_buffer list \<times> tcp_buffer list"

definition posted_buffers :: "session_call list \<Rightarrow> tcp_buffer list" where
  "posted_buffers calls = concat (map (\<lambda>c. case c of PostBuffer a b \<Rightarrow> [b] | _ \<Rightarrow> []) calls)"

definition buffer_view :: "tcp_buffer \<Rightarrow> bool \<times> byte list" where
  "buffer_view b = (tb_is_leaky b, tb_memory b)"

definition camera_view :: "camera_end \<Rightarrow> frame_in" where
  "camera_view e = (case e of (s, posted, out) \<Rightarrow>
     \<lparr>in_hdr = cs_header s, in_buf = map_option buffer_view (cs_buffer s), in_op = cs_op s,
      in_out = map buffer_bytes posted\<rparr>)"

definition pool_fresh :: "read_pool option \<Rightarrow> bool \<times> byte list" where
  "pool_fresh p = (case p of None \<Rightarrow> (True, []) | Some p \<Rightarrow> buffer_view (fst (GetReadBuffer p)))"

definition reading_ok :: "nat \<Rightarrow> read_pool option \<Rightarrow> tcp_buffer option \<Rightarrow> tcp_buffer list \<Rightarrow> bool" where
  "reading_ok cap p b out \<longleftrightarrow> (\<exists>q. p = Some q \<and> read_pool_ok cap q) \<and>
     (\<forall>x. b = Some x \<longrightarrow> buffer_ok cap (tb_is_leaky x) x) \<and> list_all (buffer_ok cap False) out"

definition camera_live :: "nat \<Rightarrow> camera_end \<Rightarrow> bool" where
  "camera_live cap e = (case e of (s, posted, out) \<Rightarrow>
     cs_live s \<and> reading_ok cap (cs_pool s) (cs_buffer s) out)"

definition camera_fresh :: "camera_end \<Rightarrow> bool \<times> byte list" where
  "camera_fresh e = pool_fresh (cs_pool (fst e))"

definition camera_recv :: "byte list \<Rightarrow> camera_end \<Rightarrow> camera_end option" where
  "camera_recv chunk e = (case e of (s, posted, out) \<Rightarrow>
     map_option (\<lambda>(s', calls). (s', posted @ posted_buffers calls, out @ posted_buffers calls))
       (case cs_op s of
          NoOp \<Rightarrow> None
        | HeaderOp n \<Rightarrow> camera_header_done n NoError chunk s
        | BodyOp \<Rightarrow> camera_body_done NoError chunk s))"

definition camera_release :: "camera_end \<Rightarrow> camera_end" where
  "camera_release e = (case e of
     (s, posted, b # out) \<Rightarrow> (s\<lparr>cs_pool := map_option (return_read_buffer b) (cs_pool s)\<rparr>, posted, out)
   | _ \<Rightarrow> e)"

lemma pool_fresh_length:
  "reading_ok cap p b out \<Longrightarrow> length (snd (pool_fresh p)) = cap"
  using GetReadBuffer_ok
  by (auto simp: reading_ok_def pool_fresh_def buffer_view_def buffer_ok_def split: option.splits)
     (metis prod.collapse)

lemma reading_ok_release:
  "reading_ok cap (Some p) b (x # out) \<Longrightarrow> reading_ok cap (Some (return_read_buffer x p)) b out"
  by (auto simp: reading_ok_def read_pool_ok_return)

text \<open>A buffer that is stored into keeps its capacity.\<close>

lemma buffer_ok_store:
  "buffer_ok cap l b \<Longrightarrow> off + length chunk \<le> cap \<Longrightarrow>
   buffer_ok cap l (b\<lparr>tb_memory := store_at (tb_memory b) off chunk\<rparr>)"
  by (simp add: buffer_ok_def)

lemma posted_buffers_simps [simp]:
  "posted_buffers [] = []" "posted_buffers [PostBuffer a b] = [b]"
  by (simp_all add: posted_buffers_def)

lemma camera_recv_header:
  assumes "camera_live cap (s, posted, out)" "cs_op s = HeaderOp n"
    "in_recv (camera_fresh (s, posted, out)) chunk (camera_view (s, posted, out)) = Some c"
  shows "\<exists>e. camera_recv chunk (s, posted, out) = Some e \<and> camera_view e = c \<and> camera_live cap e"
proof -
  obtain p where p: "cs_pool s = Some p" "read_pool_ok cap p"
    using assms(1) by (auto simp: camera_live_def reading_ok_def)
  obtain b q where bq: "GetReadBuffer p = (b, q)" by fastforce
  note ok = GetReadBuffer_ok [OF p(2) bq]
  show ?thesis
    using assms p bq ok
    by (auto simp: in_recv_def camera_view_def camera_recv_def camera_header_done_def Let_def
        camera_readBody_def camera_readHeader_def camera_startTimer_def camera_fresh_def pool_fresh_def
        buffer_view_def camera_live_def reading_ok_def split: if_splits option.splits)
qed

lemma camera_recv_body:
  assumes "camera_live cap (s, posted, out)" "cs_op s = BodyOp"
    "in_recv (camera_fresh (s, posted, out)) chunk (camera_view (s, posted, out)) = Some c"
  shows "\<exists>e. camera_recv chunk (s, posted, out) = Some e \<and> camera_view e = c \<and> camera_live cap e"
proof -
  obtain b where b: "cs_buffer s = Some b" using assms(2,3)
    by (auto simp: in_recv_def camera_view_def split: option.splits)
  have ok: "buffer_ok cap (tb_is_leaky b) b" "cs_live s"
    using assms(1) b by (auto simp: camera_live_def reading_ok_def)
  let ?off = "unat (BytesWritten (cs_header s))"
  have fit: "?off + length chunk \<le> length (tb_memory b)"
    using assms(2,3) b by (auto simp: in_recv_def camera_view_def buffer_view_def Let_def split: if_splits)
  let ?b = "b\<lparr>tb_memory := store_at (tb_memory b) ?off chunk\<rparr>"
  have ok': "buffer_ok cap (tb_is_leaky b) ?b"
    using buffer_ok_store [OF ok(1)] fit ok(1) by (simp add: buffer_ok_def)
  obtain h fin where fin: "IsFinished (cs_header s) = (h, fin)" by fastforce
  show ?thesis
    using assms b ok ok' fit fin
    by (cases fin) (auto simp: in_recv_def camera_view_def camera_recv_def camera_body_done_def Let_def
        camera_readBody_def camera_readHeader_def camera_startTimer_def SetSize_def buffer_ok_def
        buffer_view_def buffer_bytes_def camera_live_def reading_ok_def split: if_splits)
qed

interpretation cam_in: frame_reader camera_view "camera_live cap" cap camera_fresh camera_recv camera_release
  for cap
proof (unfold_locales, goal_cases)
  case (1 e)
  then show ?case by (auto simp: camera_live_def camera_fresh_def intro: pool_fresh_length split: prod.splits)
next
  case (2 e chunk c)
  obtain s posted out where e: "e = (s, posted, out)" by (metis prod_cases3)
  show ?case
  proof (cases "cs_op s")
    case NoOp
    with 2 e show ?thesis by (simp add: in_recv_def camera_view_def)
  qed (use 2 e camera_recv_header camera_recv_body in blast)+
next
  case (3 e)
  then show ?case
    by (auto simp: camera_release_def camera_view_def split: prod.splits list.splits)
next
  case (4 e)
  then show ?case
    by (auto simp: camera_release_def camera_live_def reading_ok_def read_pool_ok_return
        split: prod.splits list.splits)
qed

section \<open>The headset and display client reads\<close>

type_synonym client_end = "tcp_client \<times> tcp_buffer list \<times> tcp_buffer list"

definition client_posted :: "client_call list \<Rightarrow> tcp_buffer list" where
  "client_posted calls = concat (map (\<lambda>c. case c of PostHeadsetClient b \<Rightarrow> [b] | _ \<Rightarrow> []) calls)"

definition reader_view :: "client_end \<Rightarrow> frame_in" where
  "reader_view e = (case e of (c, posted, out) \<Rightarrow>
     \<lparr>in_hdr = tc_header c, in_buf = map_option buffer_view (tc_buffer c), in_op = tc_op c,
      in_out = map buffer_bytes posted\<rparr>)"

definition reader_live :: "nat \<Rightarrow> client_end \<Rightarrow> bool" where
  "reader_live cap e = (case e of (c, posted, out) \<Rightarrow>
     \<not> client_idle c \<and> (\<forall>n. tc_op c = HeaderOp n \<longrightarrow> n < hdr_size) \<and>
     reading_ok cap (tc_pool c) (tc_buffer c) out)"

definition reader_fresh :: "client_end \<Rightarrow> bool \<times> byte list" where
  "reader_fresh e = pool_fresh (tc_pool (fst e))"

definition reader_recv :: "byte list \<Rightarrow> client_end \<Rightarrow> client_end option" where
  "reader_recv chunk e = (case e of (c, posted, out) \<Rightarrow>
     map_option (\<lambda>(c', calls). (c', posted @ client_posted calls, out @ client_posted calls))
       (case tc_op c of
          NoOp \<Rightarrow> None
        | HeaderOp n \<Rightarrow> client_header_read n NoError chunk c
        | BodyOp \<Rightarrow> client_body_read NoError chunk c))"

definition reader_release :: "client_end \<Rightarrow> client_end" where
  "reader_release e = (case e of
     (c, posted, b # out) \<Rightarrow> (c\<lparr>tc_pool := map_option (return_read_buffer b) (tc_pool c)\<rparr>, posted, out)
   | _ \<Rightarrow> e)"

lemma client_posted_simps [simp]:
  "client_posted [] = []" "client_posted [PostHeadsetClient b] = [b]"
  by (simp_all add: client_posted_def)

lemma client_idle_updates [simp]:
  "client_idle (c\<lparr>tc_op := x\<rparr>) = client_idle c"
  "client_idle (c\<lparr>tc_header := h\<rparr>) = client_idle c"
  "client_idle (c\<lparr>tc_timer := t\<rparr>) = client_idle c"
  "client_idle (c\<lparr>tc_buffer := b\<rparr>) = client_idle c"
  "client_idle (c\<lparr>tc_pool := p\<rparr>) = client_idle c"
  "client_idle (c\<lparr>tc_queue := q\<rparr>) = client_idle c"
  by (simp_all add: client_idle_def)

lemma reader_recv_header:
  assumes "reader_live cap (s, posted, out)" "tc_op s = HeaderOp n"
    "in_recv (reader_fresh (s, posted, out)) chunk (reader_view (s, posted, out)) = Some c"
    "length chunk \<le> in_want (reader_view (s, posted, out))"
  shows "\<exists>e. reader_recv chunk (s, posted, out) = Some e \<and> reader_view e = c \<and> reader_live cap e"
proof -
  obtain p where p: "tc_pool s = Some p" "read_pool_ok cap p"
    using assms(1) by (auto simp: reader_live_def reading_ok_def)
  obtain b q where bq: "GetReadBuffer p = (b, q)" by fastforce
  note ok = GetReadBuffer_ok [OF p(2) bq]
  have lt: "n + length chunk < hdr_size" if "n + length chunk \<noteq> hdr_size"
    using assms(1,2,4) that by (auto simp: in_want_def reader_view_def reader_live_def)
  show ?thesis
    using assms p bq ok lt
    by (auto simp: in_recv_def reader_view_def reader_recv_def client_header_read_def Let_def
        client_readBody_def client_readHeader_def client_startTimer_def reader_fresh_def pool_fresh_def
        buffer_view_def reader_live_def reading_ok_def split: if_splits option.splits)
qed

lemma reader_recv_body:
  assumes "reader_live cap (s, posted, out)" "tc_op s = BodyOp"
    "in_recv (reader_fresh (s, posted, out)) chunk (reader_view (s, posted, out)) = Some c"
  shows "\<exists>e. reader_recv chunk (s, posted, out) = Some e \<and> reader_view e = c \<and> reader_live cap e"
proof -
  obtain b where b: "tc_buffer s = Some b" using assms(2,3)
    by (auto simp: in_recv_def reader_view_def split: option.splits)
  have ok: "buffer_ok cap (tb_is_leaky b) b" "\<not> client_idle s"
    using assms(1) b by (auto simp: reader_live_def reading_ok_def)
  let ?off = "unat (BytesWritten (tc_header s))"
  have fit: "?off + length chunk \<le> length (tb_memory b)"
    using assms(2,3) b by (auto simp: in_recv_def reader_view_def buffer_view_def Let_def split: if_splits)
  let ?b = "b\<lparr>tb_memory := store_at (tb_memory b) ?off chunk\<rparr>"
  have ok': "buffer_ok cap (tb_is_leaky b) ?b"
    using buffer_ok_store [OF ok(1)] fit ok(1) by (simp add: buffer_ok_def)
  obtain h fin where fin: "IsFinished (tc_header s) = (h, fin)" by fastforce
  show ?thesis
    using assms b ok ok' fit fin
    by (cases fin) (auto simp: in_recv_def reader_view_def reader_recv_def client_body_read_def Let_def
        store_chunk_def client_readBody_def client_readHeader_def client_startTimer_def SetSize_def
        buffer_ok_def buffer_view_def buffer_bytes_def reader_live_def reading_ok_def hdr_size_def
        split: if_splits)
qed

interpretation client_in: frame_reader reader_view "reader_live cap" cap reader_fresh reader_recv
    reader_release for cap
proof (unfold_locales, goal_cases)
  case (1 e)
  then show ?case by (auto simp: reader_live_def reader_fresh_def intro: pool_fresh_length split: prod.splits)
next
  case (2 e chunk c)
  obtain s posted out where e: "e = (s, posted, out)" by (metis prod_cases3)
  show ?case
  proof (cases "tc_op s")
    case NoOp
    with 2 e show ?thesis by (simp add: in_recv_def reader_view_def)
  next
    case (HeaderOp n)
    with 2 e reader_recv_header show ?thesis by blast
  next
    case BodyOp
    with 2 e reader_recv_body show ?thesis by blast
  qed
next
  case (3 e)
  then show ?case
    by (auto simp: reader_release_def reader_view_def split: prod.splits list.splits)
next
  case (4 e)
  then show ?case
    by (auto simp: reader_release_def reader_live_def reading_ok_def read_pool_ok_return
        split: prod.splits list.splits)
qed

section \<open>The camera client writes\<close>

definition client_out_view :: "tcp_client \<Rightarrow> frame_out" where
  "client_out_view c = \<lparr>out_hdr = tc_header c, out_queue = tc_queue c, out_op = tc_op c\<rparr>"

definition client_live :: "tcp_client \<Rightarrow> bool" where
  "client_live c \<longleftrightarrow> \<not> client_idle c \<and> (tc_queue c = [] \<longrightarrow> tc_op c = NoOp)"

definition frame_fits :: "nat \<Rightarrow> byte list \<Rightarrow> bool" where
  "frame_fits cap f \<longleftrightarrow> length f \<le> cap \<and> frame_ok f"

definition client_sent :: "nat \<Rightarrow> tcp_client \<Rightarrow> tcp_client" where
  "client_sent k c = (case (case tc_op c of
       NoOp \<Rightarrow> None
     | HeaderOp n \<Rightarrow> client_header_written n NoError k c
     | BodyOp \<Rightarrow> client_body_written NoError k c) of
     None \<Rightarrow> c | Some (c', calls) \<Rightarrow> c')"

lemma out_view_length:
  "out_wf c \<Longrightarrow> out_op c = HeaderOp n \<Longrightarrow> k \<le> length (out_view c) \<Longrightarrow> n + k \<le> hdr_size"
  by (auto simp: out_wf_def out_view_def hdr_size_def Let_def split: list.splits)

lemma client_sent_view:
  assumes "client_live c" "out_wf (client_out_view c)" "out_op (client_out_view c) \<noteq> NoOp"
    "k \<le> length (out_view (client_out_view c))"
  shows "client_out_view (client_sent k c) = out_sent k (client_out_view c) \<and> client_live (client_sent k c)"
proof (cases "tc_op c")
  case (HeaderOp n)
  then have "n + k \<le> hdr_size" using out_view_length [OF assms(2) _ assms(4)] by (simp add: client_out_view_def)
  with assms(1) HeaderOp show ?thesis
    by (auto simp: client_out_view_def client_sent_def client_header_written_def out_sent_def Let_def
        client_writeBody_def client_writeHeader_def client_live_def)
next
  case BodyOp
  obtain h fin where "IsFinished (tc_header c) = (h, fin)" by fastforce
  with assms(1) BodyOp show ?thesis
    by (cases fin; cases "tc_queue c"; cases "tl (tc_queue c)")
       (auto simp: client_out_view_def client_sent_def client_body_written_def out_sent_def Let_def
        client_writeBody_def client_writeHeader_def client_live_def)
qed (use assms in \<open>simp add: client_out_view_def\<close>)

interpretation client_out: frame_writer client_out_view client_live "frame_fits cap" "\<lambda>_. True"
    client_Post client_sent for cap
proof (unfold_locales, goal_cases)
  case (2 s f)
  then show ?case
    by (auto simp: client_live_def client_Post_def client_out_view_def out_post_def Let_def
        client_writeHeader_def)
next
  case (3 s f)
  then show ?case
    by (auto simp: client_live_def client_Post_def Let_def client_writeHeader_def)
qed (use client_sent_view in \<open>auto simp: frame_fits_def\<close>)

section \<open>The headset session writes\<close>

definition headset_view :: "headset_session \<Rightarrow> frame_out" where
  "headset_view s = \<lparr>out_hdr = hs_header s, out_queue = map buffer_bytes (hs_queue s), out_op = hs_op s\<rparr>"

definition queued_ok :: "nat \<Rightarrow> tcp_buffer \<Rightarrow> bool" where
  "queued_ok cap b \<longleftrightarrow> buffer_ok cap False b \<and> tb_size b \<le> cap"

definition headset_live :: "nat \<Rightarrow> headset_session \<Rightarrow> bool" where
  "headset_live cap s \<longleftrightarrow> hs_live s \<and> write_pool_ok cap (hs_pool s) \<and>
     list_all (queued_ok cap) (hs_queue s) \<and> (hs_queue s = [] \<longrightarrow> hs_op s = NoOp)"

definition headset_accepts :: "headset_session \<Rightarrow> bool" where
  "headset_accepts s \<longleftrightarrow> wp_buffers (hs_pool s) \<noteq> []"

definition headset_post :: "byte list \<Rightarrow> headset_session \<Rightarrow> headset_session" where
  "headset_post f s = (case headset_Write f s of None \<Rightarrow> s | Some s' \<Rightarrow> s')"

definition headset_sent :: "nat \<Rightarrow> headset_session \<Rightarrow> headset_session" where
  "headset_sent k s = (case (case hs_op s of
       NoOp \<Rightarrow> None
     | HeaderOp n \<Rightarrow> headset_header_done n NoError k s
     | BodyOp \<Rightarrow> headset_body_done NoError k s) of
     None \<Rightarrow> s | Some (s', calls) \<Rightarrow> s')"

lemma queued_length: "queued_ok cap b \<Longrightarrow> length (buffer_bytes b) = tb_size b"
  by (auto simp: queued_ok_def buffer_ok_def buffer_bytes_def)

lemma headset_post_view:
  assumes "headset_live cap s" "frame_fits cap f"
  shows "headset_view (headset_post f s) =
      (if headset_accepts s then out_post f (headset_view s) else headset_view s) \<and>
    headset_live cap (headset_post f s)"
proof (cases "wp_buffers (hs_pool s)")
  case Nil
  with assms CopyToWriteBuffer_ok [of cap "hs_pool s" f] show ?thesis
    by (auto simp: headset_live_def headset_post_def headset_Write_def headset_accepts_def
        frame_fits_def headset_view_def)
next
  case (Cons x xs)
  with assms CopyToWriteBuffer_ok [of cap "hs_pool s" f] obtain b where
    b: "CopyToWriteBuffer f (hs_pool s) = Some (Some b, (hs_pool s)\<lparr>wp_buffers := xs\<rparr>)"
      "buffer_bytes b = f" "buffer_ok cap False b" "tb_size b = length f"
    by (auto simp: headset_live_def frame_fits_def)
  have "write_pool_ok cap ((hs_pool s)\<lparr>wp_buffers := xs\<rparr>)"
    using assms(1) Cons by (simp add: headset_live_def write_pool_ok_def)
  with assms Cons b show ?thesis
    by (auto simp: headset_live_def headset_post_def headset_Write_def headset_accepts_def Let_def
        frame_fits_def headset_view_def out_post_def headset_writeHeader_def headset_startTimer_def
        queued_ok_def)
qed

lemma headset_sent_view:
  assumes "headset_live cap s" "out_wf (headset_view s)" "out_op (headset_view s) \<noteq> NoOp"
    "k \<le> length (out_view (headset_view s))"
  shows "headset_view (headset_sent k s) = out_sent k (headset_view s) \<and>
    headset_live cap (headset_sent k s)"
proof (cases "hs_op s")
  case (HeaderOp n)
  then have "n + k \<le> hdr_size" using out_view_length [OF assms(2) _ assms(4)] by (simp add: headset_view_def)
  with assms(1) HeaderOp show ?thesis
    by (auto simp: headset_view_def headset_sent_def headset_header_done_def out_sent_def Let_def
        headset_writeBody_def headset_writeHeader_def headset_startTimer_def headset_live_def)
next
  case BodyOp
  obtain h fin where "IsFinished (hs_header s) = (h, fin)" by fastforce
  with assms(1) BodyOp queued_length show ?thesis
    by (cases fin; cases "hs_queue s"; cases "tl (hs_queue s)")
       (auto simp: headset_view_def headset_sent_def headset_body_done_def out_sent_def Let_def
        headset_pop_def headset_writeBody_def headset_writeHeader_def headset_startTimer_def
        headset_live_def queued_ok_def intro!: write_pool_ok_return)
qed (use assms in \<open>simp add: headset_view_def\<close>)

interpretation headset_out: frame_writer headset_view "headset_live cap" "frame_fits (min cap cap')"
    headset_accepts headset_post headset_sent for cap cap'
proof -
  have "frame_fits cap f" if "frame_fits (min cap cap') f" for f
    using that by (simp add: frame_fits_def)
  then show "frame_writer headset_view (headset_live cap) (frame_fits (min cap cap'))
      headset_accepts headset_post headset_sent"
    using headset_post_view headset_sent_view by unfold_locales (auto simp: frame_fits_def)
qed

section \<open>The two connections\<close>

interpretation camera_link: frame_link client_out_view client_live "frame_fits cap" "\<lambda>_. True"
    client_Post client_sent camera_view "camera_live cap" cap camera_fresh camera_recv camera_release
  for cap
  by unfold_locales (simp add: frame_fits_def)

interpretation headset_link: frame_link headset_view "headset_live cap" "frame_fits (min cap cap')"
    headset_accepts headset_post headset_sent reader_view "reader_live cap'" cap' reader_fresh
    reader_recv reader_release
  for cap cap'
  by unfold_locales (simp add: frame_fits_def)

text \<open>Runs of the two connections from the moment both ends are up.\<close>

definition camera_connection ::
    "link_event list \<Rightarrow> (tcp_client, camera_end) link \<Rightarrow> (tcp_client, camera_end) link" where
  "camera_connection = fold (link_step client_out_view (\<lambda>_. True) client_Post client_sent
     camera_view camera_recv camera_release)"

definition headset_connection ::
    "link_event list \<Rightarrow> (headset_session, client_end) link \<Rightarrow> (headset_session, client_end) link" where
  "headset_connection = fold (link_step headset_view headset_accepts headset_post headset_sent
     reader_view reader_recv reader_release)"

definition link_up :: "'s \<Rightarrow> 'r \<Rightarrow> ('s, 'r) link" where
  "link_up s r = \<lparr>sender = s, wire = [], receiver = r, accepted = [], lost = 0, broken = False\<rparr>"

lemma camera_connection_run: "camera_connection es l = camera_link.run es l"
  by (simp add: camera_connection_def camera_link.run_def camera_link.step_def)

lemma headset_connection_run: "headset_connection es l = headset_link.run es l"
  by (simp add: headset_connection_def headset_link.run_def headset_link.step_def)

lemma accepted_all:
  "accepted (fold (link_step wv (\<lambda>_. True) post sent rv recv release) es l) = accepted l @ submits es"
  by (induction es arbitrary: l rule: submits.induct)
     (auto simp: link_step_def split: option.splits)

definition fresh_camera_end :: "(nat \<Rightarrow> byte) \<Rightarrow> tcp_addr \<Rightarrow> ulong \<Rightarrow> int \<Rightarrow> int \<Rightarrow> camera_end" where
  "fresh_camera_end junk addr i n sz = (fst (camera_Run i (TcpCameraSession junk addr n sz)), [], [])"

lemma fresh_camera_end_ok:
  "camera_live (nat sz) (fresh_camera_end junk addr i n sz)"
  "in_at (nat sz) (camera_view (fresh_camera_end junk addr i n sz)) [] []"
  "in_out (camera_view (fresh_camera_end junk addr i n sz)) = []"
  "in_buf (camera_view (fresh_camera_end junk addr i n sz)) = None"
  by (simp_all add: fresh_camera_end_def camera_Run_def TcpCameraSession_def camera_readHeader_def
      camera_startTimer_def camera_live_def reading_ok_def read_pool_ok_new camera_view_def in_at_def
      at_header_def new_header_def)

lemma camera_link_up:
  assumes "client_live c" "tc_queue c = []"
  shows "camera_link.linked (nat sz) (link_up c (fresh_camera_end junk addr i n sz))"
  using fresh_camera_end_ok [where sz = sz and junk = junk and addr = addr and i = i and n = n] assms
  by (intro camera_link.linkedI [of _ _ "[]" "[]"])
     (simp_all add: link_up_def out_wf_def client_out_view_def client_live_def out_remaining_def)


definition demo_camera :: tcp_client where
  "demo_camera = (case TcpClient (\<lambda>_. 0) CAMERA_CONNECTION True 0 0 of
     Inr c \<Rightarrow> fst (client_connect_done NoError (client_Start c)) | Inl _ \<Rightarrow> undefined)"

lemma demo_camera_live: "client_live demo_camera" "tc_queue demo_camera = []"
  by (simp_all add: demo_camera_def TcpClient_def client_Start_def client_startConnection_def
      client_connect_done_def client_startWrite_def client_live_def client_idle_def Let_def)


text \<open>The same for a headset: the frames the server's session accepts (those written while it has a
  free copy buffer) reach the client.\<close>

definition fresh_headset_end :: "(nat \<Rightarrow> byte) \<Rightarrow> tcp_addr \<Rightarrow> ulong \<Rightarrow> int \<Rightarrow> int \<Rightarrow> headset_session" where
  "fresh_headset_end junk addr i n sz =
     fst (headset_ConnectAndWait i (TcpHeadsetSession junk addr n sz))"

lemma fresh_headset_end_ok:
  "headset_live (nat sz) (fresh_headset_end junk addr i n sz)"
  "headset_view (fresh_headset_end junk addr i n sz) = out_idle"
  by (simp_all add: fresh_headset_end_def headset_ConnectAndWait_def TcpHeadsetSession_def
      headset_live_def write_pool_ok_new headset_view_def out_idle_def)

definition reading_client :: "(nat \<Rightarrow> byte) \<Rightarrow> connection_type \<Rightarrow> bool \<Rightarrow> int \<Rightarrow> int \<Rightarrow> string + tcp_client" where
  "reading_client junk ctype fixed n sz = (case TcpClient junk ctype fixed n sz of
     Inl e \<Rightarrow> Inl e | Inr c \<Rightarrow> Inr (fst (client_connect_done NoError (client_Start c))))"

lemma reading_client_ok:
  assumes "reading_client junk ctype fixed n sz = Inr c" "ctype \<noteq> CAMERA_CONNECTION"
  shows "reader_live (nat sz) (c, [], []) \<and> in_at (nat sz) (reader_view (c, [], [])) [] [] \<and>
    in_out (reader_view (c, [], [])) = [] \<and> in_buf (reader_view (c, [], [])) = None"
  using assms
  by (auto simp: reading_client_def TcpClient_def client_Start_def client_startConnection_def
      client_connect_done_def client_startRead_def client_readHeader_def client_startTimer_def
      client_idle_def Let_def reader_live_def reading_ok_def read_pool_ok_new reader_view_def in_at_def
      at_header_def new_header_def ResetHeader_def hdr_size_def split: if_splits)

text \<open>Between a headset session of the server and a headset or display client that has just
  connected, whatever frames that fit both ends' buffers are written, however the network cuts the
  writes and the reads and whenever buffers are given back: no operation goes wrong, the client's
  manager gets a subsequence of the frames the session accepted, byte for byte and in order, only
  the frames read into the leaky buffer being missing, and the network left alone delivers
  everything accepted.\<close>

theorem headset_frames_delivered:
  assumes "reading_client junk' ctype fixed n' sz' = Inr c" "ctype \<noteq> CAMERA_CONNECTION"
    and "list_all (frame_fits (min (nat sz) (nat sz'))) (submits es)"
  shows "let l = headset_connection es (link_up (fresh_headset_end junk addr i n sz) (c, [], []));
             got = (\<lambda>l. map buffer_bytes (fst (snd (receiver l)))) in
    \<not> broken l \<and> subseq (got l) (accepted l) \<and> (lost l = 0 \<longrightarrow> prefix (got l) (accepted l)) \<and>
    (\<exists>es'. submits es' = [] \<and>
       (let l' = headset_connection es' l in lost l' = 0 \<longrightarrow> got l' = accepted l'))"
proof -
  define l where "l = headset_connection es (link_up (fresh_headset_end junk addr i n sz) (c, [], []))"
  have out: "in_out (reader_view (receiver k)) = map buffer_bytes (fst (snd (receiver k)))"
    for k :: "(headset_session, client_end) link"
    by (cases "receiver k") (auto simp: reader_view_def)
  have up: "headset_link.linked (nat sz) (nat sz') (link_up (fresh_headset_end junk addr i n sz) (c, [], []))"
    using fresh_headset_end_ok [where sz = sz and junk = junk and addr = addr and i = i and n = n]
      reading_client_ok [OF assms(1,2)]
    by (intro headset_link.linkedI [of _ _ _ "[]" "[]"])
       (simp_all add: link_up_def out_wf_idle, simp add: out_remaining_def out_idle_def)
  have linked: "headset_link.linked (nat sz) (nat sz') l"
    unfolding l_def headset_connection_run by (intro headset_link.linked_run [OF up] assms)
  from headset_link.network_drains [OF linked] obtain es' where
    es': "submits es' = []" "link_done headset_view reader_view (headset_connection es' l)"
    unfolding headset_connection_run by blast
  have linked': "headset_link.linked (nat sz) (nat sz') (headset_connection es' l)"
    unfolding headset_connection_run using es'(1) by (intro headset_link.linked_run linked) simp
  have "lost (headset_connection es' l) = 0 \<longrightarrow>
      map buffer_bytes (fst (snd (receiver (headset_connection es' l)))) =
      accepted (headset_connection es' l)"
    using headset_link.linked_link_done [OF linked' es'(2)] out by auto
  then show ?thesis
    using headset_link.linked_prefix [OF linked] es'(1) out [of l] unfolding Let_def l_def [symmetric]
    by auto
qed

definition demo_headset :: tcp_client where
  "demo_headset = (case reading_client (\<lambda>_. 0) HEADSET_CONNECTION False 2 16 of Inr c \<Rightarrow> c | Inl _ \<Rightarrow> undefined)"

lemma demo_headset_up: "reading_client (\<lambda>_. 0) HEADSET_CONNECTION False 2 16 = Inr demo_headset"
  by (simp add: demo_headset_def reading_client_def TcpClient_def)

theorem headset_frames_delivered_witness:
  "\<not> broken (headset_connection [Submit [5, 6], Transmit 24, Deliver 1]
     (link_up (fresh_headset_end (\<lambda>_. 0) 200 1 2 8) (demo_headset, [], [])))"
  using headset_frames_delivered [OF demo_headset_up, of 8 "[Submit [5, 6], Transmit 24, Deliver 1]"
      "\<lambda>_. 0" 200 1 2]
  by (simp add: frame_fits_def frame_ok_def Let_def)

end
