(* ===== verification/Tcp_Lifecycle.thy ===== *)
theory Tcp_Lifecycle
  imports Tcp_Links
begin

text \<open>
  How the TCP sessions and the client live and die: a session reports its end to the manager at most
  once, a pending operation of a live session is always under a timeout, the client's write path
  never looks at an empty queue; and what the code leaves unguarded: a header that announces more
  bytes than the buffer holds, and a write that completes after its session was closed.
\<close>

section \<open>Closing once\<close>

text \<open>What the manager relies on: a dead session stays dead and silent, and dying is reported by the
  step that kills.\<close>

locale closing_session =
  fixes alive :: "'s \<Rightarrow> bool"
    and run_event :: "'e \<Rightarrow> 's \<Rightarrow> 's \<times> session_call list"
  assumes dead_silent: "\<not> alive s \<Longrightarrow> \<not> alive (fst (run_event e s)) \<and>
      DestroyConnection \<notin> set (snd (run_event e s)) \<and> PostDoClose \<notin> set (snd (run_event e s))"
    and killed_once: "alive s \<Longrightarrow>
      length (filter (\<lambda>c. c = DestroyConnection \<or> c = PostDoClose) (snd (run_event e s))) =
      (if alive (fst (run_event e s)) then 0 else 1)"
begin

fun run_all :: "'e list \<Rightarrow> 's \<Rightarrow> 's \<times> session_call list" where
  "run_all [] s = (s, [])"
| "run_all (e # es) s = (case run_event e s of (s1, c1) \<Rightarrow>
     (case run_all es s1 of (s2, c2) \<Rightarrow> (s2, c1 @ c2)))"

lemma run_all_invariant:
  assumes "P s" "\<And>e s. P s \<Longrightarrow> P (fst (run_event e s))"
  shows "P (fst (run_all es s))"
  using assms(1)
proof (induction es arbitrary: s)
  case (Cons e es)
  from Cons.IH [OF assms(2) [OF Cons.prems]] show ?case by (simp add: split_beta)
qed simp

definition ends :: "session_call list \<Rightarrow> nat" where
  "ends calls = length (filter (\<lambda>c. c = DestroyConnection \<or> c = PostDoClose) calls)"

lemma ends_dead: "\<not> alive s \<Longrightarrow> ends (snd (run_event e s)) = 0"
  using dead_silent [of s e] by (auto simp: ends_def filter_empty_conv)

lemma dead_run: "\<not> alive s \<Longrightarrow> \<not> alive (fst (run_all es s)) \<and> ends (snd (run_all es s)) = 0"
proof (induction es arbitrary: s)
  case (Cons e es)
  from Cons.IH [of "fst (run_event e s)"] dead_silent [OF Cons.prems, of e] ends_dead [OF Cons.prems, of e]
  show ?case by (auto simp: ends_def split: prod.splits)
qed (simp add: ends_def)

lemma one_end: "alive s \<Longrightarrow> ends (snd (run_all es s)) = (if alive (fst (run_all es s)) then 0 else 1)"
proof (induction es arbitrary: s)
  case (Cons e es)
  show ?case
  proof (cases "alive (fst (run_event e s))")
    case True
    with Cons.IH [OF True] killed_once [OF Cons.prems, of e] show ?thesis
      by (auto simp: ends_def split: prod.splits)
  next
    case False
    with dead_run [OF False, of es] killed_once [OF Cons.prems, of e] show ?thesis
      by (auto simp: ends_def split: prod.splits)
  qed
qed (simp add: ends_def)

end

section \<open>The events of a session\<close>

datatype camera_event =
  CamTimer io_error
| CamIo io_error "byte list"
| CamTryClose bool

text \<open>One event of a camera session; an undefined step leaves the session as it is.\<close>

fun camera_event_step :: "camera_event \<Rightarrow> camera_session \<Rightarrow> camera_session \<times> session_call list" where
  "camera_event_step (CamTimer ec) s = camera_timer_fired ec s"
| "camera_event_step (CamTryClose i) s = camera_TryClose i s"
| "camera_event_step (CamIo ec chunk) s =
     (case (case cs_op s of
         NoOp \<Rightarrow> None
       | HeaderOp n \<Rightarrow> camera_header_done n ec chunk s
       | BodyOp \<Rightarrow> camera_body_done ec chunk s) of
       None \<Rightarrow> (s, []) | Some r \<Rightarrow> r)"

lemmas camera_steps = camera_timer_fired_def camera_TryClose_def camera_doClose_def
  camera_header_done_def camera_body_done_def camera_readBody_def camera_readHeader_def
  camera_startTimer_def Let_def

lemma camera_dead_step:
  "\<not> cs_live s \<Longrightarrow> \<not> cs_live (fst (camera_event_step e s)) \<and> snd (camera_event_step e s) = []"
  by (cases e) (auto simp: camera_steps split: io_op.splits option.splits)

lemma camera_kill_step:
  assumes "cs_live s"
  shows "length (filter (\<lambda>c. c = DestroyConnection \<or> c = PostDoClose) (snd (camera_event_step e s))) =
    (if cs_live (fst (camera_event_step e s)) then 0 else 1)"
  using assms
  by (cases e; cases "cs_op s")
     (auto simp: camera_steps split: option.splits prod.splits bool.splits)

interpretation camera_closing: closing_session cs_live camera_event_step
  by unfold_locales (use camera_dead_step camera_kill_step in auto)

datatype headset_event =
  HsTimer io_error
| HsIo io_error nat
| HsWrite "byte list"
| HsTryClose bool

fun headset_event_step :: "headset_event \<Rightarrow> headset_session \<Rightarrow> headset_session \<times> session_call list" where
  "headset_event_step (HsTimer ec) s = headset_timer_fired ec s"
| "headset_event_step (HsTryClose i) s = headset_TryClose i s"
| "headset_event_step (HsWrite f) s =
     (case headset_Write f s of None \<Rightarrow> (s, []) | Some s' \<Rightarrow> (s', []))"
| "headset_event_step (HsIo ec n) s =
     (case (case hs_op s of
         NoOp \<Rightarrow> None
       | HeaderOp k \<Rightarrow> headset_header_done k ec n s
       | BodyOp \<Rightarrow> headset_body_done ec n s) of
       None \<Rightarrow> (s, []) | Some r \<Rightarrow> r)"

lemmas headset_steps = headset_timer_fired_def headset_TryClose_def headset_doClose_def
  headset_header_done_def headset_body_done_def headset_writeBody_def headset_writeHeader_def
  headset_startTimer_def headset_Write_def headset_pop_def Let_def

lemma headset_dead_step:
  "\<not> hs_live s \<Longrightarrow> \<not> hs_live (fst (headset_event_step e s)) \<and> snd (headset_event_step e s) = []"
  by (cases e; cases "hs_op s") (auto simp: headset_steps split: option.splits prod.splits bool.splits list.splits)

lemma headset_kill_step:
  assumes "hs_live s"
  shows "length (filter (\<lambda>c. c = DestroyConnection \<or> c = PostDoClose) (snd (headset_event_step e s))) =
    (if hs_live (fst (headset_event_step e s)) then 0 else 1)"
  using assms
  by (cases e; cases "hs_op s")
     (auto simp: headset_steps split: option.splits prod.splits bool.splits list.splits)

interpretation headset_closing: closing_session hs_live headset_event_step
  by unfold_locales (use headset_dead_step headset_kill_step in auto)

text \<open>Whatever the order of expired timers, completed or failed reads and close requests,
  a new camera session reports its end exactly once if it dies and never otherwise.\<close>

theorem camera_session_ends_once:
  "camera_closing.ends (snd (camera_closing.run_all es (TcpCameraSession junk addr n sz))) =
     (if cs_live (fst (camera_closing.run_all es (TcpCameraSession junk addr n sz))) then 0 else 1)"
  by (rule camera_closing.one_end) (simp add: TcpCameraSession_def)

text \<open>The same for a headset session, writes included.\<close>

theorem headset_session_ends_once:
  "headset_closing.ends (snd (headset_closing.run_all es (TcpHeadsetSession junk addr n sz))) =
     (if hs_live (fst (headset_closing.run_all es (TcpHeadsetSession junk addr n sz))) then 0 else 1)"
  by (rule headset_closing.one_end) (simp add: TcpHeadsetSession_def)

section \<open>Timeouts\<close>

text \<open>A pending operation of a live session is under an armed timer.\<close>

definition camera_guarded :: "camera_session \<Rightarrow> bool" where
  "camera_guarded s \<longleftrightarrow> (cs_live s \<and> cs_op s \<noteq> NoOp \<longrightarrow> cs_timer s)"

definition headset_guarded :: "headset_session \<Rightarrow> bool" where
  "headset_guarded s \<longleftrightarrow> (hs_live s \<and> hs_op s \<noteq> NoOp \<longrightarrow> hs_timer s)"

lemma camera_guarded_step: "camera_guarded s \<Longrightarrow> camera_guarded (fst (camera_event_step e s))"
  by (cases e; cases "cs_op s")
     (auto simp: camera_guarded_def camera_steps split: option.splits prod.splits bool.splits)

lemma headset_guarded_step: "headset_guarded s \<Longrightarrow> headset_guarded (fst (headset_event_step e s))"
  by (cases e; cases "hs_op s")
     (auto simp: headset_guarded_def headset_steps split: option.splits prod.splits bool.splits list.splits)

lemma camera_guarded_run: "camera_guarded s \<Longrightarrow> camera_guarded (fst (camera_closing.run_all es s))"
  by (rule camera_closing.run_all_invariant) (simp_all add: camera_guarded_step)

lemma headset_guarded_run: "headset_guarded s \<Longrightarrow> headset_guarded (fst (headset_closing.run_all es s))"
  by (rule headset_closing.run_all_invariant) (simp_all add: headset_guarded_step)

text \<open>C33 (liveness): in every state a running camera or headset session can reach, an operation that is
  pending while the session is alive has its timeout armed, and the timeout, when it expires, kills
  the session and reports it: no peer can hang a session.\<close>

theorem pending_operation_is_timed:
  "(let s = fst (camera_closing.run_all es (fst (camera_Run i (TcpCameraSession junk addr n sz)))) in
     (cs_live s \<and> cs_op s \<noteq> NoOp \<longrightarrow> cs_timer s) \<and>
     (cs_live s \<longrightarrow> camera_timer_fired NoError s =
        (camera_doClose (s\<lparr>cs_timer := False, cs_live := False\<rparr>), [DestroyConnection]))) \<and>
   (let s = fst (headset_closing.run_all es' (fresh_headset_end junk addr i n sz)) in
     (hs_live s \<and> hs_op s \<noteq> NoOp \<longrightarrow> hs_timer s) \<and>
     (hs_live s \<longrightarrow> headset_timer_fired NoError s =
        (headset_doClose (s\<lparr>hs_timer := False, hs_live := False\<rparr>), [DestroyConnection])))"
proof -
  have "camera_guarded (fst (camera_Run i (TcpCameraSession junk addr n sz)))"
    by (simp add: camera_guarded_def camera_Run_def camera_readHeader_def camera_startTimer_def)
  then have c: "camera_guarded (fst (camera_closing.run_all es (fst (camera_Run i (TcpCameraSession junk addr n sz)))))"
    by (rule camera_guarded_run)
  have "headset_guarded (fresh_headset_end junk addr i n sz)"
    by (simp add: headset_guarded_def fresh_headset_end_def headset_ConnectAndWait_def TcpHeadsetSession_def)
  then have h: "headset_guarded (fst (headset_closing.run_all es' (fresh_headset_end junk addr i n sz)))"
    by (rule headset_guarded_run)
  show ?thesis
    using c h by (simp add: Let_def camera_guarded_def headset_guarded_def camera_timer_fired_def
        camera_TryClose_def headset_timer_fired_def headset_TryClose_def)
qed

theorem pending_operation_is_timed_witness:
  "camera_timer_fired NoError (fst (camera_Run 1 (TcpCameraSession (\<lambda>_. 0) 100 1 1))) \<noteq>
     (fst (camera_Run 1 (TcpCameraSession (\<lambda>_. 0) 100 1 1)), [])"
proof -
  have "cs_live (fst (camera_Run 1 (TcpCameraSession (\<lambda>_. 0) 100 1 1)))"
    by (simp add: camera_Run_def TcpCameraSession_def camera_readHeader_def camera_startTimer_def)
  then show ?thesis
    using pending_operation_is_timed [of "[]" 1 "\<lambda>_. 0" 100 1 1 "[]"] by (simp add: Let_def)
qed

section \<open>What is not guarded\<close>

text \<open>The camera session believes the length a header announces: a header with zero front
  and back and a data length above the size of the session's buffers is accepted, that many bytes are
  asked for, and a read of more than the buffer holds writes past its end.\<close>

theorem camera_header_can_overrun:
  assumes "nat sz < len" "len < 2 ^ 32"
  shows "\<exists>s'. camera_header_done 0 NoError (mk_header p q (of_nat len) t)
      (fst (camera_Run i (TcpCameraSession junk addr n sz))) = Some (s', []) \<and>
    cs_op s' = BodyOp \<and> unat (DataLength (cs_header s')) = len \<and>
    (\<forall>chunk. nat sz < length chunk \<longrightarrow> camera_body_done NoError chunk s' = None)"
proof -
  let ?s = "fst (camera_Run i (TcpCameraSession junk addr n sz))"
  let ?h = "new_header\<lparr>hdr_data := mk_header p q (of_nat len) t\<rparr>"
  obtain b q' where bq: "GetReadBuffer (TcpReadBufferPool junk n sz) = (b, q')" by fastforce
  have ok: "length (tb_memory b) = nat sz"
    using GetReadBuffer_ok [OF read_pool_ok_new bq] by (auto simp: buffer_ok_def)
  note g = get_mk_header [of ?h p q "of_nat len" t]
  have "store_at (replicate 24 0) 0 (mk_header p q (of_nat len) t) = mk_header p q (of_nat len) t"
    by simp
  then have "camera_header_done 0 NoError (mk_header p q (of_nat len) t) ?s =
      Some (?s\<lparr>cs_header := ?h, cs_pool := Some q', cs_buffer := Some b, cs_op := BodyOp,
        cs_timer := True\<rparr>, [])"
    using bq g by (simp add: camera_header_done_def camera_Run_def TcpCameraSession_def Let_def
        camera_readHeader_def camera_startTimer_def camera_readBody_def hdr_size_def Ok_def new_header_def)
  moreover have "unat (BytesWritten ?h) = 0" by (simp add: BytesWritten_def new_header_def)
  ultimately show ?thesis
    using g(3) ok assms(2)
    by (simp add: DataLength_def camera_body_done_def Let_def unat_of_nat_small)
qed

theorem camera_header_can_overrun_witness:
  "\<exists>s'. camera_body_done NoError (replicate 20 0) s' = None \<and> cs_op s' = BodyOp"
proof -
  from camera_header_can_overrun [of 16 20 1 0 20 1 "\<lambda>_. 0" 100 1] obtain s' where
    "cs_op s' = BodyOp" "\<forall>chunk. nat 16 < length chunk \<longrightarrow> camera_body_done NoError chunk s' = None"
    by auto
  then show ?thesis by (intro exI [of _ s']) simp
qed

text \<open>A headset session whose write timer expires while the completion of its header write
  is already queued closes, drops its queue, and then runs that completion, which takes the front
  of the empty queue.\<close>

theorem headset_write_after_close:
  assumes "length f \<le> nat sz" "0 < n"
  shows "\<exists>s1. headset_Write f (fresh_headset_end junk addr i n sz) = Some s1 \<and>
    hs_op s1 = HeaderOp 0 \<and> hs_live s1 \<and>
    (let s2 = fst (headset_timer_fired NoError s1) in
      \<not> hs_live s2 \<and> headset_header_done 0 NoError 24 s2 = None)"
proof -
  let ?s = "fresh_headset_end junk addr i n sz"
  let ?p = "TcpWriteBufferPool junk n sz"
  have s: "hs_live ?s" "hs_queue ?s = []" "hs_pool ?s = ?p"
    by (simp_all add: fresh_headset_end_def headset_ConnectAndWait_def TcpHeadsetSession_def)
  have "wp_buffers ?p \<noteq> []" using assms(2) by (simp add: TcpWriteBufferPool_def)
  then obtain x xs where x: "wp_buffers ?p = x # xs" by (cases "wp_buffers ?p") auto
  with CopyToWriteBuffer_ok [OF write_pool_ok_new assms(1), of junk n] obtain b where
    "CopyToWriteBuffer f ?p = Some (Some b, ?p\<lparr>wp_buffers := xs\<rparr>)" by auto
  then show ?thesis using s
    by (simp add: headset_Write_def Let_def headset_writeHeader_def headset_startTimer_def
        headset_timer_fired_def headset_TryClose_def headset_doClose_def headset_header_done_def
        headset_writeBody_def hdr_size_def)
qed

theorem headset_write_after_close_witness:
  "\<exists>s. \<not> hs_live s \<and> headset_header_done 0 NoError 24 s = None"
  using headset_write_after_close [of "[1, 2]" 8 1 "\<lambda>_. 0" 200 1] by (auto simp: Let_def)

end
