(* ===== verification/Tcp_Client_Life.thy ===== *)
theory Tcp_Client_Life
  imports Tcp_Links
begin

text \<open>
  The life of the TCP client and of the acceptor as state machines: which states their events reach,
  that no reachable step of the client is undefined, that a started client never gives up, and that
  the acceptor keeps accepting.
\<close>

section \<open>The client's events\<close>

datatype client_event =
  CStart | CStop | CPost "byte list"
| CConnect io_error
| CIo io_error nat "byte list"
| CTimer io_error

text \<open>When an event can happen. A pending operation is aborted only after the socket is gone, and the
  abortion is delivered before the next connection is made: both completions run on one strand.\<close>

fun client_enabled :: "client_event \<Rightarrow> tcp_client \<Rightarrow> bool" where
  "client_enabled (CConnect ec) c = (tc_connecting c \<and> tc_op c = NoOp)"
| "client_enabled (CIo ec n chunk) c = (tc_op c \<noteq> NoOp \<and> (ec = Aborted \<longrightarrow> client_idle c))"
| "client_enabled (CTimer ec) c = tc_timer c"
| "client_enabled _ c = True"

fun client_event_step :: "client_event \<Rightarrow> tcp_client \<Rightarrow> (tcp_client \<times> client_call list) option" where
  "client_event_step CStart c = Some (client_Start c, [])"
| "client_event_step CStop c = Some (client_Stop c)"
| "client_event_step (CPost f) c =
     Some (if tc_type c = CAMERA_CONNECTION then client_Post f c else c, [])"
| "client_event_step (CConnect ec) c = Some (client_connect_done ec c)"
| "client_event_step (CTimer ec) c = Some (client_timer_fired ec c)"
| "client_event_step (CIo ec n chunk) c =
     (case (tc_type c = CAMERA_CONNECTION, tc_op c) of
        (_, NoOp) \<Rightarrow> Some (c, [])
      | (True, HeaderOp k) \<Rightarrow> client_header_written k ec n c
      | (True, BodyOp) \<Rightarrow> client_body_written ec n c
      | (False, HeaderOp k) \<Rightarrow> client_header_read k ec chunk c
      | (False, BodyOp) \<Rightarrow> client_body_read ec chunk c)"

inductive client_reach :: "tcp_client \<Rightarrow> tcp_client \<Rightarrow> bool" for c0 where
  client_initial: "client_reach c0 c0"
| client_next: "client_reach c0 c \<Longrightarrow> client_enabled e c \<Longrightarrow>
    client_event_step e c = Some (c', calls) \<Longrightarrow> client_reach c0 c'"

text \<open>What holds in every reachable state: a connected camera with a pending write has the frame in its
  queue, a reader has its pool and, while reading a body, its buffer; a client that was not stopped is
  connected or connecting.\<close>

definition client_inv :: "tcp_client \<Rightarrow> bool" where
  "client_inv c \<longleftrightarrow>
     (tc_type c = CAMERA_CONNECTION \<longrightarrow> \<not> client_idle c \<longrightarrow> tc_op c \<noteq> NoOp \<longrightarrow> tc_queue c \<noteq> []) \<and>
     (tc_type c \<noteq> CAMERA_CONNECTION \<longrightarrow> tc_pool c \<noteq> None \<and>
        (\<not> client_idle c \<longrightarrow> tc_op c = BodyOp \<longrightarrow> tc_buffer c \<noteq> None)) \<and>
     (\<not> tc_stopped c \<longrightarrow> tc_connected c \<or> tc_connecting c) \<and>
     (tc_stopped c \<longrightarrow> \<not> tc_connected c)"

lemmas client_steps = client_Start_def client_Stop_def client_Post_def client_connect_done_def
  client_timer_fired_def client_startConnection_def client_disconnect_def client_reconnect_def
  client_drop_buffer_def client_startRead_def client_startWrite_def client_startTimer_def
  client_readHeader_def client_readBody_def client_writeHeader_def client_writeBody_def Let_def

lemma client_inv_disconnect:
  "client_inv c \<Longrightarrow> tc_stopped c \<or> tc_connecting c \<Longrightarrow> client_inv (fst (client_disconnect c))"
  by (auto simp: client_inv_def client_disconnect_def client_drop_buffer_def client_idle_def Let_def
      split: option.splits)

lemma client_inv_start:
  "client_inv (c\<lparr>tc_stopped := True\<rparr>) \<Longrightarrow> \<not> tc_connected c \<Longrightarrow> client_inv (client_startConnection b c)"
  by (auto simp: client_inv_def client_startConnection_def client_idle_def Let_def)

lemma client_inv_reconnect: "client_inv c \<Longrightarrow> client_inv (fst (client_reconnect c))"
  by (auto simp: client_inv_def client_reconnect_def client_disconnect_def client_drop_buffer_def
      client_startConnection_def client_idle_def Let_def split: option.splits prod.splits)

lemma client_inv_Start: "client_inv c \<Longrightarrow> client_inv (client_Start c)"
  by (auto simp: client_inv_def client_Start_def client_startConnection_def client_idle_def Let_def)

lemma client_inv_Stop: "client_inv c \<Longrightarrow> client_inv (fst (client_Stop c))"
  by (auto simp: client_inv_def client_Stop_def client_disconnect_def client_drop_buffer_def
      client_idle_def Let_def split: option.splits)

lemma client_inv_Post: "client_inv c \<Longrightarrow> client_inv (client_Post f c)"
  by (auto simp: client_inv_def client_Post_def client_writeHeader_def client_idle_def Let_def)

lemma client_inv_connect:
  "client_inv c \<Longrightarrow> tc_op c = NoOp \<Longrightarrow> client_inv (fst (client_connect_done ec c))"
  by (auto simp: client_inv_def client_connect_done_def client_startConnection_def client_startRead_def
      client_startWrite_def client_readHeader_def client_startTimer_def client_idle_def Let_def)

lemma client_inv_timer: "client_inv c \<Longrightarrow> client_inv (fst (client_timer_fired ec c))"
  using client_inv_reconnect [of "c\<lparr>tc_timer := False\<rparr>"]
  by (simp add: client_timer_fired_def) (simp add: client_inv_def)

lemma client_inv_io:
  assumes "client_inv c"
  shows "client_inv (c\<lparr>tc_op := NoOp\<rparr>)" "client_inv (c\<lparr>tc_op := NoOp, tc_header := h\<rparr>)"
    "client_inv (c\<lparr>tc_op := NoOp, tc_buffer := b\<rparr>)"
    "client_inv (c\<lparr>tc_op := NoOp, tc_header := h, tc_timer := t\<rparr>)"
    "client_inv (c\<lparr>tc_op := NoOp, tc_buffer := b, tc_timer := t\<rparr>)"
  using assms by (auto simp: client_inv_def)

text \<open>The four completion handlers: defined, and keep the invariant. A body read is defined as long as
  the bytes read fit the buffer.\<close>

definition sound :: "(tcp_client \<times> client_call list) option \<Rightarrow> bool" where
  "sound r \<longleftrightarrow> (case r of None \<Rightarrow> False | Some (c, calls) \<Rightarrow> client_inv c)"

lemma sound_simps [simp]:
  "sound (Some p) = client_inv (fst p)"
  "sound (map_option (\<lambda>c'. (c', calls)) x) = (case x of None \<Rightarrow> False | Some c \<Rightarrow> client_inv c)"
  "\<not> sound None"
  by (auto simp: sound_def split: option.splits prod.splits)

lemma client_header_written_inv:
  assumes "client_inv c" "tc_type c = CAMERA_CONNECTION" "tc_op c = HeaderOp k"
  shows "sound (client_header_written k ec n c)"
proof (cases "client_idle c \<or> ec \<noteq> NoError \<or> k + n > hdr_size")
  case True
  then show ?thesis
    using client_inv_io(1) [OF assms(1)] client_inv_reconnect [OF client_inv_io(1) [OF assms(1)]]
    by (auto simp: client_header_written_def Let_def)
next
  case False
  then show ?thesis using assms
    by (auto simp: client_header_written_def client_writeBody_def client_writeHeader_def client_inv_def Let_def)
qed

lemma client_body_written_inv:
  assumes "client_inv c" "tc_type c = CAMERA_CONNECTION" "tc_op c = BodyOp"
  shows "sound (client_body_written ec n c)"
proof (cases "client_idle c \<or> ec \<noteq> NoError")
  case True
  then show ?thesis
    using client_inv_io(1) [OF assms(1)] client_inv_reconnect [OF client_inv_io(1) [OF assms(1)]]
    by (auto simp: client_body_written_def Let_def)
next
  case False
  obtain h fin where "IsFinished (tc_header c) = (h, fin)" by fastforce
  with False show ?thesis using assms
    by (cases fin; cases "tc_queue c"; cases "tl (tc_queue c)")
       (auto simp: client_body_written_def client_writeBody_def client_writeHeader_def client_inv_def Let_def)
qed

lemma client_header_read_inv:
  assumes "client_inv c" "tc_type c \<noteq> CAMERA_CONNECTION" "tc_op c = HeaderOp k"
  shows "sound (client_header_read k ec chunk c)"
proof -
  let ?c = "c\<lparr>tc_op := NoOp,
      tc_header := (tc_header c)\<lparr>hdr_data := store_at (hdr_data (tc_header c)) k chunk\<rparr>\<rparr>"
  have inv: "client_inv ?c" "client_inv (?c\<lparr>tc_timer := False\<rparr>)"
    using client_inv_io(2,4) [OF assms(1)] by simp_all
  show ?thesis
  proof (cases "ec = Aborted \<or> client_idle c \<or> ec \<noteq> NoError \<or> k + length chunk > hdr_size \<or>
      k + length chunk = hdr_size \<and> \<not> Ok (tc_header ?c)")
    case True
    then show ?thesis using inv client_inv_reconnect [OF inv(2)]
      by (auto simp: client_header_read_def Let_def)
  next
    case False
    then show ?thesis using assms
      by (auto simp: client_header_read_def client_readBody_def client_readHeader_def
          client_startTimer_def client_inv_def Let_def split: option.splits prod.splits)
  qed
qed

fun chunk_fits :: "client_event \<Rightarrow> tcp_client \<Rightarrow> bool" where
  "chunk_fits (CIo ec n chunk) c =
     (tc_type c \<noteq> CAMERA_CONNECTION \<longrightarrow> tc_op c = BodyOp \<longrightarrow>
        (\<forall>b. tc_buffer c = Some b \<longrightarrow>
           unat (BytesWritten (tc_header c)) + length chunk \<le> length (tb_memory b)))"
| "chunk_fits _ c = True"

lemma client_body_read_inv:
  assumes "client_inv c" "tc_type c \<noteq> CAMERA_CONNECTION" "tc_op c = BodyOp" "chunk_fits (CIo ec n chunk) c"
  shows "sound (client_body_read ec chunk c)"
proof -
  obtain buf where buf: "store_chunk (unat (BytesWritten (tc_header c))) chunk (tc_buffer c) = Some buf"
    "buf = None \<longleftrightarrow> tc_buffer c = None"
    using assms(2-4) by (cases "tc_buffer c") (auto simp: store_chunk_def)
  let ?c = "c\<lparr>tc_op := NoOp, tc_buffer := buf\<rparr>"
  have inv: "client_inv ?c" "client_inv (?c\<lparr>tc_timer := False\<rparr>)"
    using client_inv_io(3,5) [OF assms(1)] by simp_all
  show ?thesis
  proof (cases "ec = Aborted \<or> client_idle c \<or> ec \<noteq> NoError")
    case True
    then show ?thesis using inv client_inv_reconnect [OF inv(2)] buf
      by (auto simp: client_body_read_def Let_def)
  next
    case False
    obtain h fin where fin: "IsFinished (tc_header c) = (h, fin)" by fastforce
    obtain b where "buf = Some b" using buf(2) assms(1-3) False by (auto simp: client_inv_def)
    with False fin buf show ?thesis using assms
      by (cases fin) (auto simp: client_body_read_def client_readBody_def client_readHeader_def
          client_startTimer_def client_inv_def Let_def)
  qed
qed

lemma client_inv_step:
  assumes "client_inv c" "client_enabled e c" "chunk_fits e c"
  shows "sound (client_event_step e c)"
proof (cases e)
  case (CIo ec n chunk)
  with assms client_header_written_inv client_body_written_inv client_header_read_inv
    client_body_read_inv [OF assms(1)] show ?thesis
    by (cases "tc_op c"; cases "tc_type c = CAMERA_CONNECTION") auto
qed (use assms client_inv_Start client_inv_Stop client_inv_Post client_inv_connect client_inv_timer in auto)

lemma client_inv_step_weak:
  assumes "client_inv c" "client_enabled e c" "client_event_step e c = Some (c', calls)"
  shows "client_inv c'"
proof (cases "chunk_fits e c")
  case True
  then show ?thesis using client_inv_step [OF assms(1,2)] assms(3) by fastforce
next
  case False
  then obtain ec n chunk b where "e = CIo ec n chunk" "tc_type c \<noteq> CAMERA_CONNECTION"
    "tc_op c = BodyOp" "tc_buffer c = Some b"
    "\<not> unat (BytesWritten (tc_header c)) + length chunk \<le> length (tb_memory b)"
    by (cases e) auto
  with assms(3) show ?thesis by (simp add: client_body_read_def store_chunk_def)
qed

lemma client_inv_reach: "client_reach c0 c \<Longrightarrow> client_inv c0 \<Longrightarrow> client_inv c"
  by (induction rule: client_reach.induct) (auto intro: client_inv_step_weak)

lemma client_inv_initial: "TcpClient junk ctype fixed n sz = Inr c \<Longrightarrow> client_inv c"
  by (auto simp: TcpClient_def client_inv_def client_idle_def split: if_splits)



section \<open>The acceptor\<close>

datatype server_event =
  SvStart | SvStop | SvAccept io_error "endpoint option" io_error

fun server_event_step :: "(endpoint \<Rightarrow> connection_type) \<Rightarrow> server_event \<Rightarrow> tcp_server \<Rightarrow>
    tcp_server \<times> accept_call list" where
  "server_event_step ct SvStart t = (server_Start t, [])"
| "server_event_step ct SvStop t = (server_Stop t, [])"
| "server_event_step ct (SvAccept ec remote sh) t =
     (if ts_accepting t then server_accepted ct ec remote sh t else (t, []))"

text \<open>An accept that the peer survives, and that the server itself did not cancel.\<close>

fun accept_ok :: "server_event \<Rightarrow> bool" where
  "accept_ok (SvAccept ec remote sh) \<longleftrightarrow> ec \<noteq> Aborted \<and> sh \<noteq> Aborted \<and> (ec = NoError \<longrightarrow> remote \<noteq> None)"
| "accept_ok _ = True"

text \<open>A started server is accepting and a stopped one is not, through every start, stop
  and accept whose peer is still there, and an accepted peer becomes a camera session, a headset
  session or is shut down according to its connection type. But when the peer is gone before its
  endpoint is read, the exception ends the loop: the server is running and accepts nobody, whatever
  comes next, until it is stopped.\<close>

theorem server_keeps_accepting:
  assumes "ts_accepting t = (\<not> ts_stopped t)"
  shows "(accept_ok e \<longrightarrow>
      ts_accepting (fst (server_event_step ct e t)) = (\<not> ts_stopped (fst (server_event_step ct e t)))) \<and>
    (\<not> ts_stopped t \<longrightarrow>
      server_event_step ct (SvAccept NoError (Some peer) NoError) t =
        (t, [case ct peer of CAMERA_CONNECTION \<Rightarrow> RunCamera (ep_addr peer)
             | UNKNOWN_CONNECTION \<Rightarrow> ShutdownSocket | _ \<Rightarrow> ConnectHeadset (ep_addr peer)]) \<and>
      (let t' = fst (server_event_step ct (SvAccept NoError None NoError) t) in
        \<not> ts_stopped t' \<and> (SvStop \<notin> set es \<longrightarrow>
          \<not> ts_accepting (fold (\<lambda>e t. fst (server_event_step ct e t)) es t'))))"
proof -
  have "accept_ok e \<longrightarrow>
      ts_accepting (fst (server_event_step ct e t)) = (\<not> ts_stopped (fst (server_event_step ct e t)))"
    using assms
    by (cases e) (auto simp: server_Start_def server_Stop_def server_acceptConnections_def
        server_accepted_def Let_def split: connection_type.splits option.splits)
  moreover have "server_event_step ct (SvAccept NoError (Some peer) NoError) t =
        (t, [case ct peer of CAMERA_CONNECTION \<Rightarrow> RunCamera (ep_addr peer)
             | UNKNOWN_CONNECTION \<Rightarrow> ShutdownSocket | _ \<Rightarrow> ConnectHeadset (ep_addr peer)])"
    if "\<not> ts_stopped t"
    using assms that by (cases t) (auto simp: server_accepted_def server_acceptConnections_def Let_def
        split: connection_type.splits)
  moreover have "\<not> ts_stopped (fold (\<lambda>e t. fst (server_event_step ct e t)) es t') \<and>
      \<not> ts_accepting (fold (\<lambda>e t. fst (server_event_step ct e t)) es t')"
    if "\<not> ts_stopped t'" "\<not> ts_accepting t'" "SvStop \<notin> set es" for t' :: tcp_server
  proof (rule fold_invariant_run)
    fix e and s :: tcp_server assume "e \<in> set es" "\<not> ts_stopped s \<and> \<not> ts_accepting s"
    with that(3) show "\<not> ts_stopped (fst (server_event_step ct e s)) \<and>
        \<not> ts_accepting (fst (server_event_step ct e s))"
      by (cases e) (auto simp: server_Start_def)
  qed (use that in simp)
  moreover have "\<not> ts_stopped (fst (server_event_step ct (SvAccept NoError None NoError) t)) \<and>
      \<not> ts_accepting (fst (server_event_step ct (SvAccept NoError None NoError) t))"
    if "\<not> ts_stopped t"
    using assms that by (simp add: server_accepted_def Let_def)
  ultimately show ?thesis by (simp add: Let_def)
qed

theorem server_keeps_accepting_witness:
  "server_event_step (\<lambda>_. CAMERA_CONNECTION) (SvAccept NoError (Some \<lparr>ep_addr = 5, ep_port = 11111\<rparr>) NoError)
     (server_Start TcpServer) = (server_Start TcpServer, [RunCamera 5])"
proof -
  have "ts_accepting (server_Start TcpServer) = (\<not> ts_stopped (server_Start TcpServer))"
    "\<not> ts_stopped (server_Start TcpServer)"
    by (simp_all add: server_Start_def TcpServer_def server_acceptConnections_def)
  with server_keeps_accepting [of "server_Start TcpServer" SvStart "\<lambda>_. CAMERA_CONNECTION"
      "\<lparr>ep_addr = 5, ep_port = 11111\<rparr>" "[]"] show ?thesis by simp
qed

end
