(* ===== verification/Image_Rows.thy ===== *)
theory Image_Rows
  imports Prelude
begin

text \<open>
  How the software encoder and decoder walk over a YUV420 frame: the offsets of the rows handed to the
  JPEG library, sixteen lines of Y and eight of U and V at a time
  (\<open>SwEncoder::encodeBuffer\<close>, \<open>SwDecoder::decodeBuffer\<close>). The library advances its line counter by the
  sixteen lines of a call. A pointer is its offset from the start of the buffer.
\<close>

section \<open>The planes\<close>

definition stride2 :: "nat \<Rightarrow> nat" where "stride2 w = w div 2"

definition U_plane :: "nat \<Rightarrow> nat \<Rightarrow> nat" where "U_plane w h = w * h"

definition V_plane :: "nat \<Rightarrow> nat \<Rightarrow> nat" where "V_plane w h = U_plane w h + stride2 w * (h div 2)"

definition frame_size :: "nat \<Rightarrow> nat \<Rightarrow> nat" where "frame_size w h = w * h * 3 div 2"

type_synonym row_group = "nat list \<times> nat list \<times> nat list"

section \<open>The encoder's walk\<close>

text \<open>One turn of its loop: rows past the last one are the last one again.\<close>

definition encoder_group :: "nat \<Rightarrow> nat \<Rightarrow> nat \<Rightarrow> nat \<Rightarrow> nat \<Rightarrow> row_group" where
  "encoder_group w h Y_row U_row V_row =
     (let Y_max = U_plane w h - w; U_max = V_plane w h - stride2 w;
          V_max = U_max + stride2 w * (h div 2)
      in (map (\<lambda>i. min (Y_row + i * w) Y_max) [0..<16],
          map (\<lambda>i. min (U_row + i * stride2 w) U_max) [0..<8],
          map (\<lambda>i. min (V_row + i * stride2 w) V_max) [0..<8]))"

function encoder_loop :: "nat \<Rightarrow> nat \<Rightarrow> nat \<Rightarrow> nat \<Rightarrow> nat \<Rightarrow> nat \<Rightarrow> row_group list" where
  "encoder_loop w h next_scanline Y_row U_row V_row =
     (if next_scanline < h
      then encoder_group w h Y_row U_row V_row #
        encoder_loop w h (next_scanline + 16) (Y_row + 16 * w) (U_row + 8 * stride2 w) (V_row + 8 * stride2 w)
      else [])"
  by pat_completeness auto

termination by (relation "measure (\<lambda>(w, h, s, _). h - s)") auto

definition encoder_rows :: "nat \<Rightarrow> nat \<Rightarrow> row_group list" where
  "encoder_rows w h = encoder_loop w h 0 0 (U_plane w h) (V_plane w h)"

section \<open>The decoder's walk\<close>

text \<open>The conditions of its inner loops compare the line counter, which does not change in them: all
  sixteen and eight rows are set.\<close>

definition decoder_group :: "nat \<Rightarrow> nat \<Rightarrow> nat \<Rightarrow> nat \<Rightarrow> row_group" where
  "decoder_group w Y U V =
     (map (\<lambda>i. Y + i * w) [0..<16], map (\<lambda>i. U + i * stride2 w) [0..<8],
      map (\<lambda>i. V + i * stride2 w) [0..<8])"

function decoder_loop :: "nat \<Rightarrow> nat \<Rightarrow> nat \<Rightarrow> nat \<Rightarrow> nat \<Rightarrow> nat \<Rightarrow> row_group list" where
  "decoder_loop w h output_scanline Y U V =
     (if output_scanline < h
      then decoder_group w Y U V #
        decoder_loop w h (output_scanline + 16) (Y + 16 * w) (U + 8 * stride2 w) (V + 8 * stride2 w)
      else [])"
  by pat_completeness auto

termination by (relation "measure (\<lambda>(w, h, s, _). h - s)") auto

definition decoder_rows :: "nat \<Rightarrow> nat \<Rightarrow> row_group list" where
  "decoder_rows w h = decoder_loop w h 0 0 (U_plane w h) (V_plane w h)"

declare encoder_loop.simps [simp del] decoder_loop.simps [simp del]

section \<open>Moving the bytes\<close>

text \<open>The rows of a group with their lengths, the bytes at a row, and storing them.\<close>

definition group_segments :: "nat \<Rightarrow> row_group \<Rightarrow> (nat \<times> nat) list" where
  "group_segments w g = (case g of (ys, us, vs) \<Rightarrow>
     map (\<lambda>r. (r, w)) ys @ map (\<lambda>r. (r, stride2 w)) us @ map (\<lambda>r. (r, stride2 w)) vs)"

definition segments :: "nat \<Rightarrow> row_group list \<Rightarrow> (nat \<times> nat) list" where
  "segments w gs = concat (map (group_segments w) gs)"

definition load_rows :: "nat \<Rightarrow> row_group list \<Rightarrow> byte list \<Rightarrow> byte list list" where
  "load_rows w gs mem = map (\<lambda>(r, n). take n (drop r mem)) (segments w gs)"

definition store_rows :: "nat \<Rightarrow> row_group list \<Rightarrow> byte list list \<Rightarrow> byte list \<Rightarrow> byte list" where
  "store_rows w gs rows mem = fold (\<lambda>((r, n), bs) m. store_at m r bs) (zip (segments w gs) rows) mem"

section \<open>Which rows the walks visit\<close>

definition group_count :: "nat \<Rightarrow> nat" where "group_count h = (h + 15) div 16"

lemma group_count_step: "s < h \<Longrightarrow> (h - s + 15) div 16 = Suc ((h - (s + 16) + 15) div 16)"
  by (cases "s + 16 \<le> h") auto

lemma encoder_loop_eq:
  "encoder_loop w h s y u v =
     map (\<lambda>k. encoder_group w h (y + k * (16 * w)) (u + k * (8 * stride2 w)) (v + k * (8 * stride2 w)))
       [0..<(h - s + 15) div 16]"
proof (induction w h s y u v rule: encoder_loop.induct)
  case (1 w h s y u v)
  show ?case
  proof (cases "s < h")
    case True
    show ?thesis
      unfolding encoder_loop.simps [of w h s] group_count_step [OF True] upt_conv_Cons [OF zero_less_Suc]
      using True 1 by (simp add: map_Suc_upt [symmetric] comp_def add_ac del: upt_Suc)
  next
    case False
    then show ?thesis by (simp add: encoder_loop.simps [of w h s])
  qed
qed

lemma decoder_loop_eq:
  "decoder_loop w h s y u v =
     map (\<lambda>k. decoder_group w (y + k * (16 * w)) (u + k * (8 * stride2 w)) (v + k * (8 * stride2 w)))
       [0..<(h - s + 15) div 16]"
proof (induction w h s y u v rule: decoder_loop.induct)
  case (1 w h s y u v)
  show ?case
  proof (cases "s < h")
    case True
    show ?thesis
      unfolding decoder_loop.simps [of w h s] group_count_step [OF True] upt_conv_Cons [OF zero_less_Suc]
      using True 1 by (simp add: map_Suc_upt [symmetric] comp_def add_ac del: upt_Suc)
  next
    case False
    then show ?thesis by (simp add: decoder_loop.simps [of w h s])
  qed
qed

lemma encoder_rows_eq:
  "encoder_rows w h = map (\<lambda>k. encoder_group w h (k * (16 * w)) (U_plane w h + k * (8 * stride2 w))
     (V_plane w h + k * (8 * stride2 w))) [0..<group_count h]"
  by (simp add: encoder_rows_def encoder_loop_eq group_count_def)

lemma decoder_rows_eq:
  "decoder_rows w h = map (\<lambda>k. decoder_group w (k * (16 * w)) (U_plane w h + k * (8 * stride2 w))
     (V_plane w h + k * (8 * stride2 w))) [0..<group_count h]"
  by (simp add: decoder_rows_def decoder_loop_eq group_count_def)

lemma set_segments: "set (segments w gs) = (\<Union>g \<in> set gs. set (group_segments w g))"
  by (simp add: segments_def)

lemma planes_fit: "V_plane w h + stride2 w * (h div 2) \<le> frame_size w h"
proof -
  have "2 * (stride2 w * (h div 2)) * 2 = (2 * stride2 w) * (2 * (h div 2))" by simp
  also have "\<dots> \<le> w * h" by (intro mult_le_mono) (simp_all add: stride2_def)
  finally show ?thesis by (simp add: V_plane_def U_plane_def frame_size_def)
qed

lemma planes_exact:
  assumes "even w" "even h"
  shows "V_plane w h + stride2 w * (h div 2) = frame_size w h"
  using assms by (auto simp: V_plane_def U_plane_def frame_size_def stride2_def elim!: evenE)

lemma stride2_le: "stride2 w \<le> w"
  by (simp add: stride2_def)

lemma decoder_group_set:
  "set (group_segments w (decoder_group w Y U V)) =
     (\<lambda>i. (Y + i * w, w)) ` {0..<16} \<union> (\<lambda>i. (U + i * stride2 w, stride2 w)) ` {0..<8} \<union>
     (\<lambda>i. (V + i * stride2 w, stride2 w)) ` {0..<8}"
  by (auto simp: group_segments_def decoder_group_def)

text \<open>A row by its number, and by its group and its place in it.\<close>

lemma row_number:
  assumes "k < c" "i < (n::nat)"
  shows "k * n + i < n * c"
proof -
  have "k * n + i < Suc k * n" using assms by simp
  also have "\<dots> \<le> c * n" using assms by (intro mult_le_mono1) simp
  finally show ?thesis by (simp add: mult.commute)
qed

lemma decoder_segments_cases:
  assumes "x \<in> set (segments w (decoder_rows w h))"
  obtains (Y) r where "r < 16 * group_count h" "x = (r * w, w)"
  | (U) r where "r < 8 * group_count h" "x = (U_plane w h + r * stride2 w, stride2 w)"
  | (V) r where "r < 8 * group_count h" "x = (V_plane w h + r * stride2 w, stride2 w)"
proof -
  from assms obtain k where k: "k < group_count h"
    and x: "x \<in> set (group_segments w (decoder_group w (k * (16 * w)) (U_plane w h + k * (8 * stride2 w))
      (V_plane w h + k * (8 * stride2 w))))"
    by (auto simp: set_segments decoder_rows_eq)
  then consider i where "i < 16" "x = (k * (16 * w) + i * w, w)"
    | i where "i < 8" "x = (U_plane w h + k * (8 * stride2 w) + i * stride2 w, stride2 w)"
    | i where "i < 8" "x = (V_plane w h + k * (8 * stride2 w) + i * stride2 w, stride2 w)"
    unfolding decoder_group_set by auto
  then show thesis
  proof cases
    case (1 i)
    then show thesis using Y [of "k * 16 + i"] row_number [OF k 1(1)] by (simp add: algebra_simps)
  next
    case (2 i)
    then show thesis using U [of "k * 8 + i"] row_number [OF k 2(1)] by (simp add: algebra_simps)
  next
    case (3 i)
    then show thesis using V [of "k * 8 + i"] row_number [OF k 3(1)] by (simp add: algebra_simps)
  qed
qed

lemma decoder_segmentsI:
  "r < 16 * group_count h \<Longrightarrow> (r * w, w) \<in> set (segments w (decoder_rows w h))"
  "r < 8 * group_count h \<Longrightarrow> (U_plane w h + r * stride2 w, stride2 w) \<in> set (segments w (decoder_rows w h))"
  "r < 8 * group_count h \<Longrightarrow> (V_plane w h + r * stride2 w, stride2 w) \<in> set (segments w (decoder_rows w h))"
proof -
  have group: "set (group_segments w (decoder_group w (k * (16 * w)) (U_plane w h + k * (8 * stride2 w))
      (V_plane w h + k * (8 * stride2 w)))) \<subseteq> set (segments w (decoder_rows w h))"
    if "k < group_count h" for k
    using that by (auto simp: set_segments decoder_rows_eq)
  have split: "a * (n * b) + i * b = (a * n + i) * b" for a n i b :: nat by (simp add: algebra_simps)
  show "(r * w, w) \<in> set (segments w (decoder_rows w h))" if "r < 16 * group_count h"
  proof (rule subsetD [OF group [of "r div 16"]])
    show "(r * w, w) \<in> set (group_segments w (decoder_group w (r div 16 * (16 * w))
       (U_plane w h + r div 16 * (8 * stride2 w)) (V_plane w h + r div 16 * (8 * stride2 w))))"
      unfolding decoder_group_set
      by (intro UnI1 image_eqI [of _ _ "r mod 16"]) (simp_all add: split)
  qed (use that in \<open>simp add: less_mult_imp_div_less mult.commute\<close>)
  show "(U_plane w h + r * stride2 w, stride2 w) \<in> set (segments w (decoder_rows w h))"
    if "r < 8 * group_count h"
  proof (rule subsetD [OF group [of "r div 8"]])
    show "(U_plane w h + r * stride2 w, stride2 w) \<in> set (group_segments w (decoder_group w (r div 8 * (16 * w))
       (U_plane w h + r div 8 * (8 * stride2 w)) (V_plane w h + r div 8 * (8 * stride2 w))))"
      unfolding decoder_group_set
      by (rule UnI1, rule UnI2, rule image_eqI [of _ _ "r mod 8"]) (simp_all add: split add.assoc)
  qed (use that in \<open>simp add: less_mult_imp_div_less mult.commute\<close>)
  show "(V_plane w h + r * stride2 w, stride2 w) \<in> set (segments w (decoder_rows w h))"
    if "r < 8 * group_count h"
  proof (rule subsetD [OF group [of "r div 8"]])
    show "(V_plane w h + r * stride2 w, stride2 w) \<in> set (group_segments w (decoder_group w (r div 8 * (16 * w))
       (U_plane w h + r div 8 * (8 * stride2 w)) (V_plane w h + r div 8 * (8 * stride2 w))))"
      unfolding decoder_group_set
      by (rule UnI2, rule image_eqI [of _ _ "r mod 8"]) (simp_all add: split add.assoc)
  qed (use that in \<open>simp add: less_mult_imp_div_less mult.commute\<close>)
qed

section \<open>The loops end, and what they compute\<close>



text \<open>The reference: the lines of the three planes by their numbers, those of the encoder clamped to the
  last line of their plane.\<close>

definition line_table :: "nat \<Rightarrow> nat \<Rightarrow> (nat \<Rightarrow> nat \<Rightarrow> nat) \<Rightarrow> row_group list" where
  "line_table w h clamp = map (\<lambda>k.
     (map (\<lambda>i. clamp h (16 * k + i) * w) [0..<16],
      map (\<lambda>i. U_plane w h + clamp (h div 2) (8 * k + i) * stride2 w) [0..<8],
      map (\<lambda>i. V_plane w h + clamp (h div 2) (8 * k + i) * stride2 w) [0..<8])) [0..<group_count h]"

lemma clamped_line:
  assumes "0 < (n::nat)"
  shows "min (p + r * b) (p + n * b - b) = p + min r (n - 1) * b"
proof (cases "r < n")
  case True
  then show ?thesis using min_absorb1 [of r "n - 1"] row_number [of r n 0 1] mult_le_mono1 [of "Suc r" n b] by simp
next
  case False
  then have "n * b \<le> r * b" by (intro mult_le_mono1) simp
  moreover have "n * b - b = (n - 1) * b" by (simp add: diff_mult_distrib)
  moreover have "b \<le> n * b" using assms by (cases n) simp_all
  ultimately have "p + n * b - b = p + (n - 1) * b" "p + n * b - b \<le> p + r * b" by linarith+
  moreover have "min r (n - 1) = n - 1" using False by simp
  ultimately show ?thesis by (simp only: min_absorb2)
qed

text \<open>C17 (equivalence): the walks of pointers compute the tables of lines: the encoder, for every frame of
  at least two lines, the one clamped to the last line of each plane; the decoder, which does not clamp,
  the one that runs on past the planes.\<close>

theorem codec_walks_are_line_tables:
  assumes "2 \<le> h"
  shows "encoder_rows w h = line_table w h (\<lambda>n r. min r (n - 1)) \<and>
    decoder_rows w h = line_table w h (\<lambda>n r. r)"
proof -
  have c: "0 < h" "0 < h div 2" using assms by simp_all
  have "w \<le> U_plane w h" using c(1) by (cases h) (simp_all add: U_plane_def)
  then have s: "stride2 w \<le> U_plane w h" using stride2_le [of w] by simp
  have y: "min (k * (16 * w) + i * w) (U_plane w h - w) = min (16 * k + i) (h - 1) * w" for k i
    using clamped_line [OF c(1), of 0 "16 * k + i" w] by (simp add: U_plane_def algebra_simps)
  have u: "min (U_plane w h + k * (8 * stride2 w) + i * stride2 w) (V_plane w h - stride2 w) =
      U_plane w h + min (8 * k + i) (h div 2 - 1) * stride2 w" for k i
    using clamped_line [OF c(2), of "U_plane w h" "8 * k + i" "stride2 w"]
    by (simp add: V_plane_def algebra_simps)
  have "V_plane w h - stride2 w + stride2 w * (h div 2) = V_plane w h + h div 2 * stride2 w - stride2 w"
    using s by (simp add: V_plane_def mult.commute)
  then have v: "min (V_plane w h + k * (8 * stride2 w) + i * stride2 w)
        (V_plane w h - stride2 w + stride2 w * (h div 2)) =
      V_plane w h + min (8 * k + i) (h div 2 - 1) * stride2 w" for k i
    using clamped_line [OF c(2), of "V_plane w h" "8 * k + i" "stride2 w"] by (simp add: algebra_simps)
  have plain: "k * (16 * w) + i * w = (16 * k + i) * w"
      "p + k * (8 * stride2 w) + i * stride2 w = p + (8 * k + i) * stride2 w" for p k i
    by (simp_all add: algebra_simps)
  show ?thesis
    by (simp add: encoder_rows_eq decoder_rows_eq line_table_def encoder_group_def decoder_group_def
        Let_def plain y [unfolded plain One_nat_def] u [unfolded plain One_nat_def]
        v [unfolded plain One_nat_def] cong: map_cong)
qed

theorem codec_walks_are_line_tables_witness:
  "snd (snd (encoder_rows 4 18 ! 1)) ! 5 = snd (snd (line_table 4 18 (\<lambda>n r. min r (n - 1)) ! 1)) ! 5"
  using codec_walks_are_line_tables [of 18 4] by simp

section \<open>Bounds\<close>

text \<open>Every row the encoder reads lies inside the frame, for every width and height, and the
  loop ends; row by row it reads the lines of the frame in order, and past the end the last one again.\<close>

theorem encoder_reads_inside:
  assumes "0 < h" "(r, n) \<in> set (segments w (encoder_rows w h))"
  shows "r + n \<le> frame_size w h \<and>
    (k < group_count h \<longrightarrow> i < 16 \<longrightarrow> fst (encoder_rows w h ! k) ! i = min (16 * k + i) (h - 1) * w)"
proof -
  have wh: "w \<le> U_plane w h" using assms(1) by (cases h) (simp_all add: U_plane_def)
  then have s: "stride2 w \<le> V_plane w h" using stride2_le [of w] by (simp add: V_plane_def)
  have "r + n \<le> V_plane w h + stride2 w * (h div 2)"
    using assms(2) wh s
    by (auto simp: set_segments encoder_rows_eq group_segments_def encoder_group_def Let_def min_def
        V_plane_def split: if_splits)
  then have "r + n \<le> frame_size w h" using planes_fit [of w h] by simp
  moreover have "fst (encoder_rows w h ! k) ! i = min (16 * k + i) (h - 1) * w" if "k < group_count h" "i < 16"
  proof -
    have "min (k * (16 * w) + i * w) (w * h - w) = min ((16 * k + i) * w) ((h - 1) * w)"
      by (simp add: algebra_simps diff_mult_distrib2)
    also have "\<dots> = min (16 * k + i) (h - 1) * w"
      by (cases "16 * k + i \<le> h - 1") (auto simp: min_def mult_le_mono1)
    finally show ?thesis using that by (simp add: encoder_rows_eq encoder_group_def Let_def U_plane_def)
  qed
  ultimately show ?thesis by blast
qed

theorem encoder_reads_inside_witness:
  "(0, 4) \<in> set (segments 4 (encoder_rows 4 18)) \<and> fst (encoder_rows 4 18 ! 1) ! 7 = 68"
proof -
  have c: "group_count 18 = 2" by (simp add: group_count_def)
  have "(0, 4) \<in> set (segments 4 (encoder_rows 4 18))"
    by (simp add: set_segments encoder_rows_eq c group_segments_def encoder_group_def Let_def upt_rec
        U_plane_def)
  with encoder_reads_inside [of 18 0 4 4 1 7] show ?thesis by (simp add: c)
qed

lemma row_fits: "r < n \<Longrightarrow> r * b + b \<le> n * (b::nat)"
  using mult_le_mono1 [of "Suc r" n b] by simp

lemma decoder_writes_inside:
  assumes "16 dvd h" "(r, n) \<in> set (segments w (decoder_rows w h))"
  shows "r + n \<le> frame_size w h"
proof -
  obtain q where "h = 16 * q" using assms(1) by (elim dvdE)
  then have c: "16 * group_count h = h" "8 * group_count h = h div 2" by (simp_all add: group_count_def)
  note fits = row_fits
  have le: "U_plane w h \<le> V_plane w h" "V_plane w h \<le> frame_size w h"
    using planes_fit [of w h] by (simp_all add: V_plane_def)
  from assms(2) show ?thesis
  proof (cases rule: decoder_segments_cases)
    case (Y r')
    with fits [of r' h w] c le show ?thesis by (simp add: U_plane_def mult.commute)
  next
    case (U r')
    with fits [of r' "h div 2" "stride2 w"] c le show ?thesis by (simp add: V_plane_def mult.commute)
  next
    case (V r')
    with fits [of r' "h div 2" "stride2 w"] c planes_fit [of w h] show ?thesis by (simp add: mult.commute)
  qed
qed

text \<open>C16 (bounds): the rows the decoder hands to the library lie inside its buffer exactly if the height
  is a multiple of 16; otherwise the last rows of V lie past the end of the buffer.\<close>

theorem decoder_writes_inside_iff:
  assumes "2 \<le> w" "even w" "even h"
  shows "(\<forall>(r, n) \<in> set (segments w (decoder_rows w h)). r + n \<le> frame_size w h) \<longleftrightarrow> 16 dvd h"
proof
  have exact: "V_plane w h + stride2 w * (h div 2) = frame_size w h"
    by (rule planes_exact [OF assms(2,3)])
  have s: "0 < stride2 w" using assms(1) by (simp add: stride2_def)
  assume inside: "\<forall>(r, n) \<in> set (segments w (decoder_rows w h)). r + n \<le> frame_size w h"
  show "16 dvd h"
  proof (rule ccontr)
    assume "\<not> 16 dvd h"
    define q m where "q = h div 16" and "m = h mod 16"
    then have "h = 16 * q + m" "m < 16" "0 < m"
      using \<open>\<not> 16 dvd h\<close> by (simp_all add: dvd_eq_mod_eq_0)
    then have "h < 16 * Suc q" "group_count h = Suc q" unfolding group_count_def
      by (simp, intro div_nat_eqI) simp_all
    then have h: "h div 2 < 8 * group_count h" and pos: "0 < group_count h"
      by (simp_all add: div_less_iff_less_mult)
    let ?r = "8 * group_count h - 1"
    have "V_plane w h + ?r * stride2 w + stride2 w \<le> frame_size w h"
      using bspec [OF inside decoder_segmentsI(3) [of ?r h w]] pos by simp
    moreover have "?r * stride2 w + stride2 w = 8 * group_count h * stride2 w"
      using pos by (simp add: algebra_simps flip: add_mult_distrib)
    ultimately have "8 * group_count h * stride2 w \<le> stride2 w * (h div 2)" using exact by linarith
    with h s show False by (simp add: mult.commute)
  qed
qed (auto dest: decoder_writes_inside)

theorem decoder_writes_inside_iff_witness:
  "\<not> (\<forall>(r, n) \<in> set (segments 1920 (decoder_rows 1920 1080)). r + n \<le> frame_size 1920 1080)"
  using decoder_writes_inside_iff [of 1920 1080] by simp

section \<open>What the encoder reads is where the decoder writes\<close>

lemma min_row: "r < n \<Longrightarrow> min (r * b) (n * b - b) = r * (b::nat)"
  using row_fits [of r n b] by (intro min_absorb1) linarith

lemma min_row_from: "r < n \<Longrightarrow> min (p + r * b) (p + n * b - b) = p + r * (b::nat)"
  using row_fits [of r n b] by (intro min_absorb1) linarith

lemma same_rows:
  assumes "16 dvd h"
  shows "encoder_rows w h = decoder_rows w h"
proof -
  obtain q where q: "h = 16 * q" using assms by (elim dvdE)
  then have c: "group_count h = q" "h div 2 = 8 * q" by (simp_all add: group_count_def)
  have "encoder_group w h (k * (16 * w)) (U_plane w h + k * (8 * stride2 w)) (V_plane w h + k * (8 * stride2 w)) =
    decoder_group w (k * (16 * w)) (U_plane w h + k * (8 * stride2 w)) (V_plane w h + k * (8 * stride2 w))"
    if k: "k < q" for k
  proof -
    have V: "V_plane w h = U_plane w h + 8 * q * stride2 w" by (simp add: V_plane_def c mult.commute)
    have y: "min (k * (16 * w) + i * w) (U_plane w h - w) = k * (16 * w) + i * w" if "i < 16" for i
      using min_row [of "k * 16 + i" "16 * q" w] row_number [OF k that] by (simp add: q U_plane_def algebra_simps)
    have u: "min (U_plane w h + k * (8 * stride2 w) + i * stride2 w) (V_plane w h - stride2 w) =
        U_plane w h + k * (8 * stride2 w) + i * stride2 w" if "i < 8" for i
      using min_row_from [of "k * 8 + i" "8 * q" "U_plane w h" "stride2 w"] row_number [OF k that]
      by (simp add: V algebra_simps)
    have "1 * stride2 w \<le> 8 * q * stride2 w" using k by (intro mult_le_mono1) simp
    then have "stride2 w \<le> V_plane w h" unfolding V by linarith
    then have v: "min (V_plane w h + k * (8 * stride2 w) + i * stride2 w)
          (V_plane w h - stride2 w + stride2 w * (h div 2)) =
        V_plane w h + k * (8 * stride2 w) + i * stride2 w" if "i < 8" for i
      using min_row_from [of "k * 8 + i" "8 * q" "V_plane w h" "stride2 w"] row_number [OF k that]
      by (simp add: c algebra_simps)
    show ?thesis by (simp add: encoder_group_def decoder_group_def Let_def y u v cong: map_cong)
  qed
  then show ?thesis by (simp add: encoder_rows_eq decoder_rows_eq c cong: map_cong)
qed

text \<open>Writes that agree with a frame make the buffer agree with it wherever they reach.\<close>

lemma store_agrees:
  assumes "\<forall>(r, n) \<in> set segs. r + n \<le> length mem" "length buf = length mem" "j < length mem"
    and "buf ! j = mem ! j \<or> (\<exists>(r, n) \<in> set segs. r \<le> j \<and> j < r + n)"
  shows "fold (\<lambda>((r, n), bs) m. store_at m r bs)
      (zip segs (map (\<lambda>(r, n). take n (drop r mem)) segs)) buf ! j = mem ! j"
  using assms
proof (induction segs arbitrary: buf)
  case (Cons x segs)
  obtain r n where x: "x = (r, n)" by (cases x)
  let ?buf = "store_at buf r (take n (drop r mem))"
  have fit: "r + n \<le> length mem" using Cons.prems(1) x by simp
  have len: "length ?buf = length mem" using fit Cons.prems(2) by simp
  have "?buf ! j = mem ! j" if "buf ! j = mem ! j \<or> r \<le> j \<and> j < r + n"
    using that fit Cons.prems(2,3) by (auto simp: store_at_def nth_append)
  then have "?buf ! j = mem ! j \<or> (\<exists>(r, n) \<in> set segs. r \<le> j \<and> j < r + n)"
    using Cons.prems(4) x by auto
  with Cons.IH [OF _ len Cons.prems(3)] Cons.prems(1) x show ?case by simp
qed simp

lemma store_length:
  assumes "\<forall>(r, n) \<in> set segs. r + n \<le> length mem" "length buf = length mem"
  shows "length (fold (\<lambda>((r, n), bs) m. store_at m r bs)
      (zip segs (map (\<lambda>(r, n). take n (drop r mem)) segs)) buf) = length mem"
  using assms by (induction segs arbitrary: buf) auto

lemma row_of: "(j::nat) < n * b \<Longrightarrow> j div b < n \<and> j div b * b \<le> j \<and> j < j div b * b + b"
  by (cases "b = 0")
     (simp_all add: less_mult_imp_div_less dividend_less_div_times add.commute)

lemma row_of_from:
  assumes "p \<le> (j::nat)" "j - p < n * b"
  shows "(j - p) div b < n \<and> p + (j - p) div b * b \<le> j \<and> j < p + (j - p) div b * b + b"
  using row_of [OF assms(2)] assms(1) by linarith

lemma codec_layout:
  assumes "even w" "16 dvd h" "length mem = frame_size w h" "length buf = frame_size w h"
  shows "store_rows w (decoder_rows w h) (load_rows w (encoder_rows w h) mem) buf = mem"
proof -
  obtain q where q: "h = 16 * q" using assms(2) by (elim dvdE)
  then have c: "group_count h = q" "h div 2 = 8 * q" by (simp_all add: group_count_def)
  have planes: "V_plane w h + stride2 w * (8 * q) = frame_size w h"
    using planes_exact [OF assms(1), of h] q c by simp
  have inside: "\<forall>(r, n) \<in> set (segments w (decoder_rows w h)). r + n \<le> length mem"
  proof -
    have "r + n \<le> length mem" if "(r, n) \<in> set (segments w (decoder_rows w h))" for r n
      using decoder_writes_inside [OF assms(2) that] assms(3) by simp
    then show ?thesis by blast
  qed
  have cover: "\<exists>(r, n) \<in> set (segments w (decoder_rows w h)). r \<le> j \<and> j < r + n"
    if j: "j < frame_size w h" for j
  proof -
    consider "j < U_plane w h" | "U_plane w h \<le> j" "j < V_plane w h" | "V_plane w h \<le> j" by linarith
    then show ?thesis
    proof cases
      case 1
      then have "j < h * w" by (simp add: U_plane_def mult.commute)
      from row_of [OF this] show ?thesis
        by (intro bexI [OF _ decoder_segmentsI(1) [of "j div w" h w]]) (simp_all add: c(1) [unfolded q] q)
    next
      case 2
      then have "j - U_plane w h < 8 * q * stride2 w" by (simp add: V_plane_def c mult.commute)
      from row_of_from [OF 2(1) this] show ?thesis
        by (intro bexI [OF _ decoder_segmentsI(2) [of "(j - U_plane w h) div stride2 w" h w]])
           (simp_all add: c)
    next
      case 3
      then have "j - V_plane w h < 8 * q * stride2 w" using j planes by (simp add: mult.commute)
      from row_of_from [OF 3 this] show ?thesis
        by (intro bexI [OF _ decoder_segmentsI(3) [of "(j - V_plane w h) div stride2 w" h w]])
           (simp_all add: c)
    qed
  qed
  have "length (store_rows w (decoder_rows w h) (load_rows w (encoder_rows w h) mem) buf) = length mem"
    using store_length [OF inside] assms by (simp add: store_rows_def load_rows_def same_rows)
  then show ?thesis
  proof (rule nth_equalityI)
    fix j
    assume "j < length (store_rows w (decoder_rows w h) (load_rows w (encoder_rows w h) mem) buf)"
    then have j: "j < length mem" using \<open>length (store_rows _ _ _ _) = length mem\<close> by simp
    show "store_rows w (decoder_rows w h) (load_rows w (encoder_rows w h) mem) buf ! j = mem ! j"
      using store_agrees [OF inside _ j, of buf] cover [of j] j assms
      by (simp add: store_rows_def load_rows_def same_rows)
  qed
qed

text \<open>C15 (roundtrip): for an even width and a height that is a multiple of 16, the decoder puts every row
  back where the encoder took it from: the rows of a camera frame, stored at the decoder's rows of any
  buffer of the size of a frame, are that frame.\<close>

theorem codec_layout_roundtrip:
  assumes "even w" "16 dvd h" "length mem = frame_size w h" "length buf = frame_size w h"
  shows "store_rows w (decoder_rows w h) (load_rows w (encoder_rows w h) mem) buf = mem"
  by (rule codec_layout [OF assms])

theorem codec_layout_roundtrip_witness:
  "store_rows 2 (decoder_rows 2 16) (load_rows 2 (encoder_rows 2 16) (map of_nat [0..<48])) (replicate 48 0) =
     map of_nat [0..<48]"
  by (rule codec_layout_roundtrip) (simp_all add: frame_size_def)

end
