(* ===== verification/Worker.thy ===== *)
theory Worker
  imports Prelude
begin

text \<open>
  Worker threads. The encoder, the decoder, the string camera, the button poller and the BMS reader each
  run a thread until they are told to stop (\<open>work_thread\<close>); those of the encoder and the decoder take
  work off a queue (\<open>worker\<close>). The locales state the contracts of the operations and prove once that
  the last start or stop decides, and that a worker implements a queue that exists while it runs.
\<close>

datatype 'a worker_event = WStart | WStop | WPush 'a | WTake

text \<open>The specification: running or not, and the work waiting.\<close>

fun worker_spec :: "'a worker_event \<Rightarrow> bool \<times> 'a list \<Rightarrow> bool \<times> 'a list" where
  "worker_spec WStart (on, q) = (True, q)"
| "worker_spec WStop (on, q) = (False, [])"
| "worker_spec (WPush a) (on, q) = (on, if on then q @ [a] else q)"
| "worker_spec WTake (on, q) = (on, if on then tl q else q)"

text \<open>The thread alone: starting a running worker and stopping a stopped one do nothing.\<close>

locale work_thread =
  fixes start :: "'s \<Rightarrow> 's" and stop :: "'s \<Rightarrow> 's" and stopped :: "'s \<Rightarrow> bool" and thread :: "'s \<Rightarrow> bool"
  assumes start_running: "\<not> stopped s \<Longrightarrow> start s = s"
    and start_thread: "stopped s \<Longrightarrow> \<not> stopped (start s) \<and> thread (start s)"
    and stop_stopped: "stopped s \<Longrightarrow> stop s = s"
    and stop_thread: "\<not> stopped s \<Longrightarrow> stopped (stop s) \<and> \<not> thread (stop s)"
begin

definition command :: "bool \<Rightarrow> 's \<Rightarrow> 's" where
  "command on = (if on then start else stop)"

text \<open>Whatever the starts and stops, there is a thread exactly while the flag is down, and the last of
  them decides.\<close>

lemma command_decides:
  assumes "thread s \<longleftrightarrow> \<not> stopped s"
  shows "(thread (command on s) \<longleftrightarrow> \<not> stopped (command on s)) \<and> thread (command on s) = on"
  using assms start_running [of s] start_thread [of s] stop_stopped [of s] stop_thread [of s]
  by (cases on; cases "stopped s") (auto simp: command_def)

lemma last_command_decides:
  assumes "thread s \<longleftrightarrow> \<not> stopped s"
  shows "thread (fold command es s) = last (thread s # es) \<and> stopped (fold command es s) = (\<not> last (thread s # es))"
  using assms
proof (induction es arbitrary: s)
  case (Cons e es)
  from Cons.IH [of "command e s"] command_decides [OF Cons.prems, of e] show ?case by (cases es) auto
qed simp

lemmas thread_follows = last_command_decides [unfolded command_def]

lemma command_idempotent: "command on (command on s) = command on s"
  using start_running start_thread stop_stopped stop_thread
  by (cases on; cases "stopped s") (simp_all add: command_def)

end

locale worker = work_thread start stop stopped thread
  for start :: "'s \<Rightarrow> 's" and stop :: "'s \<Rightarrow> 's" and stopped :: "'s \<Rightarrow> bool" and thread :: "'s \<Rightarrow> bool" +
  fixes push :: "'a \<Rightarrow> 's \<Rightarrow> 's" and pull :: "'s \<Rightarrow> ('a \<times> 's) option" and queue :: "'s \<Rightarrow> 'a list"
  assumes start_keeps: "stopped s \<Longrightarrow> queue (start s) = queue s"
    and stop_clears: "\<not> stopped s \<Longrightarrow> queue (stop s) = []"
    and push_stopped: "stopped s \<Longrightarrow> push a s = s"
    and push_running: "\<not> stopped s \<Longrightarrow>
      \<not> stopped (push a s) \<and> thread (push a s) = thread s \<and> queue (push a s) = queue s @ [a]"
    and pull_none: "stopped s \<or> queue s = [] \<Longrightarrow> pull s = None"
    and pull_front: "\<not> stopped s \<Longrightarrow> queue s = a # q \<Longrightarrow>
      \<exists>s'. pull s = Some (a, s') \<and> \<not> stopped s' \<and> thread s' = thread s \<and> queue s' = q"
begin

definition worker_ok :: "'s \<Rightarrow> bool" where
  "worker_ok s \<longleftrightarrow> (thread s \<longleftrightarrow> \<not> stopped s) \<and> (stopped s \<longrightarrow> queue s = [])"

fun worker_step :: "'a worker_event \<Rightarrow> 's \<Rightarrow> 's" where
  "worker_step WStart s = start s"
| "worker_step WStop s = stop s"
| "worker_step (WPush a) s = push a s"
| "worker_step WTake s = (case pull s of None \<Rightarrow> s | Some (a, s') \<Rightarrow> s')"

lemma worker_implements_step:
  assumes "worker_ok s"
  shows "worker_ok (worker_step e s) \<and>
    (\<not> stopped (worker_step e s), queue (worker_step e s)) = worker_spec e (\<not> stopped s, queue s)"
proof (cases e)
  case WStart
  then show ?thesis using assms start_running [of s] start_thread [of s] start_keeps [of s]
    by (cases "stopped s") (auto simp: worker_ok_def)
next
  case WStop
  then show ?thesis using assms stop_thread [of s] stop_clears [of s] stop_stopped [of s]
    by (cases "stopped s") (auto simp: worker_ok_def)
next
  case (WPush a)
  then show ?thesis using assms push_running [of s a] push_stopped [of s a]
    by (cases "stopped s") (auto simp: worker_ok_def)
next
  case WTake
  show ?thesis
  proof (cases "stopped s \<or> queue s = []")
    case True
    with WTake assms pull_none [OF True] show ?thesis by (auto simp: worker_ok_def)
  next
    case False
    then obtain a q where q: "queue s = a # q" by (cases "queue s") auto
    with False pull_front [of s a q] assms WTake show ?thesis by (auto simp: worker_ok_def)
  qed
qed

lemma worker_implements_spec:
  assumes "worker_ok s"
  shows "worker_ok (fold worker_step es s) \<and>
    (\<not> stopped (fold worker_step es s), queue (fold worker_step es s)) =
      fold worker_spec es (\<not> stopped s, queue s)"
  using assms
proof (induction es arbitrary: s)
  case (Cons e es)
  from worker_implements_step [OF Cons.prems, of e] Cons.IH [of "worker_step e s"] show ?case by simp
qed simp

end

end
