(* ===== verification/Sw_Codec.thy ===== *)
theory Sw_Codec
  imports Image_Rows Worker Buffer_Pool
begin

text \<open>
  \<open>src/internal/infrastructure/encoder/sw_encoder.cpp\<close> and \<open>decoder/sw_decoder.cpp\<close>: the threads that turn
  camera frames into JPEG and JPEG into frames for the screen. Both take a buffer from a pool for the
  result and get it back from the deleter of the \<open>shared_ptr\<close> they send on. The JPEG library is a
  parameter: \<open>compress\<close> of the rows, \<open>header\<close> (is the header readable) and \<open>decompress\<close> (the rows, or an
  error on the way). Frames and JPEG images are lists of bytes.
\<close>

section \<open>The encoder\<close>

record encoder_buffer =
  eb_memory :: "byte list"
  eb_max_size :: nat
  eb_size :: nat

record sw_encoder =
  enc_width :: nat
  enc_height :: nat
  enc_work_stop :: bool
  enc_work_thread :: bool
  enc_work_queue :: "byte list list"
  enc_downstream :: "encoder_buffer list"

definition EncoderBuffer :: "(nat \<Rightarrow> byte) \<Rightarrow> nat \<Rightarrow> encoder_buffer" where
  "EncoderBuffer junk sz = \<lparr>eb_memory = map junk [0..<sz], eb_max_size = sz, eb_size = sz\<rparr>"

definition ResetSize :: "encoder_buffer \<Rightarrow> encoder_buffer" where
  "ResetSize b = b\<lparr>eb_size := eb_max_size b\<rparr>"

definition encoder_buffer_bytes :: "encoder_buffer \<Rightarrow> byte list" where
  "encoder_buffer_bytes b = take (eb_size b) (eb_memory b)"

definition encoder_setup_buffers :: "(nat \<Rightarrow> byte) \<Rightarrow> nat \<Rightarrow> nat \<Rightarrow> nat \<Rightarrow> encoder_buffer list" where [simp]:
  "encoder_setup_buffers junk w h n = map (\<lambda>i. EncoderBuffer junk (frame_size w h)) [0..<n]"

definition SwEncoder :: "(nat \<Rightarrow> byte) \<Rightarrow> nat \<Rightarrow> nat \<Rightarrow> nat \<Rightarrow> sw_encoder" where
  "SwEncoder junk w h downstream_count =
     \<lparr>enc_width = w, enc_height = h, enc_work_stop = True, enc_work_thread = False, enc_work_queue = [],
      enc_downstream = encoder_setup_buffers junk w h downstream_count\<rparr>"

definition StartEncoder :: "sw_encoder \<Rightarrow> sw_encoder" where
  "StartEncoder s = (if \<not> enc_work_stop s then s else s\<lparr>enc_work_stop := False, enc_work_thread := True\<rparr>)"

text \<open>Stopping joins the thread and drops the waiting frames.\<close>

definition StopEncoder :: "sw_encoder \<Rightarrow> sw_encoder" where
  "StopEncoder s = (if enc_work_stop s then s
     else s\<lparr>enc_work_stop := True, enc_work_thread := False, enc_work_queue := []\<rparr>)"

definition PostCameraBuffer :: "byte list \<Rightarrow> sw_encoder \<Rightarrow> sw_encoder" where
  "PostCameraBuffer frame s = (if enc_work_stop s then s
     else s\<lparr>enc_work_queue := enc_work_queue s @ [frame]\<rparr>)"

definition encoder_next_frame :: "sw_encoder \<Rightarrow> (byte list \<times> sw_encoder) option" where
  "encoder_next_frame s = (if enc_work_stop s then None
     else case enc_work_queue s of [] \<Rightarrow> None | frame # rest \<Rightarrow> Some (frame, s\<lparr>enc_work_queue := rest\<rparr>))"

definition encoder_take_buffer :: "sw_encoder \<Rightarrow> encoder_buffer option \<times> sw_encoder" where
  "encoder_take_buffer s = (case enc_downstream s of
     [] \<Rightarrow> (None, s) | b # rest \<Rightarrow> (Some b, s\<lparr>enc_downstream := rest\<rparr>))"

definition encoder_queueDownstreamBuffer :: "encoder_buffer \<Rightarrow> sw_encoder \<Rightarrow> sw_encoder" where
  "encoder_queueDownstreamBuffer b s = s\<lparr>enc_downstream := enc_downstream s @ [b]\<rparr>"

text \<open>The library writes into the memory it was given, or into a larger one of its own.\<close>

definition encodeBuffer ::
    "(byte list list \<Rightarrow> byte list) \<Rightarrow> byte list \<Rightarrow> sw_encoder \<Rightarrow> sw_encoder \<times> encoder_buffer option" where
  "encodeBuffer compress frame s = (case encoder_take_buffer s of
     (None, s1) \<Rightarrow> (s1, None)
   | (Some b0, s1) \<Rightarrow>
       let b = ResetSize b0; w = enc_width s1; h = enc_height s1;
           jpeg = compress (load_rows w (encoder_rows w h) frame);
           memory = (if length jpeg \<le> eb_size b then store_at (eb_memory b) 0 jpeg else jpeg)
       in (s1, Some (b\<lparr>eb_memory := memory, eb_size := length jpeg\<rparr>)))"

text \<open>One turn of the thread: it ends when told to stop (leaving the compressor undestroyed), waits while
  there is no frame, and sends what it encoded.\<close>

definition encoder_turn ::
    "(byte list list \<Rightarrow> byte list) \<Rightarrow> sw_encoder \<Rightarrow> sw_encoder \<times> encoder_buffer option" where
  "encoder_turn compress s = (case encoder_next_frame s of
     None \<Rightarrow> (s, None) | Some (frame, s1) \<Rightarrow> encodeBuffer compress frame s1)"

section \<open>The decoder\<close>

record decoder_buffer =
  db_index :: nat
  db_fd :: int
  db_memory :: "byte list"

record sw_decoder =
  dec_width :: nat
  dec_height :: nat
  dec_work_stop :: bool
  dec_work_thread :: bool
  dec_work_queue :: "byte list list"
  dec_downstream :: "decoder_buffer list"

text \<open>What the kernel driver answers when a capture buffer is set up: its memory and descriptor, or a
  failed call. Fewer buffers than requested, or any failure, is an exception.\<close>

fun setup_buffers :: "(nat \<Rightarrow> (byte list \<times> int) option) \<Rightarrow> nat list \<Rightarrow> decoder_buffer list option" where
  "setup_buffers driver [] = Some []"
| "setup_buffers driver (i # ks) = (case driver i of
     None \<Rightarrow> None
   | Some (mem, fd) \<Rightarrow> map_option (Cons \<lparr>db_index = i, db_fd = fd, db_memory = mem\<rparr>) (setup_buffers driver ks))"

definition decoder_setup_buffers ::
    "nat option \<Rightarrow> (nat \<Rightarrow> (byte list \<times> int) option) \<Rightarrow> nat \<Rightarrow> string + decoder_buffer list" where [simp]:
  "decoder_setup_buffers granted driver n = (case granted of
     None \<Rightarrow> Inl ''request for output buffers failed''
   | Some got \<Rightarrow> if got \<noteq> n then Inl ''Unable to return capture buffers''
       else (case setup_buffers driver [0..<n] of
               None \<Rightarrow> Inl ''failed to set up a capture buffer'' | Some bs \<Rightarrow> Inr bs))"

definition SwDecoder ::
    "bool \<Rightarrow> nat option \<Rightarrow> (nat \<Rightarrow> (byte list \<times> int) option) \<Rightarrow> nat \<Rightarrow> nat \<Rightarrow> nat \<Rightarrow> string + sw_decoder" where
  "SwDecoder format_ok granted driver w h downstream_count =
     (if \<not> format_ok then Inl ''failed to set capture caps''
      else case decoder_setup_buffers granted driver downstream_count of
        Inl e \<Rightarrow> Inl e
      | Inr bs \<Rightarrow> Inr \<lparr>dec_width = w, dec_height = h, dec_work_stop = True,
          dec_work_thread = False, dec_work_queue = [], dec_downstream = bs\<rparr>)"

definition StartDecoder :: "sw_decoder \<Rightarrow> sw_decoder" where
  "StartDecoder s = (if \<not> dec_work_stop s then s else s\<lparr>dec_work_stop := False, dec_work_thread := True\<rparr>)"

definition StopDecoder :: "sw_decoder \<Rightarrow> sw_decoder" where
  "StopDecoder s = (if dec_work_stop s then s
     else s\<lparr>dec_work_stop := True, dec_work_thread := False, dec_work_queue := []\<rparr>)"

definition PostJpegBuffer :: "byte list \<Rightarrow> sw_decoder \<Rightarrow> sw_decoder" where
  "PostJpegBuffer jpeg s = (if dec_work_stop s then s
     else s\<lparr>dec_work_queue := dec_work_queue s @ [jpeg]\<rparr>)"

definition decoder_next_image :: "sw_decoder \<Rightarrow> (byte list \<times> sw_decoder) option" where
  "decoder_next_image s = (if dec_work_stop s then None
     else case dec_work_queue s of [] \<Rightarrow> None | jpeg # rest \<Rightarrow> Some (jpeg, s\<lparr>dec_work_queue := rest\<rparr>))"

definition decoder_take_buffer :: "sw_decoder \<Rightarrow> decoder_buffer option \<times> sw_decoder" where
  "decoder_take_buffer s = (case dec_downstream s of
     [] \<Rightarrow> (None, s) | b # rest \<Rightarrow> (Some b, s\<lparr>dec_downstream := rest\<rparr>))"

definition decoder_queueDownstreamBuffer :: "decoder_buffer \<Rightarrow> sw_decoder \<Rightarrow> sw_decoder" where
  "decoder_queueDownstreamBuffer b s = s\<lparr>dec_downstream := dec_downstream s @ [b]\<rparr>"

text \<open>\<open>Dropped\<close>: there was no buffer; the library complains that it is told to finish before a line was
  read, which the thread catches as it does the errors, with nothing taken.\<close>

datatype decode_result = DecodeError | Dropped | Sent decoder_buffer

definition decodeBuffer ::
    "(byte list \<Rightarrow> bool) \<Rightarrow> (byte list \<Rightarrow> byte list list option) \<Rightarrow> byte list \<Rightarrow> sw_decoder \<Rightarrow>
     sw_decoder \<times> decode_result" where
  "decodeBuffer header decompress jpeg s =
     (if \<not> header jpeg then (s, DecodeError)
      else case decoder_take_buffer s of
        (None, s1) \<Rightarrow> (s1, Dropped)
      | (Some b, s1) \<Rightarrow> (case decompress jpeg of
          None \<Rightarrow> (s1, DecodeError)
        | Some rows \<Rightarrow> let w = dec_width s1; h = dec_height s1 in
            (s1, Sent (b\<lparr>db_memory := store_rows w (decoder_rows w h) rows (db_memory b)\<rparr>))))"

text \<open>One turn of the thread; an error is logged and the next image gets a new decompressor.\<close>

definition decoder_turn ::
    "(byte list \<Rightarrow> bool) \<Rightarrow> (byte list \<Rightarrow> byte list list option) \<Rightarrow> sw_decoder \<Rightarrow>
     sw_decoder \<times> decode_result option" where
  "decoder_turn header decompress s = (case decoder_next_image s of
     None \<Rightarrow> (s, None)
   | Some (jpeg, s1) \<Rightarrow> (case decodeBuffer header decompress jpeg s1 of (s2, r) \<Rightarrow> (s2, Some r)))"

section \<open>Both are workers with a pool\<close>

interpretation encoder_worker: worker StartEncoder StopEncoder enc_work_stop enc_work_thread
  PostCameraBuffer encoder_next_frame enc_work_queue
  by unfold_locales
     (auto simp: StartEncoder_def StopEncoder_def PostCameraBuffer_def encoder_next_frame_def)

interpretation decoder_worker: worker StartDecoder StopDecoder dec_work_stop dec_work_thread
  PostJpegBuffer decoder_next_image dec_work_queue
  by unfold_locales
     (auto simp: StartDecoder_def StopDecoder_def PostJpegBuffer_def decoder_next_image_def)

interpretation encoder_pool: buffer_pool enc_downstream encoder_take_buffer encoder_queueDownstreamBuffer
  by unfold_locales (auto simp: encoder_take_buffer_def encoder_queueDownstreamBuffer_def)

interpretation decoder_pool: buffer_pool dec_downstream decoder_take_buffer decoder_queueDownstreamBuffer
  by unfold_locales (auto simp: decoder_take_buffer_def decoder_queueDownstreamBuffer_def)

section \<open>Threads and queues\<close>

text \<open>C18 (refinement): whatever starts, stops, frames and turns follow one another, the encoder and the
  decoder behave as the queue of the specification: their thread exists exactly while they run, work is
  taken in the order it was posted, work posted while stopped is ignored, and stopping drops the rest.\<close>

theorem codec_workers_are_queues:
  "(let s = fold encoder_worker.worker_step es (SwEncoder junk w h n) in
      (\<not> enc_work_stop s, enc_work_queue s) = fold worker_spec es (False, []) \<and>
      (enc_work_thread s \<longleftrightarrow> \<not> enc_work_stop s)) \<and>
   (SwDecoder ok granted driver w h n = Inr d \<longrightarrow>
     (let s = fold decoder_worker.worker_step es d in
      (\<not> dec_work_stop s, dec_work_queue s) = fold worker_spec es (False, []) \<and>
      (dec_work_thread s \<longleftrightarrow> \<not> dec_work_stop s)))"
proof -
  let ?e = "SwEncoder junk w h n"
  have "encoder_worker.worker_ok ?e" by (simp add: encoder_worker.worker_ok_def SwEncoder_def)
  from encoder_worker.worker_implements_spec [OF this, of es]
  have "(let s = fold encoder_worker.worker_step es ?e in
      (\<not> enc_work_stop s, enc_work_queue s) = fold worker_spec es (False, []) \<and>
      (enc_work_thread s \<longleftrightarrow> \<not> enc_work_stop s))"
    by (simp add: encoder_worker.worker_ok_def SwEncoder_def Let_def)
  moreover have "(let s = fold decoder_worker.worker_step es d in
      (\<not> dec_work_stop s, dec_work_queue s) = fold worker_spec es (False, []) \<and>
      (dec_work_thread s \<longleftrightarrow> \<not> dec_work_stop s))" if "SwDecoder ok granted driver w h n = Inr d"
  proof -
    have d: "dec_work_stop d" "dec_work_queue d = []" "\<not> dec_work_thread d"
      using that by (auto simp: SwDecoder_def split: if_splits option.splits)
    then have "decoder_worker.worker_ok d" by (simp add: decoder_worker.worker_ok_def)
    from decoder_worker.worker_implements_spec [OF this, of es] d
    show ?thesis by (simp add: decoder_worker.worker_ok_def Let_def)
  qed
  ultimately show ?thesis by blast
qed

definition demo_decoder :: "nat \<Rightarrow> sw_decoder" where
  "demo_decoder n = \<lparr>dec_width = 2, dec_height = 16, dec_work_stop = True, dec_work_thread = False,
     dec_work_queue = [], dec_downstream = map (\<lambda>i. \<lparr>db_index = i, db_fd = int i, db_memory = replicate 48 0\<rparr>) [0..<n]\<rparr>"

lemma demo_decoder_created:
  "SwDecoder True (Some 2) (\<lambda>i. Some (replicate 48 0, int i)) 2 16 2 = Inr (demo_decoder 2)"
  by (simp add: SwDecoder_def demo_decoder_def upt_rec)

theorem codec_workers_are_queues_witness:
  "dec_work_queue (fold decoder_worker.worker_step [WPush [1], WStart, WPush [2], WPush [3], WTake]
     (demo_decoder 2)) = [[3]]"
  using codec_workers_are_queues [where es = "[WPush [1], WStart, WPush [2], WPush [3], WTake]"
      and d = "demo_decoder 2" and ok = True and granted = "Some 2" and w = 2 and h = 16 and n = 2
      and driver = "\<lambda>i. Some (replicate 48 0, int i)"] demo_decoder_created
  by (simp add: Let_def)

section \<open>Buffers in and out\<close>

text \<open>Frames to work on, and buffers the receivers give back (the \<open>i\<close>-th of those that are out).\<close>

datatype pool_event = Work "byte list" | GiveBack nat

fun encoder_run ::
    "(byte list list \<Rightarrow> byte list) \<Rightarrow> pool_event list \<Rightarrow> sw_encoder \<times> encoder_buffer list \<Rightarrow>
     sw_encoder \<times> encoder_buffer list" where
  "encoder_run compress [] (s, out) = (s, out)"
| "encoder_run compress (Work frame # es) (s, out) = (case encodeBuffer compress frame s of
     (s1, None) \<Rightarrow> encoder_run compress es (s1, out)
   | (s1, Some b) \<Rightarrow> encoder_run compress es (s1, out @ [b]))"
| "encoder_run compress (GiveBack i # es) (s, out) =
     (if i < length out
      then encoder_run compress es
        (encoder_queueDownstreamBuffer (out ! i) s, take i out @ drop (Suc i) out)
      else encoder_run compress es (s, out))"

lemma encoder_run_count:
  "encoder_run compress es (s, out) = (s', out') \<Longrightarrow>
   length (enc_downstream s') + length out' = length (enc_downstream s) + length out"
proof (induction es "(s, out)" arbitrary: s out rule: encoder_run.induct)
  case (2 compress frame es s out)
  then show ?case
    by (cases "enc_downstream s") (auto simp: encodeBuffer_def encoder_take_buffer_def Let_def)
next
  case (3 compress i es s out)
  then show ?case by (auto simp: encoder_queueDownstreamBuffer_def split: if_splits)
qed simp

text \<open>The encoder never loses a buffer: after any frames and returns, the buffers in its
  pool and those out with the receivers are as many as it made, and a camera frame is dropped exactly
  while all of them are out.\<close>

theorem encoder_keeps_its_buffers:
  assumes "encoder_run compress es (SwEncoder junk w h n, []) = (s, out)"
  shows "length (enc_downstream s) + length out = n \<and>
    (snd (encodeBuffer compress frame s) = None \<longleftrightarrow> length out = n)"
  using encoder_run_count [OF assms]
  by (cases "enc_downstream s")
     (auto simp: SwEncoder_def encodeBuffer_def encoder_take_buffer_def Let_def)

theorem encoder_keeps_its_buffers_witness:
  "snd (encodeBuffer (\<lambda>_. [1]) [] (fst (encoder_run (\<lambda>_. [1]) [Work [], Work [], GiveBack 0, Work []]
     (SwEncoder (\<lambda>_. 0) 2 2 2, [])))) = None"
proof -
  let ?r = "encoder_run (\<lambda>_. [1]) [Work [], Work [], GiveBack 0, Work []] (SwEncoder (\<lambda>_. 0) 2 2 2, [])"
  have "length (snd ?r) = 2"
    by (simp add: SwEncoder_def encodeBuffer_def encoder_take_buffer_def encoder_queueDownstreamBuffer_def
        Let_def upt_rec)
  with encoder_keeps_its_buffers [of "\<lambda>_. [1]" "[Work [], Work [], GiveBack 0, Work []]" "\<lambda>_. 0" 2 2 2
      "fst ?r" "snd ?r" "[]"] show ?thesis by simp
qed

text \<open>The decoder, with the number of images that failed after a buffer was taken.\<close>

fun decoder_run ::
    "(byte list \<Rightarrow> bool) \<Rightarrow> (byte list \<Rightarrow> byte list list option) \<Rightarrow> pool_event list \<Rightarrow>
     sw_decoder \<times> decoder_buffer list \<times> nat \<Rightarrow> sw_decoder \<times> decoder_buffer list \<times> nat" where
  "decoder_run header decompress [] (s, out, failed) = (s, out, failed)"
| "decoder_run header decompress (Work jpeg # es) (s, out, failed) =
     (case decodeBuffer header decompress jpeg s of
        (s1, Sent b) \<Rightarrow> decoder_run header decompress es (s1, out @ [b], failed)
      | (s1, DecodeError) \<Rightarrow> decoder_run header decompress es
          (s1, out, if header jpeg then Suc failed else failed)
      | (s1, Dropped) \<Rightarrow> decoder_run header decompress es (s1, out, failed))"
| "decoder_run header decompress (GiveBack i # es) (s, out, failed) =
     (if i < length out
      then decoder_run header decompress es
        (decoder_queueDownstreamBuffer (out ! i) s, take i out @ drop (Suc i) out, failed)
      else decoder_run header decompress es (s, out, failed))"

lemma decoder_run_count:
  "decoder_run header decompress es (s, out, failed) = (s', out', failed') \<Longrightarrow>
   length (dec_downstream s') + length out' + failed' = length (dec_downstream s) + length out + failed"
proof (induction es arbitrary: s out failed)
  case (Cons e es)
  show ?case
  proof (cases e)
    case (Work jpeg)
    with Cons show ?thesis
      by (cases "dec_downstream s"; cases "decompress jpeg"; cases "header jpeg")
         (force simp: decodeBuffer_def decoder_take_buffer_def Let_def)+
  next
    case (GiveBack i)
    with Cons show ?thesis by (force simp: decoder_queueDownstreamBuffer_def split: if_splits)
  qed
qed simp

lemma decoder_run_failed_grows:
  "decoder_run header decompress es (s, out, failed) = (s', out', failed') \<Longrightarrow> failed \<le> failed'"
proof (induction es arbitrary: s out failed)
  case (Cons e es)
  show ?case
  proof (cases e)
    case (Work jpeg)
    with Cons.prems show ?thesis
      by (auto split: prod.splits decode_result.splits if_splits dest!: Cons.IH)
  next
    case (GiveBack i)
    with Cons show ?thesis by (auto split: if_splits)
  qed
qed simp

text \<open>C35 (error): the decoder loses a buffer for every image that fails after its header was read: it is
  neither in the pool nor out. After as many such images as it has buffers, no image is ever shown
  again, whatever is posted or given back.\<close>

theorem decoder_errors_drain_the_pool:
  assumes "SwDecoder ok granted driver w h n = Inr d"
    and "decoder_run header decompress es (d, [], 0) = (s, out, failed)"
  shows "length (dec_downstream s) + length out + failed = n \<and>
    (failed = n \<longrightarrow> (\<forall>es' jpeg b. snd (decodeBuffer header decompress jpeg
       (fst (decoder_run header decompress es' (s, out, failed)))) \<noteq> Sent b))"
proof -
  have made: "setup_buffers driver ks = Some bs \<Longrightarrow> length bs = length ks" for ks bs
    by (induction ks arbitrary: bs) (auto split: option.splits)
  have "length (dec_downstream d) = n"
    using assms(1) made by (auto simp: SwDecoder_def split: if_splits option.splits)
  then have count: "length (dec_downstream s) + length out + failed = n"
    using decoder_run_count [OF assms(2)] by simp
  moreover have "snd (decodeBuffer header decompress jpeg
       (fst (decoder_run header decompress es' (s, out, failed)))) \<noteq> Sent b"
    if "failed = n" for es' jpeg b
  proof -
    obtain s' out' failed' where r: "decoder_run header decompress es' (s, out, failed) = (s', out', failed')"
      by (cases "decoder_run header decompress es' (s, out, failed)") auto
    have "failed \<le> failed'" by (rule decoder_run_failed_grows [OF r])
    then have "length (dec_downstream s') = 0" using decoder_run_count [OF r] count that by linarith
    then have "dec_downstream s' = []" by simp
    then show ?thesis using r by (simp add: decodeBuffer_def decoder_take_buffer_def)
  qed
  ultimately show ?thesis by blast
qed

theorem decoder_errors_drain_the_pool_witness:
  "\<forall>es' jpeg b. snd (decodeBuffer (\<lambda>_. True) (\<lambda>j. if j = [] then None else Some []) jpeg
     (fst (decoder_run (\<lambda>_. True) (\<lambda>j. if j = [] then None else Some []) es'
       (decoder_run (\<lambda>_. True) (\<lambda>j. if j = [] then None else Some []) [Work [], Work []]
         (demo_decoder 2, [], 0))))) \<noteq> Sent b"
proof -
  let ?d = "\<lambda>j :: byte list. if j = [] then None else Some ([] :: byte list list)"
  obtain s out failed where r: "decoder_run (\<lambda>_. True) ?d [Work [], Work []] (demo_decoder 2, [], 0) =
      (s, out, failed)" by (cases "decoder_run (\<lambda>_. True) ?d [Work [], Work []] (demo_decoder 2, [], 0)") auto
  have "failed = 2"
    using r by (simp add: decodeBuffer_def decoder_take_buffer_def demo_decoder_def upt_rec)
  with decoder_errors_drain_the_pool [OF demo_decoder_created r] show ?thesis unfolding r by blast
qed

section \<open>Memory\<close>

lemma store_segments_length:
  assumes "map length rows = map snd segs" "\<forall>(r, n) \<in> set segs. r + n \<le> length mem"
  shows "length (fold (\<lambda>((r, n), bs) m. store_at m r bs) (zip segs rows) mem) = length mem"
  using assms
proof (induction segs arbitrary: rows mem)
  case (Cons x segs)
  then obtain bs rows' where r: "rows = bs # rows'" by (cases rows) auto
  obtain p n where x: "x = (p, n)" by (cases x)
  have "length (store_at mem p bs) = length mem" using Cons.prems r x by simp
  with Cons.IH [of rows' "store_at mem p bs"] Cons.prems r x show ?case by auto
qed simp

definition buffers_sized :: "nat \<Rightarrow> nat \<Rightarrow> sw_decoder \<times> decoder_buffer list \<Rightarrow> bool" where
  "buffers_sized w h r \<longleftrightarrow> dec_width (fst r) = w \<and> dec_height (fst r) = h \<and>
     (\<forall>b \<in> set (dec_downstream (fst r)) \<union> set (snd r). length (db_memory b) = frame_size w h)"

lemma decoder_run_sized:
  assumes rows: "\<And>jpeg rows. decompress jpeg = Some rows \<Longrightarrow>
      map length rows = map snd (segments w (decoder_rows w h))"
    and h: "16 dvd h"
  shows "decoder_run header decompress es (s, out, failed) = (s', out', failed') \<Longrightarrow>
    buffers_sized w h (s, out) \<Longrightarrow> buffers_sized w h (s', out')"
proof (induction es arbitrary: s out failed)
  case (Cons e es)
  note run = Cons.prems(1) and sized = Cons.prems(2)
  show ?case
  proof (cases e)
    case (GiveBack i)
    show ?thesis
    proof (cases "i < length out")
      case True
      then have "out ! i \<in> set out" by simp
      then have "buffers_sized w h (decoder_queueDownstreamBuffer (out ! i) s, take i out @ drop (Suc i) out)"
        using sized by (auto simp: buffers_sized_def decoder_queueDownstreamBuffer_def
            dest!: in_set_takeD in_set_dropD)
      with Cons.IH run GiveBack True show ?thesis by simp
    qed (use Cons run GiveBack in simp)
  next
    case (Work jpeg)
    obtain s1 r where b: "decodeBuffer header decompress jpeg s = (s1, r)" by fastforce
    have pool: "buffers_sized w h (s1, out)"
      using b sized by (auto simp: buffers_sized_def decodeBuffer_def decoder_take_buffer_def Let_def
          split: if_splits list.splits option.splits)
    have wh: "dec_width s = w" "dec_height s = h" using sized by (simp_all add: buffers_sized_def)
    have "length (db_memory x) = frame_size w h" if sent: "r = Sent x" for x
    proof -
      obtain y ys rs where y: "dec_downstream s = y # ys" "decompress jpeg = Some rs"
        "x = y\<lparr>db_memory := store_rows w (decoder_rows w h) rs (db_memory y)\<rparr>"
        using b [unfolded sent] wh
        by (cases "dec_downstream s"; cases "decompress jpeg"; cases "header jpeg")
           (auto simp: decodeBuffer_def decoder_take_buffer_def Let_def)
      have "length (db_memory y) = frame_size w h" using sized y(1) by (simp add: buffers_sized_def)
      with store_segments_length [OF rows [OF y(2)], of "db_memory y"] decoder_writes_inside [OF h, of _ _ w] y(3)
      show ?thesis by (auto simp: store_rows_def)
    qed
    with pool have "buffers_sized w h (s1, case r of Sent x \<Rightarrow> out @ [x] | _ \<Rightarrow> out)"
      by (auto simp: buffers_sized_def split: decode_result.split)
    with Cons.IH [of s1] run Work b show ?thesis by (cases r) simp_all
  qed
qed simp



end
