(* ===== verification/Headset_Domain.thy ===== *)
theory Headset_Domain
  imports Prelude
begin

text \<open>
  \<open>src/internal/domain/headset_domain.hpp\<close> and \<open>message.cpp\<close>: the connection state of a headset and
  the messages it sends to the server. A JSON value is the tree \<open>nlohmann::json\<close> holds; the C++
  conversion of a floating point number to \<open>int\<close> is a parameter.
\<close>

section \<open>The state of a headset\<close>

datatype headset_states = CONNECTING | READY | RUNNING | CLOSING

record headset_state =
  tcp_is_connected :: bool
  websocket_is_connected :: bool
  hd_state :: headset_states

definition HeadsetState :: headset_state where
  "HeadsetState = \<lparr>tcp_is_connected = False, websocket_is_connected = False, hd_state = CONNECTING\<rparr>"

definition GetState :: "headset_state \<Rightarrow> headset_states" where
  "GetState s = hd_state s"

definition PostState :: "headset_states \<Rightarrow> headset_state \<Rightarrow> headset_state" where
  "PostState st s = s\<lparr>hd_state := st\<rparr>"

definition PostTcpConnection :: "bool \<Rightarrow> headset_state \<Rightarrow> headset_state \<times> bool \<times> headset_states" where
  "PostTcpConnection is_connected s =
     (if hd_state s = CLOSING then (s, False, hd_state s)
      else
        let last_state = hd_state s;
            s1 = (if \<not> is_connected then
                    (if last_state = READY \<or> last_state = RUNNING then s\<lparr>hd_state := CONNECTING\<rparr> else s)
                  else if last_state = CONNECTING \<and> websocket_is_connected s
                  then s\<lparr>hd_state := READY\<rparr> else s);
            s2 = s1\<lparr>tcp_is_connected := is_connected\<rparr>
        in (s2, last_state \<noteq> hd_state s2, hd_state s2))"

definition PostWebsocketConnection ::
    "bool \<Rightarrow> headset_state \<Rightarrow> headset_state \<times> bool \<times> headset_states" where
  "PostWebsocketConnection is_connected s =
     (if hd_state s = CLOSING then (s, False, hd_state s)
      else
        let last_state = hd_state s;
            s1 = (if \<not> is_connected then
                    (if last_state = READY \<or> last_state = RUNNING then s\<lparr>hd_state := CONNECTING\<rparr> else s)
                  else if last_state = CONNECTING \<and> tcp_is_connected s
                  then s\<lparr>hd_state := READY\<rparr> else s);
            s2 = s1\<lparr>websocket_is_connected := is_connected\<rparr>
        in (s2, last_state \<noteq> hd_state s2, hd_state s2))"

text \<open>What the state is for: the headset is ready or running exactly while both connections are up.\<close>

definition state_ok :: "headset_state \<Rightarrow> bool" where
  "state_ok s \<longleftrightarrow> hd_state s \<noteq> CLOSING \<and>
     (hd_state s = CONNECTING \<longleftrightarrow> \<not> (tcp_is_connected s \<and> websocket_is_connected s))"

datatype headset_input = TcpUp bool | WebsocketUp bool | Toggle

text \<open>\<open>Toggle\<close> is the one change the service posts by itself while it runs: between ready and running.\<close>

fun headset_input_step :: "headset_input \<Rightarrow> headset_state \<Rightarrow> headset_state" where
  "headset_input_step (TcpUp b) s = fst (PostTcpConnection b s)"
| "headset_input_step (WebsocketUp b) s = fst (PostWebsocketConnection b s)"
| "headset_input_step Toggle s = (case GetState s of
     READY \<Rightarrow> PostState RUNNING s | RUNNING \<Rightarrow> PostState READY s | _ \<Rightarrow> s)"

definition last_tcp :: "headset_input list \<Rightarrow> bool" where
  "last_tcp es = fold (\<lambda>e b. case e of TcpUp x \<Rightarrow> x | _ \<Rightarrow> b) es False"

definition last_websocket :: "headset_input list \<Rightarrow> bool" where
  "last_websocket es = fold (\<lambda>e b. case e of WebsocketUp x \<Rightarrow> x | _ \<Rightarrow> b) es False"

lemma state_ok_step:
  assumes "state_ok s"
  shows "state_ok (headset_input_step e s) \<and>
    tcp_is_connected (headset_input_step e s) = (case e of TcpUp x \<Rightarrow> x | _ \<Rightarrow> tcp_is_connected s) \<and>
    websocket_is_connected (headset_input_step e s) =
      (case e of WebsocketUp x \<Rightarrow> x | _ \<Rightarrow> websocket_is_connected s)"
  using assms
  by (cases e; cases "hd_state s")
     (auto simp: state_ok_def PostTcpConnection_def PostWebsocketConnection_def PostState_def
       GetState_def Let_def)

lemma state_ok_run:
  assumes "state_ok s"
  shows "state_ok (fold headset_input_step es s) \<and>
    tcp_is_connected (fold headset_input_step es s) =
      fold (\<lambda>e b. case e of TcpUp x \<Rightarrow> x | _ \<Rightarrow> b) es (tcp_is_connected s) \<and>
    websocket_is_connected (fold headset_input_step es s) =
      fold (\<lambda>e b. case e of WebsocketUp x \<Rightarrow> x | _ \<Rightarrow> b) es (websocket_is_connected s)"
  using assms
proof (induction es arbitrary: s)
  case (Cons e es)
  from state_ok_step [OF Cons.prems, of e] Cons.IH [of "headset_input_step e s"]
  show ?case by simp
qed simp

text \<open>After any sequence of connection changes and toggles, each taken as a whole, the
  headset is ready or running exactly when the last report of the TCP connection and the last report
  of the websocket both said connected.\<close>

theorem ready_iff_both_connected:
  "hd_state (fold headset_input_step es HeadsetState) \<in> {READY, RUNNING} \<longleftrightarrow>
     last_tcp es \<and> last_websocket es"
proof -
  have "state_ok HeadsetState" by (simp add: state_ok_def HeadsetState_def)
  from state_ok_run [OF this, of es] show ?thesis
    by (cases "hd_state (fold headset_input_step es HeadsetState)")
       (auto simp: state_ok_def last_tcp_def last_websocket_def HeadsetState_def)
qed

text \<open>Two ways the state lies. A disconnection reported while the headset is closing is
  forgotten, so after a restart the first connection alone makes it ready; and a toggle is two lock
  sections (read, then post): a disconnection between them is overwritten, the headset is running
  without a connection, and no later connection report changes that state.\<close>

theorem headset_state_lies:
  "(let s = fold headset_input_step [TcpUp True, WebsocketUp True] HeadsetState;
        closed = fst (PostWebsocketConnection False (fst (PostTcpConnection False (PostState CLOSING s))));
        restarted = PostState CONNECTING closed in
      hd_state (fst (PostWebsocketConnection True restarted)) = READY) \<and>
   (let s = fold headset_input_step [TcpUp True, WebsocketUp True] HeadsetState;
        lost = fst (PostTcpConnection False s);
        raced = PostState RUNNING lost in
      GetState s = READY \<and> hd_state raced = RUNNING \<and> \<not> tcp_is_connected raced \<and>
      hd_state (fst (PostTcpConnection True raced)) = RUNNING \<and>
      \<not> fst (snd (PostTcpConnection True raced)))"
  by (simp add: PostTcpConnection_def PostWebsocketConnection_def PostState_def HeadsetState_def
      GetState_def Let_def)

section \<open>Messages\<close>

datatype 'f json =
  JNull | JBool bool | JInt int | JFloat 'f | JString string | JArray "'f json list"
| JObject "(string \<times> 'f json) list"

datatype domain_message = HeadsetRotateCamera | HeadsetResetCamera

datatype json_error = TypeError | OutOfRange

text \<open>\<open>json::at\<close>.\<close>

definition json_at :: "string \<Rightarrow> 'f json \<Rightarrow> json_error + 'f json" where
  "json_at k j = (case j of
     JObject kvs \<Rightarrow> (case map_of kvs k of None \<Rightarrow> Inl OutOfRange | Some v \<Rightarrow> Inr v)
   | _ \<Rightarrow> Inl TypeError)"

text \<open>\<open>get<MessageType>()\<close>: any number, converted to the underlying \<open>int\<close>; a 64-bit integer is cut to
  its low 32 bits.\<close>

definition to_int32 :: "int \<Rightarrow> int" where
  "to_int32 i = sint (of_int i :: 32 word)"

definition json_get_int :: "('f \<Rightarrow> int) \<Rightarrow> 'f json \<Rightarrow> json_error + int" where
  "json_get_int float_to_int j = (case j of
     JInt i \<Rightarrow> Inr (to_int32 i) | JFloat f \<Rightarrow> Inr (float_to_int f) | _ \<Rightarrow> Inl TypeError)"

definition MessageType :: "domain_message \<Rightarrow> int" where
  "MessageType m = (case m of HeadsetRotateCamera \<Rightarrow> 0 | HeadsetResetCamera \<Rightarrow> 1)"

definition GetMessagePayload :: "domain_message \<Rightarrow> 'f json" where
  "GetMessagePayload m = JInt 1"

definition GetMessage :: "domain_message \<Rightarrow> 'f json" where
  "GetMessage m = JObject
     [(''message_type'', JInt (MessageType m)), (''message_payload'', GetMessagePayload m)]"

text \<open>\<open>TryCreate\<close> of either message ignores the payload. A null result and a caught JSON exception are
  both \<open>None\<close>.\<close>

definition TryParseMessage :: "('f \<Rightarrow> int) \<Rightarrow> 'f json \<Rightarrow> domain_message option" where
  "TryParseMessage float_to_int j =
     (case json_at ''message_type'' j of
        Inl e \<Rightarrow> None
      | Inr t \<Rightarrow> (case json_get_int float_to_int t of
          Inl e \<Rightarrow> None
        | Inr i \<Rightarrow>
            if i = 0 then
              (case json_at ''message_payload'' j of Inl e \<Rightarrow> None | Inr p \<Rightarrow> Some HeadsetRotateCamera)
            else if i = 1 then
              (case json_at ''message_payload'' j of Inl e \<Rightarrow> None | Inr p \<Rightarrow> Some HeadsetResetCamera)
            else None))"

text \<open>A message survives being written as JSON and parsed; and parsing accepts exactly
  the objects with a payload whose message type is a number converting to 0 or 1, so that any
  multiple of \<open>2 ^ 32\<close> is a rotation too.\<close>

theorem message_roundtrip:
  "TryParseMessage fi (GetMessage m) = Some m \<and>
   (TryParseMessage fi j = Some m \<longleftrightarrow>
      (\<exists>kvs p t. j = JObject kvs \<and> map_of kvs ''message_payload'' = Some p \<and>
         map_of kvs ''message_type'' = Some t \<and> json_get_int fi t = Inr (MessageType m))) \<and>
   TryParseMessage fi (JObject [(''message_type'', JInt (2 ^ 32 * k)), (''message_payload'', JNull)]) =
     Some HeadsetRotateCamera"
proof -
  have small: "to_int32 0 = 0" "to_int32 1 = 1" by (simp_all add: to_int32_def)
  have big: "to_int32 (2 ^ 32 * k) = 0"
  proof -
    have "(of_int (2 ^ 32 * k) :: 32 word) = 0" by (simp add: word_of_int_eq_0_iff flip: of_int_mult)
    then show ?thesis by (simp add: to_int32_def)
  qed
  have "TryParseMessage fi (GetMessage m) = Some m"
    by (cases m) (simp_all add: TryParseMessage_def GetMessage_def json_at_def json_get_int_def
        MessageType_def small)
  moreover have "TryParseMessage fi j = Some m \<longleftrightarrow>
      (\<exists>kvs p t. j = JObject kvs \<and> map_of kvs ''message_payload'' = Some p \<and>
         map_of kvs ''message_type'' = Some t \<and> json_get_int fi t = Inr (MessageType m))"
    by (cases j; cases m)
       (auto simp: TryParseMessage_def json_at_def MessageType_def split: option.splits sum.splits)
  moreover have "TryParseMessage fi (JObject [(''message_type'', JInt (2 ^ 32 * k)),
      (''message_payload'', JNull)]) = Some HeadsetRotateCamera"
    using big by (simp add: TryParseMessage_def json_at_def json_get_int_def)
  ultimately show ?thesis by blast
qed

end
