(* ===== verification/Graphics.thy ===== *)
theory Graphics
  imports Sw_Codec Headset_Domain
begin

text \<open>
  \<open>src/internal/infrastructure/graphics/headset_graphics.cpp\<close> and \<open>display_graphics.cpp\<close>: the thread that
  draws, the queue of decoded images and what is on the screen. The calls to GLFW, EGL and GLES set a
  context up and are not modelled; \<open>imported\<close> says whether EGL takes a descriptor as an image.
\<close>

section \<open>Textures\<close>

record egl_buffer =
  egl_fd :: int
  egl_size :: nat
  egl_texture :: bool

text \<open>The planes of the image as EGL is told: descriptor, offset and pitch of each.\<close>

definition plane_attribs :: "nat \<Rightarrow> nat \<Rightarrow> (nat \<times> nat) list" where
  "plane_attribs w h = [(0, w), (w * h, w div 2), (w * h + (w div 2) * (h div 2), w div 2)]"

definition makeBuffer :: "(int \<Rightarrow> bool) \<Rightarrow> int \<Rightarrow> nat \<Rightarrow> egl_buffer" where
  "makeBuffer imported fd sz = \<lparr>egl_fd = fd, egl_size = sz, egl_texture = imported fd\<rparr>"

text \<open>\<open>_buffers[fd]\<close>, made on its first use.\<close>

definition buffer_for ::
    "(int \<Rightarrow> bool) \<Rightarrow> decoder_buffer \<Rightarrow> (int \<Rightarrow> egl_buffer option) \<Rightarrow> egl_buffer \<times> (int \<Rightarrow> egl_buffer option)" where
  "buffer_for imported data buffers = (case buffers (db_fd data) of
     Some b \<Rightarrow> (b, buffers)
   | None \<Rightarrow> let b = makeBuffer imported (db_fd data) (length (db_memory data))
       in (b, buffers(db_fd data \<mapsto> b)))"

section \<open>The headset's graphics\<close>

datatype drawn = ConnectingScreen | ReadyScreen | ImageTexture egl_buffer | Black

record headset_graphics =
  hg_stop_running :: bool
  hg_thread :: bool
  hg_is_ready :: bool
  hg_is_display :: bool
  hg_state :: headset_states
  hg_last_state :: headset_states
  hg_image_queue :: "decoder_buffer list"
  hg_buffers :: "int \<Rightarrow> egl_buffer option"
  hg_egl_buffer :: "egl_buffer option"

definition HeadsetGraphics :: headset_graphics where
  "HeadsetGraphics = \<lparr>hg_stop_running = True, hg_thread = False, hg_is_ready = False,
     hg_is_display = False, hg_state = CONNECTING, hg_last_state = CONNECTING, hg_image_queue = [],
     hg_buffers = Map.empty, hg_egl_buffer = None\<rparr>"

definition hg_StartGraphics :: "headset_graphics \<Rightarrow> headset_graphics" where
  "hg_StartGraphics g = (if \<not> hg_stop_running g then g
     else g\<lparr>hg_stop_running := False, hg_thread := True\<rparr>)"

definition hg_StopGraphics :: "headset_graphics \<Rightarrow> headset_graphics" where
  "hg_StopGraphics g = (if hg_stop_running g then g
     else g\<lparr>hg_is_ready := False, hg_stop_running := True, hg_thread := False, hg_image_queue := []\<rparr>)"

interpretation headset_graphics_thread: work_thread hg_StartGraphics hg_StopGraphics hg_stop_running hg_thread
  by unfold_locales (auto simp: hg_StartGraphics_def hg_StopGraphics_def)

definition hg_PostImage :: "decoder_buffer \<Rightarrow> headset_graphics \<Rightarrow> headset_graphics" where
  "hg_PostImage b g = (if hg_is_ready g \<and> hg_is_display g
     then g\<lparr>hg_image_queue := hg_image_queue g @ [b]\<rparr> else g)"

definition PostGraphicsHeadsetState :: "headset_states \<Rightarrow> headset_graphics \<Rightarrow> headset_graphics" where
  "PostGraphicsHeadsetState st g = g\<lparr>hg_state := st\<rparr>"

text \<open>The thread reaches its loop when the window and the context are there, and leaves it when it is
  told to stop or the window is closed; then it starts over.\<close>

definition hg_enter_loop :: "headset_graphics \<Rightarrow> headset_graphics" where
  "hg_enter_loop g = g\<lparr>hg_is_ready := True, hg_last_state := CONNECTING\<rparr>"

definition hg_leave_loop :: "headset_graphics \<Rightarrow> headset_graphics" where
  "hg_leave_loop g = g\<lparr>hg_is_ready := False\<rparr>"

text \<open>\<open>handleRunningState\<close> drains the queue, keeps the texture of the newest image and draws it; the
  images give their buffers freed to the decoder (the second result).\<close>

definition handleRunningState ::
    "(int \<Rightarrow> bool) \<Rightarrow> headset_graphics \<Rightarrow> headset_graphics \<times> drawn \<times> decoder_buffer list" where
  "handleRunningState imported g =
     (let images = hg_image_queue g;
          g1 = g\<lparr>hg_image_queue := []\<rparr>;
          g2 = (if images = [] then g1
                else case buffer_for imported (last images) (hg_buffers g1) of
                  (b, bs) \<Rightarrow> g1\<lparr>hg_buffers := bs, hg_egl_buffer := Some b\<rparr>)
      in (g2, case hg_egl_buffer g2 of None \<Rightarrow> Black | Some b \<Rightarrow> ImageTexture b, images))"

text \<open>One turn of the loop: what is drawn, and the buffers given back.\<close>

definition hg_turn ::
    "(int \<Rightarrow> bool) \<Rightarrow> headset_graphics \<Rightarrow> headset_graphics \<times> drawn \<times> decoder_buffer list" where
  "hg_turn imported g =
     (let state = hg_state g; last_state = hg_last_state g; is_transition = (state \<noteq> last_state);
          (g1, cleared) =
            (if state = RUNNING \<and> \<not> is_transition then (g\<lparr>hg_is_display := True\<rparr>, [])
             else if last_state = RUNNING
             then (g\<lparr>hg_is_display := False, hg_image_queue := []\<rparr>, hg_image_queue g)
             else (g, []));
          (g2, d, released) =
            (case state of
               CONNECTING \<Rightarrow> (g1, ConnectingScreen, [])
             | READY \<Rightarrow> (g1, ReadyScreen, [])
             | RUNNING \<Rightarrow> handleRunningState imported g1
             | CLOSING \<Rightarrow> (g1, Black, []))
      in (g2\<lparr>hg_last_state := state\<rparr>, d, cleared @ released))"

section \<open>Setting the window up\<close>

text \<open>What an attempt meets. Each attempt but the first sleeps for a second before it; the first three
  outcomes end it (\<open>continue\<close>), the last reaches the loop. The result says how long the thread slept and
  whether it got there; \<open>stop_at\<close> is the attempt before which it sees that it should stop.\<close>

datatype setup_outcome = NoGlfw | NoWindow | NoGles | SetUp

fun graphics_attempts :: "setup_outcome list \<Rightarrow> bool \<Rightarrow> nat \<Rightarrow> nat \<Rightarrow> nat \<times> bool" where
  "graphics_attempts [] has_run stop_at slept = (slept, False)"
| "graphics_attempts (o1 # outcomes) has_run stop_at slept =
     (case stop_at of
        0 \<Rightarrow> (slept, False)
      | Suc left \<Rightarrow>
          let slept' = (if has_run then slept + 1 else slept)
          in (case o1 of SetUp \<Rightarrow> (slept', True) | _ \<Rightarrow> graphics_attempts outcomes True left slept'))"

text \<open>A pre-rendered screen: its texture and pixels are there between loading and unloading. The list is
  the textures GLES holds, \<open>name\<close> the one \<open>glGenTextures\<close> makes.\<close>

record screen =
  scr_texture :: nat
  scr_data :: bool
  scr_has_loaded :: bool

definition LoadTexture :: "nat \<Rightarrow> bool \<Rightarrow> screen \<times> nat list \<Rightarrow> screen \<times> nat list" where
  "LoadTexture name found st = (case st of (s, textures) \<Rightarrow>
     if scr_has_loaded s then (s, textures)
     else (s\<lparr>scr_data := found, scr_texture := name, scr_has_loaded := True\<rparr>, name # textures))"

definition UnloadTexture :: "screen \<times> nat list \<Rightarrow> screen \<times> nat list" where
  "UnloadTexture st = (case st of (s, textures) \<Rightarrow>
     if scr_has_loaded s
     then (s\<lparr>scr_has_loaded := False\<rparr>, remove1 (scr_texture s) textures) else (s, textures))"

lemma unload_load: "\<not> scr_has_loaded s \<Longrightarrow>
    snd (UnloadTexture (LoadTexture name found (s, textures))) = textures"
  by (simp add: UnloadTexture_def LoadTexture_def)

lemma unload_twice: "UnloadTexture (UnloadTexture st) = UnloadTexture st"
  by (cases st) (simp add: UnloadTexture_def)

text \<open>The thread gets to its loop exactly if an attempt before the stop is set up, and slept a second for
  every failed one.\<close>

lemma graphics_attempts_outcome:
  "graphics_attempts outcomes has_run stop_at slept =
     (let failed = length (takeWhile (\<lambda>o1. o1 \<noteq> SetUp) outcomes); first = (if has_run then 0 else 1);
          reached = (failed < length outcomes \<and> failed < stop_at);
          attempts = (if reached then Suc failed else min failed stop_at)
      in (slept + (attempts - first), reached))"
proof (induction outcomes has_run stop_at slept rule: graphics_attempts.induct)
  case (2 o1 outcomes has_run stop_at slept)
  then show ?case
    by (cases stop_at; cases o1) (auto simp: Let_def)
qed simp

section \<open>The display's graphics\<close>

record display_graphics =
  dg_stop_running :: bool
  dg_thread :: bool
  dg_is_ready :: bool
  dg_image_queue :: "decoder_buffer list"
  dg_buffers :: "int \<Rightarrow> egl_buffer option"
  dg_egl_buffer :: "egl_buffer option"

definition DisplayGraphics :: display_graphics where
  "DisplayGraphics = \<lparr>dg_stop_running = True, dg_thread = False, dg_is_ready = False, dg_image_queue = [],
     dg_buffers = Map.empty, dg_egl_buffer = None\<rparr>"

definition dg_StartGraphics :: "display_graphics \<Rightarrow> display_graphics" where
  "dg_StartGraphics g = (if \<not> dg_stop_running g then g
     else g\<lparr>dg_stop_running := False, dg_thread := True\<rparr>)"

definition dg_StopGraphics :: "display_graphics \<Rightarrow> display_graphics" where
  "dg_StopGraphics g = (if dg_stop_running g then g
     else g\<lparr>dg_is_ready := False, dg_stop_running := True, dg_thread := False, dg_image_queue := []\<rparr>)"

interpretation display_graphics_thread: work_thread dg_StartGraphics dg_StopGraphics dg_stop_running dg_thread
  by unfold_locales (auto simp: dg_StartGraphics_def dg_StopGraphics_def)

definition dg_PostImage :: "decoder_buffer \<Rightarrow> display_graphics \<Rightarrow> display_graphics" where
  "dg_PostImage b g = (if dg_is_ready g then g\<lparr>dg_image_queue := dg_image_queue g @ [b]\<rparr> else g)"

definition dg_enter_loop :: "display_graphics \<Rightarrow> display_graphics" where
  "dg_enter_loop g = g\<lparr>dg_is_ready := True, dg_egl_buffer := None\<rparr>"

definition dg_leave_loop :: "display_graphics \<Rightarrow> display_graphics" where
  "dg_leave_loop g = g\<lparr>dg_is_ready := False\<rparr>"

definition dg_turn ::
    "(int \<Rightarrow> bool) \<Rightarrow> display_graphics \<Rightarrow> display_graphics \<times> drawn \<times> decoder_buffer list" where
  "dg_turn imported g =
     (let images = dg_image_queue g;
          g1 = g\<lparr>dg_image_queue := []\<rparr>;
          g2 = (if images = [] then g1
                else case buffer_for imported (last images) (dg_buffers g1) of
                  (b, bs) \<Rightarrow> g1\<lparr>dg_buffers := bs, dg_egl_buffer := Some b\<rparr>)
      in (g2, case dg_egl_buffer g2 of None \<Rightarrow> Black | Some b \<Rightarrow> ImageTexture b, images))"

section \<open>What is on the screen\<close>

text \<open>What can happen to the headset's graphics while its loop runs.\<close>

datatype hg_event = HgState headset_states | HgImage decoder_buffer | HgTurn

fun hg_step ::
    "(int \<Rightarrow> bool) \<Rightarrow> hg_event \<Rightarrow> headset_graphics \<times> decoder_buffer list \<Rightarrow> headset_graphics \<times> decoder_buffer list" where
  "hg_step imported (HgState st) (g, freed) = (PostGraphicsHeadsetState st g, freed)"
| "hg_step imported (HgImage b) (g, freed) =
     (hg_PostImage b g, if hg_is_ready g \<and> hg_is_display g then freed else freed @ [b])"
| "hg_step imported HgTurn (g, freed) = (case hg_turn imported g of (g1, d, bs) \<Rightarrow> (g1, freed @ bs))"

fun hg_posted :: "hg_event list \<Rightarrow> decoder_buffer list" where
  "hg_posted [] = []"
| "hg_posted (HgImage b # es) = b # hg_posted es"
| "hg_posted (_ # es) = hg_posted es"

definition hg_calm :: "headset_graphics \<Rightarrow> bool" where
  "hg_calm g \<longleftrightarrow> (hg_last_state g \<noteq> RUNNING \<longrightarrow> \<not> hg_is_display g \<and> hg_image_queue g = [])"

lemma hg_calm_step: "hg_calm g \<Longrightarrow> hg_calm (fst (hg_step imported e (g, freed)))"
  by (cases e; cases "hg_state g"; cases "hg_last_state g")
     (auto simp: hg_calm_def PostGraphicsHeadsetState_def hg_PostImage_def hg_turn_def
       handleRunningState_def Let_def split: prod.split)

lemma hg_images_step:
  "mset (snd (hg_step imported e (g, freed))) + mset (hg_image_queue (fst (hg_step imported e (g, freed)))) =
     mset freed + mset (hg_image_queue g) + mset (hg_posted [e])"
  by (cases e; cases "hg_state g"; cases "hg_last_state g")
     (auto simp: PostGraphicsHeadsetState_def hg_PostImage_def hg_turn_def handleRunningState_def Let_def
       split: prod.split)

lemma hg_posted_append: "hg_posted (es @ es') = hg_posted es @ hg_posted es'"
  by (induction es rule: hg_posted.induct) auto

lemma hg_run:
  assumes "hg_calm g"
  shows "hg_calm (fst (fold (hg_step imported) es (g, freed))) \<and>
    mset (snd (fold (hg_step imported) es (g, freed))) +
      mset (hg_image_queue (fst (fold (hg_step imported) es (g, freed)))) =
      mset freed + mset (hg_image_queue g) + mset (hg_posted es)"
  using assms
proof (induction es arbitrary: g freed)
  case (Cons e es)
  obtain g1 freed1 where s: "hg_step imported e (g, freed) = (g1, freed1)" by fastforce
  have "hg_posted (e # es) = hg_posted [e] @ hg_posted es" using hg_posted_append [of "[e]" es] by simp
  then show ?case
    using Cons.IH [of g1 freed1] hg_calm_step [OF Cons.prems, of imported e freed]
      hg_images_step [of imported e g freed] s by (simp add: ac_simps)
qed simp

text \<open>From the first start of the headset's graphics, no image is lost or kept twice: the
  images posted are those whose buffers went back to the decoder together with those in the queue; and
  after a turn that did not show the running state the queue is empty and images are refused, so the
  decoder has all its buffers back.\<close>

theorem graphics_give_buffers_back:
  assumes "fold (hg_step imported) es (hg_enter_loop (hg_StartGraphics HeadsetGraphics), []) = (g, freed)"
  shows "mset (hg_posted es) = mset freed + mset (hg_image_queue g) \<and>
    (hg_last_state g \<noteq> RUNNING \<longrightarrow>
       hg_image_queue g = [] \<and> hg_PostImage b g = g \<and> mset freed = mset (hg_posted es))"
proof -
  have "hg_calm (hg_enter_loop (hg_StartGraphics HeadsetGraphics))"
    by (simp add: hg_calm_def hg_enter_loop_def hg_StartGraphics_def HeadsetGraphics_def)
  from hg_run [OF this, of imported es "[]", unfolded assms fst_conv snd_conv]
  have "hg_calm g" "mset (hg_posted es) = mset freed + mset (hg_image_queue g)"
    by (simp_all add: hg_enter_loop_def hg_StartGraphics_def HeadsetGraphics_def)
  then show ?thesis by (simp add: hg_calm_def hg_PostImage_def)
qed

lemma hg_turn_last: "hg_last_state (fst (hg_turn imported g)) = hg_state g"
  by (simp add: hg_turn_def Let_def split: prod.split)

definition demo_image :: "nat \<Rightarrow> decoder_buffer" where
  "demo_image i = \<lparr>db_index = i, db_fd = int i, db_memory = []\<rparr>"

definition demo_frames :: "hg_event list" where
  "demo_frames = [HgState RUNNING, HgTurn, HgTurn, HgImage (demo_image 0), HgImage (demo_image 1), HgTurn,
     HgImage (demo_image 0), HgState READY, HgTurn]"

lemmas hg_eval = hg_enter_loop_def hg_StartGraphics_def HeadsetGraphics_def PostGraphicsHeadsetState_def
  hg_PostImage_def hg_turn_def handleRunningState_def buffer_for_def makeBuffer_def demo_image_def
  demo_frames_def Let_def

theorem graphics_give_buffers_back_witness:
  "mset (snd (fold (hg_step (\<lambda>_. True)) demo_frames
     (hg_enter_loop (hg_StartGraphics HeadsetGraphics), []))) = {#demo_image 0, demo_image 1, demo_image 0#}"
proof -
  let ?g0 = "(hg_enter_loop (hg_StartGraphics HeadsetGraphics), [])"
  obtain g freed where r: "fold (hg_step (\<lambda>_. True)) demo_frames ?g0 = (g, freed)"
    by (cases "fold (hg_step (\<lambda>_. True)) demo_frames ?g0") auto
  have "hg_last_state g = READY" using arg_cong [OF r, of "\<lambda>r. hg_last_state (fst r)"] by (simp add: hg_eval)
  then have "hg_last_state g \<noteq> RUNNING" by simp
  with graphics_give_buffers_back [OF r] have "mset freed = mset (hg_posted demo_frames)" by blast
  also have "hg_posted demo_frames = [demo_image 0, demo_image 1, demo_image 0]"
    unfolding demo_frames_def by (simp only: hg_posted.simps)
  finally show ?thesis unfolding r snd_conv by (simp only: mset.simps)
qed

text \<open>Stopping does not reset the flag that lets images in. Stopped while running and started
  again, the graphics queue images while they show another state; nothing draws or returns them until the
  headset runs again, so the decoder is left without buffers.\<close>

theorem graphics_restart_hoards_images:
  assumes "hg_is_display g" "\<not> hg_stop_running g" "st \<noteq> RUNNING"
  shows "(let g0 = PostGraphicsHeadsetState st (hg_enter_loop (hg_StartGraphics (hg_StopGraphics g)));
      r = fold (hg_step imported) (concat (map (\<lambda>b. [HgTurn, HgImage b]) bs)) (g0, [])
    in hg_image_queue (fst r) = bs \<and> snd r = [])"
proof -
  define bad where "bad = (\<lambda>g :: headset_graphics. hg_is_ready g \<and> hg_is_display g \<and> hg_state g = st \<and> hg_last_state g \<noteq> RUNNING)"
  have step: "bad g \<Longrightarrow> bad (fst (hg_step imported (HgImage b) (hg_step imported HgTurn (g, freed)))) \<and>
      hg_image_queue (fst (hg_step imported (HgImage b) (hg_step imported HgTurn (g, freed)))) =
        hg_image_queue g @ [b] \<and>
      snd (hg_step imported (HgImage b) (hg_step imported HgTurn (g, freed))) = freed" for g :: headset_graphics and b freed
    using assms(3) by (cases st) (auto simp: bad_def hg_turn_def hg_PostImage_def Let_def)
  have run: "bad g \<Longrightarrow>
      hg_image_queue (fst (fold (hg_step imported) (concat (map (\<lambda>b. [HgTurn, HgImage b]) bs)) (g, freed))) =
        hg_image_queue g @ bs \<and>
      snd (fold (hg_step imported) (concat (map (\<lambda>b. [HgTurn, HgImage b]) bs)) (g, freed)) = freed" for g :: headset_graphics and freed
  proof (induction bs arbitrary: g)
    case (Cons b bs)
    obtain g1 freed1 where s: "hg_step imported (HgImage b) (hg_step imported HgTurn (g, freed)) = (g1, freed1)"
      by fastforce
    from step [OF Cons.prems, of b freed] s have "bad g1" "hg_image_queue g1 = hg_image_queue g @ [b]" "freed1 = freed"
      by auto
    with Cons.IH [of g1] s show ?case by simp
  qed simp
  have "bad (PostGraphicsHeadsetState st (hg_enter_loop (hg_StartGraphics (hg_StopGraphics g))))"
    using assms by (simp add: bad_def PostGraphicsHeadsetState_def hg_enter_loop_def hg_StartGraphics_def
        hg_StopGraphics_def)
  from run [OF this, of "[]"] assms(2) show ?thesis
    by (simp add: Let_def PostGraphicsHeadsetState_def hg_enter_loop_def hg_StartGraphics_def hg_StopGraphics_def)
qed

theorem graphics_restart_hoards_images_witness:
  "hg_image_queue (fst (fold (hg_step (\<lambda>_. True)) [HgTurn, HgImage (demo_image 0), HgTurn, HgImage (demo_image 1)]
     (PostGraphicsHeadsetState READY (hg_enter_loop (hg_StartGraphics (hg_StopGraphics
       (fst (fold (hg_step (\<lambda>_. True)) [HgState RUNNING, HgTurn, HgTurn]
         (hg_enter_loop (hg_StartGraphics HeadsetGraphics), [])))))), []))) = [demo_image 0, demo_image 1]"
proof -
  let ?g = "fst (fold (hg_step (\<lambda>_. True)) [HgState RUNNING, HgTurn, HgTurn]
         (hg_enter_loop (hg_StartGraphics HeadsetGraphics), []))"
  have "hg_is_display ?g" "\<not> hg_stop_running ?g" by (simp_all add: hg_eval)
  from graphics_restart_hoards_images [OF this, of READY "\<lambda>_. True" "[demo_image 0, demo_image 1]"]
  show ?thesis by (simp add: Let_def)
qed

text \<open>The planes handed to EGL are those the codec works on, and they fill the frame.\<close>

lemma planes_agree:
  "plane_attribs w h = [(0, w), (U_plane w h, stride2 w), (V_plane w h, stride2 w)]"
  by (simp add: plane_attribs_def U_plane_def V_plane_def stride2_def)

end
