(* ===== verification/Button.thy ===== *)
theory Button
  imports Prelude
begin

text \<open>
  \<open>src/internal/domain/button.cpp\<close>: the debounced button of a headset, polled with the clock. Times
  are nanoseconds of the clock; the two timeouts are milliseconds. The machine is checked against
  a monitor of the actions it emits.
\<close>

datatype button_action = NULL_ACTION | SINGLE_PUSH | SINGLE_HOLD

datatype button_state = OPEN | DEBOUNCED | PRESSED | HELD

record button =
  millis_debounce_timeout :: int
  millis_hold_timeout :: int
  b_state :: button_state
  last_state_change :: int

definition ButtonCreate :: "int \<Rightarrow> int \<Rightarrow> button" where
  "ButtonCreate debounce_ms hold_ms =
     \<lparr>millis_debounce_timeout = debounce_ms, millis_hold_timeout = hold_ms, b_state = OPEN,
      last_state_change = 0\<rparr>"

definition transitionState :: "button_state \<Rightarrow> int \<Rightarrow> button \<Rightarrow> button" where
  "transitionState new_state transition_time b =
     b\<lparr>b_state := new_state, last_state_change := transition_time\<rparr>"

definition button_Reset :: "int \<Rightarrow> button \<Rightarrow> button" where
  "button_Reset now b = transitionState OPEN now b"

text \<open>Durations are compared in the finer unit.\<close>

definition longer_than_ms :: "int \<Rightarrow> int \<Rightarrow> bool" where
  "longer_than_ms elapsed ms \<longleftrightarrow> elapsed > ms * 1000000"

definition UpdateButtonState :: "int \<Rightarrow> bool \<Rightarrow> button \<Rightarrow> button \<times> button_action" where
  "UpdateButtonState now button_is_pressed b =
     (let elapsed = now - last_state_change b in
      case b_state b of
        OPEN \<Rightarrow>
          if button_is_pressed then (transitionState DEBOUNCED now b, SINGLE_PUSH)
          else (b, NULL_ACTION)
      | DEBOUNCED \<Rightarrow>
          if longer_than_ms elapsed (millis_debounce_timeout b)
          then (transitionState (if button_is_pressed then PRESSED else OPEN) now b, NULL_ACTION)
          else (b, NULL_ACTION)
      | PRESSED \<Rightarrow>
          if longer_than_ms elapsed (millis_hold_timeout b)
          then (transitionState HELD now b, SINGLE_HOLD)
          else if \<not> button_is_pressed then (transitionState OPEN now b, NULL_ACTION)
          else (b, NULL_ACTION)
      | HELD \<Rightarrow>
          if \<not> button_is_pressed then (transitionState OPEN now b, NULL_ACTION)
          else (b, NULL_ACTION))"

section \<open>Polling\<close>

text \<open>The actions a sequence of polls emits, with their times.\<close>

fun button_run :: "(int \<times> bool) list \<Rightarrow> button \<Rightarrow> (int \<times> button_action) list" where
  "button_run [] b = []"
| "button_run ((now, p) # ps) b =
     (case UpdateButtonState now p b of (b', a) \<Rightarrow>
        (if a = NULL_ACTION then [] else [(now, a)]) @ button_run ps b')"

text \<open>The monitor: the time of the last push, and whether it has already been followed by a hold. Two
  pushes are more than the debounce time apart; a hold follows a push by more than the debounce and
  the hold time together, at most one per push.\<close>

fun well_timed :: "int \<Rightarrow> int \<Rightarrow> (int \<times> bool) option \<Rightarrow> (int \<times> button_action) list \<Rightarrow> bool" where
  "well_timed d h m [] = True"
| "well_timed d h m ((t, NULL_ACTION) # as) = False"
| "well_timed d h m ((t, SINGLE_PUSH) # as) =
     ((case m of None \<Rightarrow> True | Some (p, _) \<Rightarrow> longer_than_ms (t - p) d) \<and>
      well_timed d h (Some (t, False)) as)"
| "well_timed d h m ((t, SINGLE_HOLD) # as) =
     (case m of
        Some (p, False) \<Rightarrow> longer_than_ms (t - p) (d + h) \<and> well_timed d h (Some (p, True)) as
      | _ \<Rightarrow> False)"

definition tracks :: "(int \<times> bool) option \<Rightarrow> button \<Rightarrow> bool" where
  "tracks m b \<longleftrightarrow> (case b_state b of
     OPEN \<Rightarrow> (case m of None \<Rightarrow> True
       | Some (p, _) \<Rightarrow> longer_than_ms (last_state_change b - p) (millis_debounce_timeout b))
   | DEBOUNCED \<Rightarrow> m = Some (last_state_change b, False)
   | PRESSED \<Rightarrow> (\<exists>p. m = Some (p, False) \<and>
       longer_than_ms (last_state_change b - p) (millis_debounce_timeout b))
   | HELD \<Rightarrow> (\<exists>p. m = Some (p, True) \<and>
       longer_than_ms (last_state_change b - p) (millis_debounce_timeout b)))"

lemma button_run_well_timed:
  assumes "tracks m b" "sorted_wrt (\<le>) (last_state_change b # map fst ps)" "0 \<le> millis_hold_timeout b"
  shows "well_timed (millis_debounce_timeout b) (millis_hold_timeout b) m (button_run ps b)"
  using assms
proof (induction ps b arbitrary: m rule: button_run.induct)
  case (2 now p ps b)
  obtain b' a where u: "UpdateButtonState now p b = (b', a)" by fastforce
  have later: "last_state_change b \<le> now" using 2(3) by simp
  have same: "millis_debounce_timeout b' = millis_debounce_timeout b"
    "millis_hold_timeout b' = millis_hold_timeout b"
    using u by (auto simp: UpdateButtonState_def transitionState_def Let_def
        split: button_state.splits if_splits)
  have sorted': "sorted_wrt (\<le>) (last_state_change b' # map fst ps)"
    using 2(3) u by (auto simp: UpdateButtonState_def transitionState_def Let_def
        split: button_state.splits if_splits)
  note IH = 2(1) [OF u [symmetric] _ sorted', unfolded same, OF _ 2(4)]
  show ?case
  proof (cases "b_state b")
    case OPEN
    show ?thesis
    proof (cases p)
      case True
      then have "tracks (Some (now, False)) b'" "a = SINGLE_PUSH"
        using u OPEN by (auto simp: UpdateButtonState_def transitionState_def tracks_def)
      with IH [OF this(1)] u 2(2) OPEN later show ?thesis
        by (auto simp: tracks_def longer_than_ms_def split: option.splits)
    next
      case False
      with OPEN u have "b' = b" "a = NULL_ACTION" by (auto simp: UpdateButtonState_def)
      with IH [of m] 2(2) u show ?thesis by simp
    qed
  next
    case DEBOUNCED
    have "tracks m b' \<and> a = NULL_ACTION"
      using u DEBOUNCED 2(2) later
      by (auto simp: UpdateButtonState_def transitionState_def tracks_def Let_def longer_than_ms_def
          split: if_splits)
    with IH [of m] u show ?thesis by simp
  next
    case PRESSED
    then obtain q where q: "m = Some (q, False)"
      "longer_than_ms (last_state_change b - q) (millis_debounce_timeout b)"
      using 2(2) by (auto simp: tracks_def)
    show ?thesis
    proof (cases "longer_than_ms (now - last_state_change b) (millis_hold_timeout b)")
      case True
      then have a: "a = SINGLE_HOLD" "b' = transitionState HELD now b"
        using u PRESSED by (auto simp: UpdateButtonState_def Let_def)
      then have "tracks (Some (q, True)) b'"
        using q later by (auto simp: tracks_def transitionState_def longer_than_ms_def)
      with IH [OF this] u q a True show ?thesis by (simp add: longer_than_ms_def algebra_simps)
    next
      case False
      have "tracks m b' \<and> a = NULL_ACTION"
        using u PRESSED q False later 2(2)
        by (auto simp: UpdateButtonState_def transitionState_def tracks_def Let_def longer_than_ms_def
            split: if_splits)
      with IH [of m] u show ?thesis by simp
    qed
  next
    case HELD
    have "tracks m b' \<and> a = NULL_ACTION"
      using u HELD 2(2) later
      by (auto simp: UpdateButtonState_def transitionState_def tracks_def Let_def longer_than_ms_def
          split: if_splits)
    with IH [of m] u show ?thesis by simp
  qed
qed simp

text \<open>C38 (safety): polled at non-decreasing times, a new button emits its first push at once, any two
  pushes more than the debounce time apart, and a hold only after a push, more than the debounce time
  plus the hold time later, at most once per push.\<close>

theorem button_actions_well_timed:
  assumes "sorted_wrt (\<le>) (0 # map fst polls)" "0 \<le> hold_ms"
  shows "well_timed debounce_ms hold_ms None (button_run polls (ButtonCreate debounce_ms hold_ms))"
  using button_run_well_timed [of None "ButtonCreate debounce_ms hold_ms" polls] assms
  by (simp add: tracks_def ButtonCreate_def)

theorem button_actions_well_timed_witness:
  "well_timed 20 2500 None (button_run [(5, True), (30000000, True), (2600000000, True), (2700000000, False)]
     (ButtonCreate 20 2500))"
  using button_actions_well_timed [of "[(5, True), (30000000, True), (2600000000, True), (2700000000, False)]" 2500 20]
  by simp

text \<open>A press shorter than the debounce time gives exactly one push however the
  contact bounces; a press held through gives one push and one hold; and a hold is emitted even when
  the poll that passes the hold time already sees the button released.\<close>

theorem button_press_outcomes:
  assumes "0 \<le> t" "\<forall>(u, p) \<in> set bounces. t \<le> u \<and> u - t \<le> d * 1000000"
    and "d * 1000000 < u1 - t" "h * 1000000 < u2 - u1"
  shows "button_run ((t, True) # bounces) (ButtonCreate d h) = [(t, SINGLE_PUSH)] \<and>
    button_run ((t, True) # bounces @ [(u1, False)]) (ButtonCreate d h) = [(t, SINGLE_PUSH)] \<and>
    button_run ((t, True) # bounces @ [(u1, True), (u2, released)]) (ButtonCreate d h) =
      [(t, SINGLE_PUSH), (u2, SINGLE_HOLD)]"
proof -
  define b where "b = transitionState DEBOUNCED t (ButtonCreate d h)"
  have quiet: "button_run (bounces @ rest) b = button_run rest b" for rest
    using assms(2)
  proof (induction bounces)
    case (Cons x xs)
    then show ?case by (auto simp: b_def UpdateButtonState_def transitionState_def ButtonCreate_def
          longer_than_ms_def)
  qed simp
  have first: "UpdateButtonState t True (ButtonCreate d h) = (b, SINGLE_PUSH)"
    by (simp add: b_def UpdateButtonState_def ButtonCreate_def Let_def)
  have "button_run [(u1, False)] b = []" "button_run [(u1, True), (u2, released)] b = [(u2, SINGLE_HOLD)]"
    using assms(3,4) by (simp_all add: b_def UpdateButtonState_def transitionState_def ButtonCreate_def
        longer_than_ms_def Let_def)
  then show ?thesis using first quiet [of "[]"] quiet [of "[(u1, False)]"]
      quiet [of "[(u1, True), (u2, released)]"] by simp
qed

theorem button_press_outcomes_witness:
  "button_run [(10, True), (20, False), (21000000, True), (2600000000, False)] (ButtonCreate 20 2500) =
     [(10, SINGLE_PUSH), (2600000000, SINGLE_HOLD)]"
  using button_press_outcomes [of 10 "[(20, False)]" 20 21000000 2500 2600000000 False] by simp

end
