(* ===== verification/Pi_Gpio.thy ===== *)
theory Pi_Gpio
  imports Button Worker
begin

text \<open>
  \<open>src/internal/infrastructure/gpio/pigpio_gpio.cpp\<close>: the thread that polls the pin of the button. The pin
  is pulled up, so that a level of 0 is a pushed button; \<open>gpioRead\<close> and the clock are the input.
\<close>

record pi_gpio =
  button_gpio_pin :: int
  millis_polling_timeout :: int
  gp_button :: button
  gp_work_stop :: bool
  gp_work_thread :: bool

text \<open>The constructor: the three calls of the library that may fail.\<close>

definition PiGpio :: "int \<Rightarrow> int \<Rightarrow> int \<Rightarrow> int \<Rightarrow> int \<Rightarrow> int \<Rightarrow> int \<Rightarrow> string + pi_gpio" where
  "PiGpio initialised mode_set pull_set pin debounce_ms hold_ms polling_ms =
     (if initialised < 0 then Inl ''Failed to startup gpio service''
      else if mode_set < 0 then Inl ''Failed to set pin to type input''
      else if pull_set < 0 then Inl ''Failed to set pin to pullup''
      else Inr \<lparr>button_gpio_pin = pin, millis_polling_timeout = polling_ms,
        gp_button = ButtonCreate debounce_ms hold_ms, gp_work_stop = True, gp_work_thread = False\<rparr>)"

definition gpio_Start :: "pi_gpio \<Rightarrow> pi_gpio" where
  "gpio_Start g = (if \<not> gp_work_stop g then g else g\<lparr>gp_work_stop := False, gp_work_thread := True\<rparr>)"

definition gpio_Stop :: "pi_gpio \<Rightarrow> pi_gpio" where
  "gpio_Stop g = (if gp_work_stop g then g else g\<lparr>gp_work_stop := True, gp_work_thread := False\<rparr>)"

interpretation gpio_thread: work_thread gpio_Start gpio_Stop gp_work_stop gp_work_thread
  by unfold_locales (auto simp: gpio_Start_def gpio_Stop_def)

text \<open>The thread resets the button when it starts; a turn reads the pin and reports an action.\<close>

definition gpio_enter :: "int \<Rightarrow> pi_gpio \<Rightarrow> pi_gpio" where
  "gpio_enter now g = g\<lparr>gp_button := button_Reset now (gp_button g)\<rparr>"

definition gpio_poll :: "int \<Rightarrow> int \<Rightarrow> pi_gpio \<Rightarrow> pi_gpio \<times> button_action option" where
  "gpio_poll now level g =
     (if gp_work_stop g then (g, None)
      else case UpdateButtonState now (level = 0) (gp_button g) of
        (b, button_action) \<Rightarrow> (g\<lparr>gp_button := b\<rparr>,
          if button_action \<noteq> NULL_ACTION then Some button_action else None))"

fun gpio_run :: "(int \<times> int) list \<Rightarrow> pi_gpio \<Rightarrow> (int \<times> button_action) list" where
  "gpio_run [] g = []"
| "gpio_run ((now, level) # polls) g = (case gpio_poll now level g of
     (g1, None) \<Rightarrow> gpio_run polls g1
   | (g1, Some a) \<Rightarrow> (now, a) # gpio_run polls g1)"

lemma gpio_poll_stop [simp]: "gp_work_stop (fst (gpio_poll now level g)) = gp_work_stop g"
  by (simp add: gpio_poll_def split: prod.split)

text \<open>While it runs it reports the actions of the button; once stopped, nothing.\<close>

lemma gpio_run_actions:
  "gpio_run polls g = (if gp_work_stop g then []
     else button_run (map (\<lambda>(now, level). (now, level = 0)) polls) (gp_button g))"
  by (induction polls g rule: gpio_run.induct) (auto simp: gpio_poll_def split: prod.splits)

end
