(* ===== verification/Service_Parts.thy ===== *)
theory Service_Parts
  imports Graphics Pi_Gpio
begin

text \<open>
  The parts the streamers are built from by configuration: the factories \<open>Graphics::Create\<close>,
  \<open>Decoder::Create\<close>, \<open>Encoder::Create\<close> and \<open>Gpio::Create\<close> of \<open>src/internal/infrastructure/\<close>, the abstract
  classes as datatypes of their implementations, and the calls on them. The null implementations do
  nothing, but for the decoder's, which hands on what it gets. A factory throws for a type that is not
  built into the program, which the compile time flags (the \<open>built\<close> arguments) say.
\<close>

datatype graphics_type = GraphicsHeadset | GraphicsDisplay | GraphicsNone
datatype decoder_type = DecoderSw | DecoderNone
datatype encoder_type = EncoderSw | EncoderNone
datatype gpio_type = GpioPigpio | GpioNone

section \<open>Graphics\<close>

datatype graphics_part = HeadsetPart headset_graphics | DisplayPart display_graphics | NullGraphics

definition Graphics_Create :: "bool \<Rightarrow> bool \<Rightarrow> graphics_type \<Rightarrow> string + graphics_part" where
  "Graphics_Create headset_built display_built t =
     (if t = GraphicsHeadset \<and> headset_built then Inr (HeadsetPart HeadsetGraphics)
      else if t = GraphicsDisplay \<and> display_built then Inr (DisplayPart DisplayGraphics)
      else if t = GraphicsNone then Inr NullGraphics
      else Inl ''Selected graphics unavailable... '')"

definition graphics_Start :: "graphics_part \<Rightarrow> graphics_part" where
  "graphics_Start p = (case p of HeadsetPart g \<Rightarrow> HeadsetPart (hg_StartGraphics g)
     | DisplayPart g \<Rightarrow> DisplayPart (dg_StartGraphics g) | NullGraphics \<Rightarrow> NullGraphics)"

definition graphics_Stop :: "graphics_part \<Rightarrow> graphics_part" where
  "graphics_Stop p = (case p of HeadsetPart g \<Rightarrow> HeadsetPart (hg_StopGraphics g)
     | DisplayPart g \<Rightarrow> DisplayPart (dg_StopGraphics g) | NullGraphics \<Rightarrow> NullGraphics)"

definition graphics_PostImage :: "decoder_buffer \<Rightarrow> graphics_part \<Rightarrow> graphics_part" where
  "graphics_PostImage b p = (case p of HeadsetPart g \<Rightarrow> HeadsetPart (hg_PostImage b g)
     | DisplayPart g \<Rightarrow> DisplayPart (dg_PostImage b g) | NullGraphics \<Rightarrow> NullGraphics)"

definition graphics_PostState :: "headset_states \<Rightarrow> graphics_part \<Rightarrow> graphics_part" where
  "graphics_PostState st p = (case p of HeadsetPart g \<Rightarrow> HeadsetPart (PostGraphicsHeadsetState st g)
     | DisplayPart g \<Rightarrow> DisplayPart g | NullGraphics \<Rightarrow> NullGraphics)"

section \<open>Decoder and encoder\<close>

datatype decoder_part = SwDecoderPart sw_decoder | NullDecoder

definition Decoder_Create ::
    "bool \<Rightarrow> nat option \<Rightarrow> (nat \<Rightarrow> (byte list \<times> int) option) \<Rightarrow> decoder_type \<Rightarrow> nat \<Rightarrow> nat \<Rightarrow> nat \<Rightarrow>
     string + decoder_part" where
  "Decoder_Create format_ok granted driver t w h n = (case t of
     DecoderSw \<Rightarrow> (case SwDecoder format_ok granted driver w h n of Inl e \<Rightarrow> Inl e | Inr d \<Rightarrow> Inr (SwDecoderPart d))
   | DecoderNone \<Rightarrow> Inr NullDecoder)"

definition decoder_Start :: "decoder_part \<Rightarrow> decoder_part" where
  "decoder_Start p = (case p of SwDecoderPart d \<Rightarrow> SwDecoderPart (StartDecoder d) | NullDecoder \<Rightarrow> NullDecoder)"

definition decoder_Stop :: "decoder_part \<Rightarrow> decoder_part" where
  "decoder_Stop p = (case p of SwDecoderPart d \<Rightarrow> SwDecoderPart (StopDecoder d) | NullDecoder \<Rightarrow> NullDecoder)"

text \<open>The null decoder casts the buffer it got to a decoder's and calls back at once with it.\<close>

definition decoder_Post :: "byte list \<Rightarrow> decoder_part \<Rightarrow> decoder_part \<times> byte list option" where
  "decoder_Post jpeg p = (case p of
     SwDecoderPart d \<Rightarrow> (SwDecoderPart (PostJpegBuffer jpeg d), None) | NullDecoder \<Rightarrow> (NullDecoder, Some jpeg))"

datatype encoder_part = SwEncoderPart sw_encoder | NullEncoder

definition Encoder_Create ::
    "(nat \<Rightarrow> byte) \<Rightarrow> encoder_type \<Rightarrow> nat \<Rightarrow> nat \<Rightarrow> nat \<Rightarrow> string + encoder_part" where
  "Encoder_Create junk t w h n = (case t of
     EncoderSw \<Rightarrow> Inr (SwEncoderPart (SwEncoder junk w h n)) | EncoderNone \<Rightarrow> Inr NullEncoder)"

definition encoder_Start :: "encoder_part \<Rightarrow> encoder_part" where
  "encoder_Start p = (case p of SwEncoderPart e \<Rightarrow> SwEncoderPart (StartEncoder e) | NullEncoder \<Rightarrow> NullEncoder)"

definition encoder_Stop :: "encoder_part \<Rightarrow> encoder_part" where
  "encoder_Stop p = (case p of SwEncoderPart e \<Rightarrow> SwEncoderPart (StopEncoder e) | NullEncoder \<Rightarrow> NullEncoder)"

text \<open>The second result is a frame handed on at once.\<close>

definition encoder_Post :: "byte list \<Rightarrow> encoder_part \<Rightarrow> encoder_part \<times> byte list option" where
  "encoder_Post frame p = (case p of
     SwEncoderPart e \<Rightarrow> (SwEncoderPart (PostCameraBuffer frame e), None)
   | NullEncoder \<Rightarrow> (NullEncoder, Some frame))"

section \<open>The button\<close>

datatype gpio_part = PiPart pi_gpio | NullGpio

definition Gpio_Create ::
    "bool \<Rightarrow> int \<Rightarrow> int \<Rightarrow> int \<Rightarrow> gpio_type \<Rightarrow> int \<Rightarrow> int \<Rightarrow> int \<Rightarrow> int \<Rightarrow> string + gpio_part" where
  "Gpio_Create built initialised mode_set pull_set t pin debounce_ms hold_ms polling_ms =
     (if t = GpioPigpio \<and> built then
        (case PiGpio initialised mode_set pull_set pin debounce_ms hold_ms polling_ms of
           Inl e \<Rightarrow> Inl e | Inr g \<Rightarrow> Inr (PiPart g))
      else if t = GpioNone then Inr NullGpio
      else Inl ''Selected gpio type unavailable...'')"

definition gpio_part_Start :: "gpio_part \<Rightarrow> gpio_part" where
  "gpio_part_Start p = (case p of PiPart g \<Rightarrow> PiPart (gpio_Start g) | NullGpio \<Rightarrow> NullGpio)"

definition gpio_part_Stop :: "gpio_part \<Rightarrow> gpio_part" where
  "gpio_part_Stop p = (case p of PiPart g \<Rightarrow> PiPart (gpio_Stop g) | NullGpio \<Rightarrow> NullGpio)"

lemmas part_defs = graphics_Start_def graphics_Stop_def graphics_PostImage_def graphics_PostState_def
  decoder_Start_def decoder_Stop_def decoder_Post_def encoder_Start_def encoder_Stop_def encoder_Post_def
  gpio_part_Start_def gpio_part_Stop_def

lemmas part_creators = Graphics_Create_def Decoder_Create_def Encoder_Create_def Gpio_Create_def

end
