(* ===== verification/Websocket_Client.thy ===== *)
theory Websocket_Client
  imports Headset_Domain Asio_Context
begin

text \<open>
  \<open>src/internal/infrastructure/websocket/websocket_client.cpp\<close>: the connection over which a headset or
  display sends its messages. Every completion handler is a function of the client's state; what it
  starts and whom it calls is the list of calls in its result. Asked of the library at the moment of a
  call, and so arguments here: whether the stream is open, whether binding a socket to the fixed local
  port succeeds (the constructor of the stream throws when it does not) and whether shutting down the
  socket succeeds (it throws when the socket is not connected). The pool logs an exception that leaves
  a handler (\<open>HandlerThrew\<close>) and goes on.
\<close>

section \<open>State\<close>

record websocket_client =
  wc_connection_timeout :: int
  wc_op_timeout :: int
  wc_connection_type :: connection_type
  wc_use_fixed_port :: bool
  wc_is_stopped :: bool
  wc_session :: ulong
  wc_ws :: bool
  wc_read_buffer :: string
  wc_send_queue :: "string list"

datatype websocket_call =
  Sleep1s | BindPort uint32 | ExpiresAfter int | ExpiresNever | SetTimeouts int int
| AsyncConnect ulong | AsyncHandshake ulong | AsyncRead ulong | AsyncWrite ulong string
| AsyncClose ulong | PostWrite string
| CreateWebsocketClientConnection | DestroyWebsocketClientConnection | HandlerThrew

definition WebsocketClient :: "int \<Rightarrow> int \<Rightarrow> connection_type \<Rightarrow> bool \<Rightarrow> websocket_client" where
  "WebsocketClient connection_timeout op_timeout ctype fixed =
     \<lparr>wc_connection_timeout = connection_timeout, wc_op_timeout = op_timeout,
      wc_connection_type = ctype, wc_use_fixed_port = fixed, wc_is_stopped = True, wc_session = 0,
      wc_ws = False, wc_read_buffer = [], wc_send_queue = []\<rparr>"

text \<open>The guard every handler opens with.\<close>

definition wc_stale :: "ulong \<Rightarrow> websocket_client \<Rightarrow> bool" where
  "wc_stale n c \<longleftrightarrow> wc_is_stopped c \<or> n \<noteq> wc_session c"

section \<open>Connecting\<close>

definition websocket_port :: "connection_type \<Rightarrow> uint32" where
  "websocket_port t = (case t of
     CAMERA_CONNECTION \<Rightarrow> 12111 | HEADSET_CONNECTION \<Rightarrow> 22222 | DISPLAY_CONNECTION \<Rightarrow> 32333
   | UNKNOWN_CONNECTION \<Rightarrow> 0)"

definition wc_startConnection ::
    "bool \<Rightarrow> ulong \<Rightarrow> bool \<Rightarrow> websocket_client \<Rightarrow> websocket_client \<times> websocket_call list" where
  "wc_startConnection bind_ok n is_initial_connection c =
     (if wc_stale n c then (c, [])
      else
        let sleep = (if is_initial_connection then [] else [Sleep1s]);
            bind = (if wc_use_fixed_port c then [BindPort (websocket_port (wc_connection_type c))] else [])
        in if wc_use_fixed_port c \<and> \<not> bind_ok then (c, sleep @ bind @ [HandlerThrew])
           else (c\<lparr>wc_ws := True\<rparr>,
                 sleep @ bind @ [ExpiresAfter (wc_connection_timeout c), AsyncConnect n]))"

definition wc_Start :: "bool \<Rightarrow> websocket_client \<Rightarrow> websocket_client \<times> websocket_call list" where
  "wc_Start bind_ok c =
     (if \<not> wc_is_stopped c then (c, [])
      else let c1 = c\<lparr>wc_is_stopped := False\<rparr> in wc_startConnection bind_ok (wc_session c1) True c1)"

text \<open>\<open>Stop\<close> waits for the closure it posts; an exception in the closure breaks the promise, which
  ends the wait as well.\<close>

definition wc_Stop :: "bool \<Rightarrow> websocket_client \<Rightarrow> websocket_client \<times> websocket_call list" where
  "wc_Stop shutdown_ok c =
     (if wc_is_stopped c then (c, [])
      else
        let c1 = c\<lparr>wc_is_stopped := True, wc_session := wc_session c + 1\<rparr> in
        if wc_ws c1 \<and> \<not> shutdown_ok then (c1, [HandlerThrew])
        else (c1\<lparr>wc_ws := False\<rparr>, [DestroyWebsocketClientConnection]))"

text \<open>Leaving a session: the next number makes the handlers of the old one return at once.\<close>

definition wc_disconnect ::
    "bool \<Rightarrow> bool \<Rightarrow> ulong \<Rightarrow> websocket_client \<Rightarrow> websocket_client \<times> websocket_call list" where
  "wc_disconnect is_open bind_ok n c =
     (if wc_stale n c then (c, [])
      else
        let next = wc_session c + 1; c1 = c\<lparr>wc_session := next\<rparr> in
        if wc_ws c1 \<and> is_open then (c1, [DestroyWebsocketClientConnection, AsyncClose next])
        else (case wc_startConnection bind_ok next False c1 of
                (c2, cs) \<Rightarrow> (c2, DestroyWebsocketClientConnection # cs)))"

definition wc_onDisconnect ::
    "bool \<Rightarrow> ulong \<Rightarrow> websocket_client \<Rightarrow> websocket_client \<times> websocket_call list" where
  "wc_onDisconnect bind_ok n c =
     (if \<not> wc_is_stopped c \<and> n = wc_session c then wc_startConnection bind_ok n False c else (c, []))"

definition wc_onConnection ::
    "bool \<Rightarrow> ulong \<Rightarrow> bool \<Rightarrow> websocket_client \<Rightarrow> websocket_client \<times> websocket_call list" where
  "wc_onConnection bind_ok n ec c =
     (if wc_stale n c then (c, [])
      else if ec then wc_startConnection bind_ok n False c
      else (c, [ExpiresNever, SetTimeouts (wc_connection_timeout c) (wc_op_timeout c),
                AsyncHandshake n]))"

section \<open>Reading and writing\<close>

definition wc_read :: "ulong \<Rightarrow> websocket_client \<Rightarrow> websocket_call list" where
  "wc_read n c = (if wc_stale n c then [] else [AsyncRead n])"

text \<open>The front of the queue is only taken when it has one: its callers saw to that.\<close>

definition wc_doWrite :: "ulong \<Rightarrow> websocket_client \<Rightarrow> websocket_call list" where
  "wc_doWrite n c =
     (if wc_stale n c then [] else if wc_ws c then [AsyncWrite n (hd (wc_send_queue c))] else [])"

definition wc_onHandshake ::
    "bool \<Rightarrow> bool \<Rightarrow> ulong \<Rightarrow> bool \<Rightarrow> websocket_client \<Rightarrow> websocket_client \<times> websocket_call list" where
  "wc_onHandshake is_open bind_ok n ec c =
     (if wc_stale n c then (c, [])
      else if ec then wc_disconnect is_open bind_ok n c
      else (c, CreateWebsocketClientConnection # wc_read n c @
               (if wc_send_queue c \<noteq> [] then wc_doWrite n c else [])))"

text \<open>A read adds its bytes to the buffer. \<open>parse\<close> is the JSON parser, \<open>post\<close> the manager's
  \<open>PostWebsocketServerMessage\<close>: \<open>None\<close> is an exception, which is not a JSON one and is not caught.\<close>

definition wc_onRead ::
    "(string \<Rightarrow> 'j option) \<Rightarrow> ('j \<Rightarrow> bool option) \<Rightarrow> bool \<Rightarrow> bool \<Rightarrow> ulong \<Rightarrow> bool \<Rightarrow> string \<Rightarrow>
     websocket_client \<Rightarrow> websocket_client \<times> websocket_call list" where
  "wc_onRead parse post is_open bind_ok n ec bytes c =
     (let c0 = c\<lparr>wc_read_buffer := wc_read_buffer c @ bytes\<rparr> in
      if wc_stale n c0 then (c0, [])
      else if ec then wc_disconnect is_open bind_ok n c0
      else if bytes = [] then (c0, wc_read n c0)
      else (case parse (wc_read_buffer c0) of
              None \<Rightarrow> wc_disconnect is_open bind_ok n c0
            | Some js \<Rightarrow>
                (case post js of
                   None \<Rightarrow> (c0, [HandlerThrew])
                 | Some success \<Rightarrow>
                     if success then
                       let c1 = c0\<lparr>wc_read_buffer := drop (length bytes) (wc_read_buffer c0)\<rparr>
                       in (c1, wc_read n c1)
                     else wc_disconnect is_open bind_ok n c0)))"

definition PostWebsocketClientMessage :: "string \<Rightarrow> websocket_client \<Rightarrow> websocket_call list" where
  "PostWebsocketClientMessage dumped c = (if wc_is_stopped c then [] else [PostWrite dumped])"

definition wc_write :: "string \<Rightarrow> websocket_client \<Rightarrow> websocket_client \<times> websocket_call list" where
  "wc_write message c =
     (let c1 = c\<lparr>wc_send_queue := wc_send_queue c @ [message]\<rparr>
      in (c1, if length (wc_send_queue c1) = 1 then wc_doWrite (wc_session c1) c1 else []))"

text \<open>\<open>None\<close>: the front of an empty queue.\<close>

definition wc_onWrite ::
    "bool \<Rightarrow> bool \<Rightarrow> ulong \<Rightarrow> bool \<Rightarrow> nat \<Rightarrow> websocket_client \<Rightarrow>
     (websocket_client \<times> websocket_call list) option" where
  "wc_onWrite is_open bind_ok n ec bytes_transferred c =
     (if wc_is_stopped c then Some (c, [])
      else
        let current = wc_session c;
            failed = (if n \<noteq> current then Some (c, []) else Some (wc_disconnect is_open bind_ok n c))
        in if ec then failed
           else (case wc_send_queue c of
                   [] \<Rightarrow> None
                 | front # rest \<Rightarrow>
                     if bytes_transferred = length front then
                       let c1 = c\<lparr>wc_send_queue := rest\<rparr>
                       in Some (c1, if n = current \<and> rest \<noteq> [] then wc_doWrite n c1 else [])
                     else failed))"

section \<open>The client among its pending operations\<close>

text \<open>What the library still owes the client. A write remembers whether the stream was open when it
  was issued: one that was not fails.\<close>

datatype wc_op =
  OpConnect ulong | OpHandshake ulong | OpRead ulong | OpWrite ulong string bool | OpClose ulong
| OpPosted string

fun op_of :: "bool \<Rightarrow> websocket_call \<Rightarrow> wc_op list" where
  "op_of opened (AsyncConnect n) = [OpConnect n]"
| "op_of opened (AsyncHandshake n) = [OpHandshake n]"
| "op_of opened (AsyncRead n) = [OpRead n]"
| "op_of opened (AsyncWrite n m) = [OpWrite n m opened]"
| "op_of opened (AsyncClose n) = [OpClose n]"
| "op_of opened (PostWrite m) = [OpPosted m]"
| "op_of opened _ = []"

datatype completion = Failed | Completed string

record wsc =
  client :: websocket_client
  pend :: "wc_op multiset"
  newest :: ulong
  posted :: "string list"
  sent :: "string list"

definition opened_after :: "wsc \<Rightarrow> websocket_client \<Rightarrow> websocket_call list \<Rightarrow> bool" where
  "opened_after s c cs \<longleftrightarrow>
     OpRead (wc_session c) \<in># pend s \<or> AsyncRead (wc_session c) \<in> set cs"

fun writes_open :: "websocket_call list \<Rightarrow> bool" where
  "writes_open [] = False"
| "writes_open (AsyncWrite n m # cs) = True"
| "writes_open (_ # cs) = writes_open cs"

text \<open>The client goes on to \<open>c\<close> and makes the calls \<open>cs\<close>; \<open>newest\<close> is the session that issued the last
  write on an open stream.\<close>

definition advance :: "websocket_client \<times> websocket_call list \<Rightarrow> wsc \<Rightarrow> wsc" where
  "advance r s = (case r of (c, cs) \<Rightarrow>
     s\<lparr>client := c, pend := pend s + mset (concat (map (op_of (opened_after s c cs)) cs)),
       newest := (if opened_after s c cs \<and> writes_open cs then wc_session c else newest s)\<rparr>)"

fun wc_complete ::
    "(string \<Rightarrow> 'j option) \<Rightarrow> ('j \<Rightarrow> bool option) \<Rightarrow> bool \<Rightarrow> bool \<Rightarrow> wc_op \<Rightarrow> completion \<Rightarrow>
     websocket_client \<Rightarrow> (websocket_client \<times> websocket_call list) option" where
  "wc_complete parse post is_open bind_ok (OpConnect n) r c =
     Some (wc_onConnection bind_ok n (r = Failed) c)"
| "wc_complete parse post is_open bind_ok (OpHandshake n) r c =
     Some (wc_onHandshake is_open bind_ok n (r = Failed) c)"
| "wc_complete parse post is_open bind_ok (OpRead n) r c =
     Some (case r of Failed \<Rightarrow> wc_onRead parse post is_open bind_ok n True [] c
             | Completed bytes \<Rightarrow> wc_onRead parse post is_open bind_ok n False bytes c)"
| "wc_complete parse post is_open bind_ok (OpWrite n m opened) r c =
     wc_onWrite is_open bind_ok n (r = Failed) (length m) c"
| "wc_complete parse post is_open bind_ok (OpClose n) r c = Some (wc_onDisconnect bind_ok n c)"
| "wc_complete parse post is_open bind_ok (OpPosted m) r c = Some (wc_write m c)"

text \<open>What is assumed of the library: a write issued on a stream that is not open fails, and a write of
  a session left behind completes, if successfully, before a later session writes.\<close>

fun may_complete :: "wc_op \<Rightarrow> completion \<Rightarrow> wsc \<Rightarrow> bool" where
  "may_complete (OpWrite n m opened) (Completed b) s \<longleftrightarrow> opened \<and> n = newest s"
| "may_complete _ _ s \<longleftrightarrow> True"

text \<open>The messages whose write succeeded, and the messages that reached the queue.\<close>

definition log_done :: "wc_op \<Rightarrow> completion \<Rightarrow> wsc \<Rightarrow> wsc" where
  "log_done op r s = s\<lparr>pend := pend s - {#op#},
     posted := posted s @ (case op of OpPosted m \<Rightarrow> [m] | _ \<Rightarrow> []),
     sent := sent s @ (case op of
       OpWrite n m b \<Rightarrow> if r \<noteq> Failed \<and> \<not> wc_is_stopped (client s) then [m] else [] | _ \<Rightarrow> [])\<rparr>"

definition runs_on :: "websocket_client \<times> websocket_call list \<Rightarrow> wsc \<Rightarrow> bool" where
  "runs_on r s \<longleftrightarrow> HandlerThrew \<notin> set (snd r) \<and> wc_session (client s) \<le> wc_session (fst r)"

text \<open>Everything that can happen while no handler throws (and while the session number does not
  wrap around).\<close>

inductive wsc_reach :: "(string \<Rightarrow> 'j option) \<Rightarrow> ('j \<Rightarrow> bool option) \<Rightarrow> wsc \<Rightarrow> bool"
  for parse :: "string \<Rightarrow> 'j option" and post :: "'j \<Rightarrow> bool option" where
  created: "wsc_reach parse post \<lparr>client = WebsocketClient ct ot t fixed, pend = {#}, newest = 0,
     posted = [], sent = []\<rparr>"
| started: "wsc_reach parse post s \<Longrightarrow> runs_on (wc_Start bind_ok (client s)) s \<Longrightarrow>
     wsc_reach parse post (advance (wc_Start bind_ok (client s)) s)"
| stopped: "wsc_reach parse post s \<Longrightarrow> runs_on (wc_Stop shutdown_ok (client s)) s \<Longrightarrow>
     wsc_reach parse post (advance (wc_Stop shutdown_ok (client s)) s)"
| message: "wsc_reach parse post s \<Longrightarrow>
     wsc_reach parse post (advance (client s, PostWebsocketClientMessage m (client s)) s)"
| completed: "wsc_reach parse post s \<Longrightarrow> op \<in># pend s \<Longrightarrow> may_complete op r s \<Longrightarrow>
     wc_complete parse post is_open bind_ok op r (client s) = Some res \<Longrightarrow> runs_on res s \<Longrightarrow>
     wsc_reach parse post (advance res (log_done op r s))"

end
