(* ===== verification/Headset_Streamer.thy ===== *)
theory Headset_Streamer
  imports Service_Parts Headset_Domain Tcp_Client Websocket_Client
begin

text \<open>
  \<open>src/internal/service/headset/headset_streamer.cpp\<close>: the program of a headset. It owns the two network
  clients, the decoder, the graphics, the button and the connection state, and wires them together with
  callbacks. The events of its threads are steps: reports of the clients, polls of the button, turns of
  the decoder and of the graphics. Buffers given back by the deleter of an image return to the decoder.
\<close>

section \<open>Configuration\<close>

record headset_config =
  hc_tcp_server_host :: string
  hc_tcp_server_port :: int
  hc_tcp_client_timeout_on_read :: int
  hc_tcp_client_use_fixed_port :: bool
  hc_tcp_read_buffers :: int
  hc_websocket_server_host :: string
  hc_websocket_server_port :: int
  hc_decoder_type :: decoder_type
  hc_decoder_buffers_downstream :: nat
  hc_image_width_height :: "nat \<times> nat"
  hc_graphics_type :: graphics_type
  hc_gpio_type :: gpio_type

text \<open>What the configuration of a headset fixes: the size of the thread pool, the kind of connection, the
  timeouts of the websocket, and pin, debounce, hold and polling of the button.\<close>

definition hc_asio_pool_size :: nat where "hc_asio_pool_size = 2"

definition hc_connection_type :: connection_type where "hc_connection_type = HEADSET_CONNECTION"

definition hc_websocket_timeouts :: "int \<times> int" where "hc_websocket_timeouts = (20, 10)"

definition hc_tcp_client_read_buffer_size :: "headset_config \<Rightarrow> int" where
  "hc_tcp_client_read_buffer_size c =
     int (frame_size (fst (hc_image_width_height c)) (snd (hc_image_width_height c)))"

definition hc_button :: "int \<times> int \<times> int \<times> int" where "hc_button = (17, 20, 2500, 15)"

section \<open>State\<close>

record headset_streamer =
  hs_is_started :: bool
  hs_asio :: asio_context
  hs_tcp :: tcp_client
  hs_ws :: websocket_client
  hs_graphics :: graphics_part
  hs_decoder :: decoder_part
  hs_gpio :: gpio_part
  hs_state :: headset_state

text \<open>What the environment answers while the parts are created.\<close>

record headset_environment =
  env_junk :: "nat \<Rightarrow> byte"
  env_headset_built :: bool
  env_display_built :: bool
  env_pigpio_built :: bool
  env_format_ok :: bool
  env_granted :: "nat option"
  env_driver :: "nat \<Rightarrow> (byte list \<times> int) option"
  env_gpio :: "int \<times> int \<times> int"

definition headset_initialize :: "headset_environment \<Rightarrow> headset_config \<Rightarrow> string + headset_streamer" where
  "headset_initialize env c =
     (let w = fst (hc_image_width_height c); h = snd (hc_image_width_height c);
          (pin, debounce, hold, polling) = hc_button;
          (g1, g2, g3) = env_gpio env in
      case TcpClient (env_junk env) hc_connection_type (hc_tcp_client_use_fixed_port c)
             (hc_tcp_read_buffers c) (hc_tcp_client_read_buffer_size c) of
        Inl e \<Rightarrow> Inl e
      | Inr tcp \<Rightarrow>
          (case Graphics_Create (env_headset_built env) (env_display_built env) (hc_graphics_type c) of
             Inl e \<Rightarrow> Inl e
           | Inr g \<Rightarrow>
               (case Decoder_Create (env_format_ok env) (env_granted env) (env_driver env)
                       (hc_decoder_type c) w h (hc_decoder_buffers_downstream c) of
                  Inl e \<Rightarrow> Inl e
                | Inr d \<Rightarrow>
                    (case Gpio_Create (env_pigpio_built env) g1 g2 g3 (hc_gpio_type c) pin debounce hold polling of
                       Inl e \<Rightarrow> Inl e
                     | Inr p \<Rightarrow> Inr \<lparr>hs_is_started = False, hs_asio = asio_create hc_asio_pool_size,
                         hs_tcp = tcp,
                         hs_ws = WebsocketClient (fst hc_websocket_timeouts) (snd hc_websocket_timeouts)
                           hc_connection_type (hc_tcp_client_use_fixed_port c),
                         hs_graphics = g, hs_decoder = d, hs_gpio = p, hs_state = HeadsetState\<rparr>))))"

section \<open>State changes\<close>

text \<open>An exception of the websocket client's constructor of a stream leaves the function.\<close>

definition handleStateChangeConnecting ::
    "bool \<Rightarrow> headset_streamer \<Rightarrow> headset_streamer \<times> websocket_call list" where
  "handleStateChangeConnecting bind_ok s =
     (case wc_Start bind_ok (hs_ws s) of (ws, calls) \<Rightarrow>
        if HandlerThrew \<in> set calls then (s\<lparr>hs_ws := ws\<rparr>, calls)
        else (s\<lparr>hs_ws := ws, hs_tcp := client_Start (hs_tcp s),
                hs_decoder := decoder_Start (hs_decoder s)\<rparr>, calls))"

definition handleStateChange ::
    "bool \<Rightarrow> headset_states \<Rightarrow> headset_streamer \<Rightarrow> headset_streamer \<times> websocket_call list" where
  "handleStateChange bind_ok st s =
     (let s1 = s\<lparr>hs_graphics := graphics_PostState st (hs_graphics s)\<rparr> in
      case st of
        CONNECTING \<Rightarrow> handleStateChangeConnecting bind_ok s1
      | READY \<Rightarrow> (s1, [])
      | RUNNING \<Rightarrow> (s1, [])
      | CLOSING \<Rightarrow> (s1, []))"

definition doStateChange ::
    "bool \<Rightarrow> headset_states \<Rightarrow> headset_streamer \<Rightarrow> headset_streamer \<times> websocket_call list" where
  "doStateChange bind_ok st s = handleStateChange bind_ok st (s\<lparr>hs_state := PostState st (hs_state s)\<rparr>)"

text \<open>The callbacks of the TCP client and of the websocket client.\<close>

definition headset_tcp_report ::
    "bool \<Rightarrow> bool \<Rightarrow> headset_streamer \<Rightarrow> headset_streamer \<times> websocket_call list" where
  "headset_tcp_report bind_ok up s =
     (case PostTcpConnection up (hs_state s) of (hd1, state_change, state) \<Rightarrow>
        let s1 = s\<lparr>hs_state := hd1\<rparr> in
        if state_change then handleStateChange bind_ok state s1 else (s1, []))"

definition headset_websocket_report ::
    "bool \<Rightarrow> bool \<Rightarrow> headset_streamer \<Rightarrow> headset_streamer \<times> websocket_call list" where
  "headset_websocket_report bind_ok up s =
     (case PostWebsocketConnection up (hs_state s) of (hd1, state_change, state) \<Rightarrow>
        let s1 = s\<lparr>hs_state := hd1\<rparr> in
        if state_change then handleStateChange bind_ok state s1 else (s1, []))"

text \<open>A message of the server is not implemented: the exception is \<open>None\<close>.\<close>

definition headset_PostWebsocketServerMessage :: "'j \<Rightarrow> headset_streamer \<Rightarrow> bool option" where
  "headset_PostWebsocketServerMessage message s = None"

text \<open>The callback of the button. \<open>dump\<close> writes a JSON value.\<close>

definition headset_button ::
    "('f json \<Rightarrow> string) \<Rightarrow> bool \<Rightarrow> button_action \<Rightarrow> headset_streamer \<Rightarrow>
     headset_streamer \<times> websocket_call list" where
  "headset_button dump bind_ok action s =
     (case GetState (hs_state s) of
        READY \<Rightarrow> doStateChange bind_ok RUNNING s
      | RUNNING \<Rightarrow>
          if action = SINGLE_HOLD then
            (case doStateChange bind_ok READY s of (s1, calls) \<Rightarrow>
               (s1, calls @ PostWebsocketClientMessage (dump (GetMessage HeadsetResetCamera)) (hs_ws s1)))
          else (s, PostWebsocketClientMessage (dump (GetMessage HeadsetRotateCamera)) (hs_ws s))
      | _ \<Rightarrow> (s, []))"

section \<open>Images\<close>

text \<open>A freed image goes back into the decoder's pool.\<close>

definition headset_give_back :: "decoder_buffer list \<Rightarrow> headset_streamer \<Rightarrow> headset_streamer" where
  "headset_give_back bs s = (case hs_decoder s of
     SwDecoderPart d \<Rightarrow> s\<lparr>hs_decoder := SwDecoderPart (fold decoder_queueDownstreamBuffer bs d)\<rparr>
   | NullDecoder \<Rightarrow> s)"

definition graphics_takes :: "graphics_part \<Rightarrow> bool" where
  "graphics_takes p = (case p of HeadsetPart g \<Rightarrow> hg_is_ready g \<and> hg_is_display g
     | DisplayPart g \<Rightarrow> dg_is_ready g | NullGraphics \<Rightarrow> False)"

definition graphics_images :: "graphics_part \<Rightarrow> decoder_buffer list" where
  "graphics_images p = (case p of HeadsetPart g \<Rightarrow> hg_image_queue g
     | DisplayPart g \<Rightarrow> dg_image_queue g | NullGraphics \<Rightarrow> [])"

text \<open>The decoder's callback: an image that is not queued is freed.\<close>

definition headset_post_image :: "decoder_buffer \<Rightarrow> headset_streamer \<Rightarrow> headset_streamer" where
  "headset_post_image b s =
     (let s1 = s\<lparr>hs_graphics := graphics_PostImage b (hs_graphics s)\<rparr>
      in if graphics_takes (hs_graphics s) then s1 else headset_give_back [b] s1)"

text \<open>A frame of the TCP client. What the null decoder hands on is not a decoder's buffer: \<open>None\<close> when
  graphics would use it.\<close>

definition PostHeadsetClientBuffer :: "byte list \<Rightarrow> headset_streamer \<Rightarrow> headset_streamer option" where
  "PostHeadsetClientBuffer jpeg s = (case decoder_Post jpeg (hs_decoder s) of
     (d, None) \<Rightarrow> Some (s\<lparr>hs_decoder := d\<rparr>)
   | (d, Some cast) \<Rightarrow> if graphics_takes (hs_graphics s) then None else Some (s\<lparr>hs_decoder := d\<rparr>))"

definition headset_decode ::
    "(byte list \<Rightarrow> bool) \<Rightarrow> (byte list \<Rightarrow> byte list list option) \<Rightarrow> headset_streamer \<Rightarrow>
     headset_streamer \<times> decode_result option" where
  "headset_decode header decompress s = (case hs_decoder s of
     NullDecoder \<Rightarrow> (s, None)
   | SwDecoderPart d \<Rightarrow> (case decoder_turn header decompress d of (d1, r) \<Rightarrow>
       let s1 = s\<lparr>hs_decoder := SwDecoderPart d1\<rparr> in
       (case r of Some (Sent b) \<Rightarrow> headset_post_image b s1 | _ \<Rightarrow> s1, r)))"

text \<open>A turn of the graphics' loop; none while the thread is not in it.\<close>

definition headset_draw :: "(int \<Rightarrow> bool) \<Rightarrow> headset_streamer \<Rightarrow> headset_streamer \<times> drawn option" where
  "headset_draw imported s = (case hs_graphics s of
     HeadsetPart g \<Rightarrow>
       if hg_is_ready g then
         (case hg_turn imported g of (g1, d, images) \<Rightarrow>
            (headset_give_back images (s\<lparr>hs_graphics := HeadsetPart g1\<rparr>), Some d))
       else (s, None)
   | DisplayPart g \<Rightarrow>
       if dg_is_ready g then
         (case dg_turn imported g of (g1, d, images) \<Rightarrow>
            (headset_give_back images (s\<lparr>hs_graphics := DisplayPart g1\<rparr>), Some d))
       else (s, None)
   | NullGraphics \<Rightarrow> (s, None))"

section \<open>Starting and stopping\<close>

definition headset_Start :: "bool \<Rightarrow> headset_streamer \<Rightarrow> headset_streamer \<times> websocket_call list" where
  "headset_Start bind_ok s =
     (if hs_is_started s then (s, [])
      else
        let s1 = s\<lparr>hs_state := PostState CONNECTING (hs_state s), hs_graphics := graphics_Start (hs_graphics s),
              hs_decoder := decoder_Start (hs_decoder s), hs_asio := asio_start (hs_asio s),
              hs_tcp := client_Start (hs_tcp s)\<rparr>
        in (case wc_Start bind_ok (hs_ws s1) of (ws, calls) \<Rightarrow>
              if HandlerThrew \<in> set calls then (s1\<lparr>hs_ws := ws\<rparr>, calls)
              else (s1\<lparr>hs_ws := ws, hs_gpio := gpio_part_Start (hs_gpio s1), hs_is_started := True\<rparr>, calls)))"

text \<open>What the clients report while they are stopped.\<close>

definition headset_reports_of_stop ::
    "bool \<Rightarrow> websocket_call list \<Rightarrow> client_call list \<Rightarrow> headset_streamer \<Rightarrow> headset_streamer" where
  "headset_reports_of_stop bind_ok wcs ccs s =
     (let s1 = (if DestroyWebsocketClientConnection \<in> set wcs
                then fst (headset_websocket_report bind_ok False s) else s)
      in if DestroyHeadsetClient \<in> set ccs then fst (headset_tcp_report bind_ok False s1) else s1)"

text \<open>The images a stop of the graphics drops.\<close>

definition graphics_dropped :: "graphics_part \<Rightarrow> decoder_buffer list" where
  "graphics_dropped p = (case p of
     HeadsetPart g \<Rightarrow> if hg_stop_running g then [] else hg_image_queue g
   | DisplayPart g \<Rightarrow> if dg_stop_running g then [] else dg_image_queue g
   | NullGraphics \<Rightarrow> [])"

text \<open>The websocket client's \<open>Stop\<close> waits for a closure it posts to the thread pool: without a thread it
  never returns (\<open>None\<close>).\<close>

definition headset_Stop :: "bool \<Rightarrow> bool \<Rightarrow> headset_streamer \<Rightarrow> headset_streamer option" where
  "headset_Stop bind_ok shutdown_ok s =
     (if \<not> hs_is_started s then Some s
      else
        let s1 = s\<lparr>hs_state := PostState CLOSING (hs_state s), hs_gpio := gpio_part_Stop (hs_gpio s)\<rparr> in
        if \<not> wc_is_stopped (hs_ws s1) \<and> asio_running (hs_asio s1) = 0 then None
        else (case wc_Stop shutdown_ok (hs_ws s1) of (ws, wcs) \<Rightarrow>
          let s2 = headset_reports_of_stop bind_ok wcs [] (s1\<lparr>hs_ws := ws\<rparr>) in
          (case client_Stop (hs_tcp s2) of (tcp, ccs) \<Rightarrow>
            let s3 = headset_reports_of_stop bind_ok [] ccs (s2\<lparr>hs_tcp := tcp\<rparr>);
                s4 = s3\<lparr>hs_asio := asio_halt (hs_asio s3)\<rparr>;
                s5 = headset_give_back (graphics_dropped (hs_graphics s4)) (s4\<lparr>hs_graphics := graphics_Stop (hs_graphics s4)\<rparr>)
            in Some (s5\<lparr>hs_decoder := decoder_Stop (hs_decoder s5), hs_is_started := False\<rparr>))))"

end
