(* ===== verification/Headset_Life.thy ===== *)
theory Headset_Life
  imports Headset_Streamer
begin

text \<open>
  The headset as a whole: runs of its events. No decoder buffer is lost or doubled on its way between
  decoder and graphics, the screen tells the state of the two connections, and a frame that arrives while
  the headset runs is what the next turn of the graphics draws.
\<close>

section \<open>Runs\<close>

datatype headset_event =
  HsStart | HsStop | HsTcp bool | HsWebsocket bool | HsPoll int int | HsFrame "byte list"
| HsDecode | HsEnterLoop | HsLeaveLoop | HsDraw

text \<open>What the libraries answer.\<close>

record headset_library =
  lib_dump :: "unit json \<Rightarrow> string"
  lib_bind_ok :: bool
  lib_shutdown_ok :: bool
  lib_header :: "byte list \<Rightarrow> bool"
  lib_decompress :: "byte list \<Rightarrow> byte list list option"
  lib_imported :: "int \<Rightarrow> bool"

definition headset_poll ::
    "headset_library \<Rightarrow> int \<Rightarrow> int \<Rightarrow> headset_streamer \<Rightarrow> headset_streamer \<times> websocket_call list" where
  "headset_poll lib now level s = (case hs_gpio s of
     NullGpio \<Rightarrow> (s, [])
   | PiPart g \<Rightarrow> (case gpio_poll now level g of
       (g1, None) \<Rightarrow> (s\<lparr>hs_gpio := PiPart g1\<rparr>, [])
     | (g1, Some a) \<Rightarrow> headset_button (lib_dump lib) (lib_bind_ok lib) a (s\<lparr>hs_gpio := PiPart g1\<rparr>)))"

text \<open>The thread of the graphics is in its loop between entering and leaving it.\<close>

definition headset_enter_loop :: "headset_streamer \<Rightarrow> headset_streamer" where
  "headset_enter_loop s = (case hs_graphics s of
     HeadsetPart g \<Rightarrow> if hg_thread g then s\<lparr>hs_graphics := HeadsetPart (hg_enter_loop g)\<rparr> else s
   | DisplayPart g \<Rightarrow> if dg_thread g then s\<lparr>hs_graphics := DisplayPart (dg_enter_loop g)\<rparr> else s
   | NullGraphics \<Rightarrow> s)"

definition headset_leave_loop :: "headset_streamer \<Rightarrow> headset_streamer" where
  "headset_leave_loop s = (case hs_graphics s of
     HeadsetPart g \<Rightarrow> s\<lparr>hs_graphics := HeadsetPart (hg_leave_loop g)\<rparr>
   | DisplayPart g \<Rightarrow> s\<lparr>hs_graphics := DisplayPart (dg_leave_loop g)\<rparr>
   | NullGraphics \<Rightarrow> s)"

text \<open>A step, and how many images failed after their header was read.\<close>

definition decode_failed :: "headset_library \<Rightarrow> headset_streamer \<Rightarrow> nat" where
  "decode_failed lib s = (case hs_decoder s of
     NullDecoder \<Rightarrow> 0
   | SwDecoderPart d \<Rightarrow> (case decoder_next_image d of
       None \<Rightarrow> 0
     | Some (jpeg, d1) \<Rightarrow>
         if lib_header lib jpeg \<and> snd (headset_decode (lib_header lib) (lib_decompress lib) s) = Some DecodeError
         then 1 else 0))"

fun headset_step :: "headset_library \<Rightarrow> headset_event \<Rightarrow> headset_streamer \<times> nat \<Rightarrow> headset_streamer \<times> nat" where
  "headset_step lib HsStart (s, failed) = (fst (headset_Start (lib_bind_ok lib) s), failed)"
| "headset_step lib HsStop (s, failed) =
     (case headset_Stop (lib_bind_ok lib) (lib_shutdown_ok lib) s of None \<Rightarrow> s | Some s1 \<Rightarrow> s1, failed)"
| "headset_step lib (HsTcp up) (s, failed) = (fst (headset_tcp_report (lib_bind_ok lib) up s), failed)"
| "headset_step lib (HsWebsocket up) (s, failed) =
     (fst (headset_websocket_report (lib_bind_ok lib) up s), failed)"
| "headset_step lib (HsPoll now level) (s, failed) = (fst (headset_poll lib now level s), failed)"
| "headset_step lib (HsFrame jpeg) (s, failed) =
     (case PostHeadsetClientBuffer jpeg s of None \<Rightarrow> s | Some s1 \<Rightarrow> s1, failed)"
| "headset_step lib HsDecode (s, failed) =
     (fst (headset_decode (lib_header lib) (lib_decompress lib) s), failed + decode_failed lib s)"
| "headset_step lib HsEnterLoop (s, failed) = (headset_enter_loop s, failed)"
| "headset_step lib HsLeaveLoop (s, failed) = (headset_leave_loop s, failed)"
| "headset_step lib HsDraw (s, failed) = (fst (headset_draw (lib_imported lib) s), failed)"

section \<open>Buffers\<close>

definition pool_of :: "headset_streamer \<Rightarrow> decoder_buffer list" where
  "pool_of s = (case hs_decoder s of SwDecoderPart d \<Rightarrow> dec_downstream d | NullDecoder \<Rightarrow> [])"

definition buffers_of :: "headset_streamer \<Rightarrow> nat multiset" where
  "buffers_of s = mset (map db_index (pool_of s)) + mset (map db_index (graphics_images (hs_graphics s)))"

definition decodes :: "headset_streamer \<Rightarrow> bool" where
  "decodes s \<longleftrightarrow> hs_decoder s \<noteq> NullDecoder"

lemma fold_give_back: "dec_downstream (fold decoder_queueDownstreamBuffer bs d) = dec_downstream d @ bs"
  by (induction bs arbitrary: d) (simp_all add: decoder_queueDownstreamBuffer_def)

lemma give_back_facts:
  "hs_graphics (headset_give_back bs s) = hs_graphics s"
  "decodes (headset_give_back bs s) = decodes s"
  "decodes s \<Longrightarrow> pool_of (headset_give_back bs s) = pool_of s @ bs"
  by (auto simp: headset_give_back_def pool_of_def decodes_def fold_give_back split: decoder_part.splits)

text \<open>What the state changes touch, as far as buffers are concerned.\<close>

definition same_buffers :: "headset_streamer \<Rightarrow> headset_streamer \<Rightarrow> bool" where
  "same_buffers s s' \<longleftrightarrow> pool_of s' = pool_of s \<and> decodes s' = decodes s \<and>
     graphics_images (hs_graphics s') = graphics_images (hs_graphics s)"

lemma same_buffersD: "same_buffers s s' \<Longrightarrow> buffers_of s' = buffers_of s \<and> decodes s' = decodes s"
  by (simp add: same_buffers_def buffers_of_def)

lemma part_images [simp]:
  "graphics_images (graphics_PostState st p) = graphics_images p"
  "graphics_images (graphics_Start p) = graphics_images p"
  by (auto simp: graphics_images_def part_defs PostGraphicsHeadsetState_def hg_StartGraphics_def
      dg_StartGraphics_def split: graphics_part.splits)

lemma part_pool [simp]:
  "(case decoder_Start p of SwDecoderPart d \<Rightarrow> dec_downstream d | NullDecoder \<Rightarrow> []) =
     (case p of SwDecoderPart d \<Rightarrow> dec_downstream d | NullDecoder \<Rightarrow> [])"
  "(case decoder_Stop p of SwDecoderPart d \<Rightarrow> dec_downstream d | NullDecoder \<Rightarrow> []) =
     (case p of SwDecoderPart d \<Rightarrow> dec_downstream d | NullDecoder \<Rightarrow> [])"
  "decoder_Start p = NullDecoder \<longleftrightarrow> p = NullDecoder"
  "decoder_Stop p = NullDecoder \<longleftrightarrow> p = NullDecoder"
  by (auto simp: part_defs StartDecoder_def StopDecoder_def split: decoder_part.splits)

lemma handleStateChange_buffers: "same_buffers s (fst (handleStateChange bind_ok st s))"
  by (cases st)
     (auto simp: handleStateChange_def handleStateChangeConnecting_def same_buffers_def pool_of_def
       decodes_def Let_def split: prod.split)

lemma same_buffers_state [simp]:
  "same_buffers (s\<lparr>hs_state := x\<rparr>) s' = same_buffers s s'"
  "same_buffers (s\<lparr>hs_gpio := g\<rparr>) s' = same_buffers s s'"
  "same_buffers s s"
  by (simp_all add: same_buffers_def pool_of_def decodes_def)

lemma doStateChange_buffers: "same_buffers s (fst (doStateChange bind_ok st s))"
  using handleStateChange_buffers [of "s\<lparr>hs_state := PostState st (hs_state s)\<rparr>" bind_ok st]
  by (simp add: doStateChange_def)

lemma same_buffers_gpio: "same_buffers s (s\<lparr>hs_gpio := g\<rparr>)" "same_buffers s (s\<lparr>hs_state := x\<rparr>)"
  by (simp_all add: same_buffers_def pool_of_def decodes_def)

lemma reports_buffers:
  "same_buffers s (fst (headset_tcp_report bind_ok up s))"
  "same_buffers s (fst (headset_websocket_report bind_ok up s))"
  using handleStateChange_buffers [of "s\<lparr>hs_state := x\<rparr>" bind_ok for x]
  by (auto simp: headset_tcp_report_def headset_websocket_report_def Let_def same_buffers_gpio
      split: prod.split)

lemma button_buffers: "same_buffers s (fst (headset_button dump bind_ok a s))"
  using doStateChange_buffers [of s bind_ok]
  by (auto simp: headset_button_def split: headset_states.splits prod.split)
     (metis fst_conv)

lemma poll_buffers: "same_buffers s (fst (headset_poll lib now level s))"
proof (cases "hs_gpio s")
  case (PiPart g)
  obtain g1 r where p: "gpio_poll now level g = (g1, r)" by fastforce
  show ?thesis
    using PiPart p button_buffers [of "s\<lparr>hs_gpio := PiPart g1\<rparr>"] same_buffers_gpio(1) [of s]
    by (cases r) (simp_all add: headset_poll_def)
qed (simp add: headset_poll_def)

lemma start_buffers: "same_buffers s (fst (headset_Start bind_ok s))"
  by (auto simp: headset_Start_def same_buffers_def pool_of_def decodes_def Let_def split: prod.split)

lemma leave_enter_buffers:
  "same_buffers s (headset_enter_loop s)" "same_buffers s (headset_leave_loop s)"
  by (auto simp: headset_enter_loop_def headset_leave_loop_def same_buffers_def pool_of_def decodes_def
      graphics_images_def hg_enter_loop_def dg_enter_loop_def hg_leave_loop_def dg_leave_loop_def
      split: graphics_part.splits)

lemma frame_buffers: "PostHeadsetClientBuffer jpeg s = Some s1 \<Longrightarrow> same_buffers s s1"
  by (auto simp: PostHeadsetClientBuffer_def part_defs PostJpegBuffer_def same_buffers_def pool_of_def
      decodes_def split: decoder_part.splits if_splits)

lemma same_buffers_trans: "same_buffers a b \<Longrightarrow> same_buffers b c \<Longrightarrow> same_buffers a c"
  by (simp add: same_buffers_def)

lemma same_buffers_parts:
  "same_buffers s (s\<lparr>hs_ws := w\<rparr>)" "same_buffers s (s\<lparr>hs_tcp := t\<rparr>)" "same_buffers s (s\<lparr>hs_asio := a\<rparr>)"
  by (simp_all add: same_buffers_def pool_of_def decodes_def)

lemma stop_reports_buffers: "same_buffers s (headset_reports_of_stop bind_ok wcs ccs s)"
  unfolding headset_reports_of_stop_def Let_def
  by (auto intro: reports_buffers same_buffers_trans [OF reports_buffers(2) reports_buffers(1)])

lemma stopped_graphics: "graphics_images (graphics_Stop p) @ graphics_dropped p = graphics_images p"
  by (auto simp: graphics_images_def graphics_dropped_def part_defs hg_StopGraphics_def
      dg_StopGraphics_def split: graphics_part.splits)

lemma give_back_stopped:
  assumes "decodes s"
  shows "buffers_of (headset_give_back (graphics_dropped (hs_graphics s))
      (s\<lparr>hs_graphics := graphics_Stop (hs_graphics s)\<rparr>)) = buffers_of s \<and>
    decodes (headset_give_back bs (s\<lparr>hs_graphics := graphics_Stop (hs_graphics s)\<rparr>))"
proof -
  have "decodes (s\<lparr>hs_graphics := graphics_Stop (hs_graphics s)\<rparr>)"
    "pool_of (s\<lparr>hs_graphics := graphics_Stop (hs_graphics s)\<rparr>) = pool_of s"
    using assms by (simp_all add: decodes_def pool_of_def)
  then show ?thesis
    using arg_cong [OF stopped_graphics, of "\<lambda>bs. mset (map db_index bs)" "hs_graphics s"]
    by (simp add: buffers_of_def give_back_facts ac_simps)
qed

lemma stop_buffers:
  assumes "headset_Stop bind_ok shutdown_ok s = Some s1" "decodes s"
  shows "buffers_of s1 = buffers_of s \<and> decodes s1"
proof (cases "hs_is_started s")
  case True
  define a where "a = s\<lparr>hs_state := PostState CLOSING (hs_state s), hs_gpio := gpio_part_Stop (hs_gpio s)\<rparr>"
  obtain ws wcs where w: "wc_Stop shutdown_ok (hs_ws a) = (ws, wcs)" by fastforce
  define b where "b = headset_reports_of_stop bind_ok wcs [] (a\<lparr>hs_ws := ws\<rparr>)"
  obtain tcp ccs where t: "client_Stop (hs_tcp b) = (tcp, ccs)" by fastforce
  define c where "c = headset_reports_of_stop bind_ok [] ccs (b\<lparr>hs_tcp := tcp\<rparr>)"
  define d where "d = c\<lparr>hs_asio := asio_halt (hs_asio c)\<rparr>"
  define e where "e = headset_give_back (graphics_dropped (hs_graphics d))
    (d\<lparr>hs_graphics := graphics_Stop (hs_graphics d)\<rparr>)"
  have "same_buffers s a" by (simp add: a_def same_buffers_def pool_of_def decodes_def)
  moreover have "same_buffers a b"
    unfolding b_def using stop_reports_buffers same_buffers_parts(1) same_buffers_trans by blast
  moreover have "same_buffers b c"
    unfolding c_def using stop_reports_buffers same_buffers_parts(2) same_buffers_trans by blast
  moreover have "same_buffers c d" unfolding d_def by (rule same_buffers_parts(3))
  ultimately have "same_buffers s d" using same_buffers_trans by blast
  with assms(2) have d: "decodes d" "buffers_of d = buffers_of s" using same_buffersD by auto
  have "buffers_of e = buffers_of s \<and> decodes e"
    using give_back_stopped [OF d(1)] d(2) unfolding e_def by metis
  moreover have "headset_Stop bind_ok shutdown_ok s =
      (if \<not> wc_is_stopped (hs_ws a) \<and> asio_running (hs_asio a) = 0 then None
       else Some (e\<lparr>hs_decoder := decoder_Stop (hs_decoder e), hs_is_started := False\<rparr>))"
    unfolding headset_Stop_def Let_def e_def d_def c_def using True w t
    by (simp add: a_def b_def c_def)
  ultimately show ?thesis using assms(1) by (auto simp: buffers_of_def pool_of_def decodes_def split: if_splits)
qed (use assms in \<open>simp add: headset_Stop_def\<close>)

lemma post_image_buffers:
  assumes "decodes s"
  shows "buffers_of (headset_post_image b s) = add_mset (db_index b) (buffers_of s) \<and>
    decodes (headset_post_image b s)"
proof -
  let ?s = "s\<lparr>hs_graphics := graphics_PostImage b (hs_graphics s)\<rparr>"
  have s: "decodes ?s" "pool_of ?s = pool_of s" using assms by (simp_all add: decodes_def pool_of_def)
  have g: "graphics_images (graphics_PostImage b (hs_graphics s)) =
      graphics_images (hs_graphics s) @ (if graphics_takes (hs_graphics s) then [b] else [])"
    by (auto simp: graphics_images_def graphics_takes_def part_defs hg_PostImage_def dg_PostImage_def
        split: graphics_part.splits)
  show ?thesis
    using s g by (simp add: headset_post_image_def Let_def buffers_of_def give_back_facts)
qed

lemma draw_buffers:
  assumes "decodes s"
  shows "buffers_of (fst (headset_draw imported s)) = buffers_of s \<and> decodes (fst (headset_draw imported s))"
proof (cases "hs_graphics s")
  case (HeadsetPart g)
  obtain g1 d images where t: "hg_turn imported g = (g1, d, images)" by (cases "hg_turn imported g") auto
  let ?s = "s\<lparr>hs_graphics := HeadsetPart g1\<rparr>"
  have "decodes ?s" "pool_of ?s = pool_of s" using assms by (simp_all add: decodes_def pool_of_def)
  moreover have "mset images + mset (hg_image_queue g1) = mset (hg_image_queue g)"
    using hg_images_step [of imported HgTurn g "[]"] t by simp
  from arg_cong [OF this, of "image_mset db_index"]
  have "mset (map db_index images) + mset (map db_index (hg_image_queue g1)) =
      mset (map db_index (hg_image_queue g))" by simp
  ultimately show ?thesis
    using HeadsetPart t assms
    by (auto simp: headset_draw_def buffers_of_def give_back_facts graphics_images_def ac_simps)
next
  case (DisplayPart g)
  obtain g1 d images where t: "dg_turn imported g = (g1, d, images)" by (cases "dg_turn imported g") auto
  let ?s = "s\<lparr>hs_graphics := DisplayPart g1\<rparr>"
  have "decodes ?s" "pool_of ?s = pool_of s" using assms by (simp_all add: decodes_def pool_of_def)
  moreover have "images = dg_image_queue g" "dg_image_queue g1 = []"
    using t by (auto simp: dg_turn_def Let_def split: prod.splits if_splits)
  ultimately show ?thesis
    using DisplayPart t assms
    by (auto simp: headset_draw_def buffers_of_def give_back_facts graphics_images_def ac_simps)
qed (use assms in \<open>simp add: headset_draw_def\<close>)

lemma decoder_next_pool:
  "decoder_next_image d = Some (jpeg, d1) \<Longrightarrow> dec_downstream d1 = dec_downstream d"
  by (auto simp: decoder_next_image_def split: if_splits list.splits)

lemma decode_buffers:
  assumes "decodes s"
  shows "decodes (fst (headset_decode (lib_header lib) (lib_decompress lib) s)) \<and>
    buffers_of (fst (headset_decode (lib_header lib) (lib_decompress lib) s)) \<subseteq># buffers_of s \<and>
    size (buffers_of (fst (headset_decode (lib_header lib) (lib_decompress lib) s))) + decode_failed lib s =
      size (buffers_of s)"
proof -
  obtain d where d: "hs_decoder s = SwDecoderPart d" using assms by (cases "hs_decoder s") (auto simp: decodes_def)
  show ?thesis
  proof (cases "decoder_next_image d")
    case None
    with d assms show ?thesis
      by (simp add: headset_decode_def decoder_turn_def decode_failed_def decodes_def buffers_of_def pool_of_def)
  next
    case (Some nx)
    then obtain jpeg d1 where nx: "decoder_next_image d = Some (jpeg, d1)" by (cases nx) auto
    obtain d2 r where b: "decodeBuffer (lib_header lib) (lib_decompress lib) jpeg d1 = (d2, r)" by fastforce
    let ?s = "s\<lparr>hs_decoder := SwDecoderPart d2\<rparr>"
    have dec: "decodes ?s" by (simp add: decodes_def)
    have pool: "pool_of s = dec_downstream d1" using d decoder_next_pool [OF nx] by (simp add: pool_of_def)
    have images: "graphics_images (hs_graphics ?s) = graphics_images (hs_graphics s)" by simp
    show ?thesis
    proof (cases r)
      case DecodeError
      have "headset_decode (lib_header lib) (lib_decompress lib) s = (?s, Some DecodeError)"
        using d nx b DecodeError by (simp add: headset_decode_def decoder_turn_def)
      moreover have "decode_failed lib s = (if lib_header lib jpeg then 1 else 0)"
        using calculation d nx by (simp add: decode_failed_def)
      moreover have "dec_downstream d1 = (if lib_header lib jpeg then [hd (dec_downstream d1)] else []) @ dec_downstream d2"
        using b DecodeError
        by (auto simp: decodeBuffer_def decoder_take_buffer_def Let_def split: if_splits list.splits option.splits)
      then have "mset (map db_index (pool_of s)) =
          (if lib_header lib jpeg then {#db_index (hd (dec_downstream d1))#} else {#}) + mset (map db_index (pool_of ?s))"
        unfolding pool by (auto simp: pool_of_def split: if_splits) (metis image_mset_add_mset mset.simps(2))
      ultimately show ?thesis using dec by (simp add: buffers_of_def split: if_splits)
    next
      case Dropped
      have "headset_decode (lib_header lib) (lib_decompress lib) s = (?s, Some Dropped)"
        using d nx b Dropped by (simp add: headset_decode_def decoder_turn_def)
      moreover have "decode_failed lib s = 0" using calculation d nx by (simp add: decode_failed_def)
      moreover have "dec_downstream d2 = dec_downstream d1"
        using b Dropped
        by (auto simp: decodeBuffer_def decoder_take_buffer_def Let_def split: if_splits list.splits option.splits)
      ultimately show ?thesis using dec pool by (simp add: buffers_of_def pool_of_def)
    next
      case (Sent x)
      have "headset_decode (lib_header lib) (lib_decompress lib) s = (headset_post_image x ?s, Some (Sent x))"
        using d nx b Sent by (simp add: headset_decode_def decoder_turn_def)
      moreover have "decode_failed lib s = 0" using calculation d nx by (simp add: decode_failed_def)
      moreover have "map db_index (dec_downstream d1) = db_index x # map db_index (dec_downstream d2)"
        using b Sent
        by (auto simp: decodeBuffer_def decoder_take_buffer_def Let_def split: if_splits list.splits option.splits)
      then have "buffers_of s = add_mset (db_index x) (buffers_of ?s)"
        unfolding buffers_of_def pool by (simp add: pool_of_def)
      ultimately show ?thesis using post_image_buffers [OF dec, of x] by simp
    qed
  qed
qed

lemma distinct_submset:
  assumes "mset xs \<subseteq># mset ys" "distinct ys"
  shows "distinct xs"
proof -
  have "count (mset ys) a \<le> 1" for a
    using assms(2) by (cases "a \<in> set ys") (simp_all add: distinct_count_atmost_1 count_eq_zero_iff)
  then have "count (mset xs) a \<le> 1" for a
    using mset_subset_eq_count [OF assms(1), of a] le_trans by blast
  moreover have "a \<in> set xs \<Longrightarrow> 0 < count (mset xs) a" for a by (simp add: count_greater_zero_iff)
  ultimately show ?thesis
    unfolding distinct_count_atmost_1 by (metis One_nat_def Suc_leI le_antisym count_eq_zero_iff set_mset_mset)
qed

lemma headset_step_buffers:
  assumes "decodes s" "headset_step lib e (s, failed) = (s', failed')"
  shows "decodes s' \<and> buffers_of s' \<subseteq># buffers_of s \<and>
    size (buffers_of s') + failed' = size (buffers_of s) + failed"
proof (cases e)
  case HsStop
  then show ?thesis
    using assms stop_buffers [of "lib_bind_ok lib" "lib_shutdown_ok lib" s] by (auto split: option.splits)
next
  case (HsFrame jpeg)
  then show ?thesis
    using assms same_buffersD [OF frame_buffers [of jpeg s]] by (auto split: option.splits)
next
  case HsDecode
  then show ?thesis using assms decode_buffers [OF assms(1), of lib] by auto
next
  case HsDraw
  then show ?thesis using assms draw_buffers [OF assms(1), of "lib_imported lib"] by auto
qed (use assms same_buffersD [OF start_buffers [of s "lib_bind_ok lib"]]
      same_buffersD [OF reports_buffers(1) [of s "lib_bind_ok lib"]]
      same_buffersD [OF reports_buffers(2) [of s "lib_bind_ok lib"]]
      same_buffersD [OF poll_buffers [of s lib]] same_buffersD [OF leave_enter_buffers(1) [of s]]
      same_buffersD [OF leave_enter_buffers(2) [of s]] in auto)

lemma headset_run_buffers:
  assumes "decodes s" "fold (headset_step lib) es (s, failed) = (s', failed')"
  shows "decodes s' \<and> buffers_of s' \<subseteq># buffers_of s \<and>
    size (buffers_of s') + failed' = size (buffers_of s) + failed"
  using assms
proof (induction es arbitrary: s failed)
  case (Cons e es)
  obtain s1 failed1 where e: "headset_step lib e (s, failed) = (s1, failed1)" by fastforce
  from headset_step_buffers [OF Cons.prems(1) e] Cons.IH [of s1 failed1] Cons.prems(2) e
  show ?case by (auto intro: subset_mset.order_trans)
qed simp

lemma initialize_facts:
  assumes "headset_initialize env c = Inr s"
  shows "hs_asio s = asio_create hc_asio_pool_size" "hs_state s = HeadsetState" "\<not> hs_is_started s"
    "hc_decoder_type c = DecoderSw \<Longrightarrow> \<exists>d. hs_decoder s = SwDecoderPart d \<and>
       map db_index (dec_downstream d) = [0..<hc_decoder_buffers_downstream c] \<and>
       dec_work_queue d = [] \<and> dec_work_stop d \<and>
       (dec_width d, dec_height d) = hc_image_width_height c"
    "graphics_images (hs_graphics s) = []"
    "hc_graphics_type c = GraphicsHeadset \<Longrightarrow> hs_graphics s = HeadsetPart HeadsetGraphics"
proof -
  have made: "setup_buffers driver ks = Some bs \<Longrightarrow> map db_index bs = ks" for driver ks bs
    by (induction ks arbitrary: bs) (auto split: option.splits)
  note defs = headset_initialize_def hc_button_def Let_def part_creators SwDecoder_def
  show "hs_asio s = asio_create hc_asio_pool_size" "hs_state s = HeadsetState" "\<not> hs_is_started s"
    using assms by (auto simp: headset_initialize_def hc_button_def Let_def split: sum.splits prod.splits)
  show "graphics_images (hs_graphics s) = []"
    "hc_graphics_type c = GraphicsHeadset \<Longrightarrow> hs_graphics s = HeadsetPart HeadsetGraphics"
    using assms
    by (auto simp: headset_initialize_def hc_button_def Let_def Graphics_Create_def graphics_images_def
        HeadsetGraphics_def DisplayGraphics_def split: sum.splits prod.splits if_splits)
  show "\<exists>d. hs_decoder s = SwDecoderPart d \<and>
       map db_index (dec_downstream d) = [0..<hc_decoder_buffers_downstream c] \<and>
       dec_work_queue d = [] \<and> dec_work_stop d \<and> (dec_width d, dec_height d) = hc_image_width_height c"
    if "hc_decoder_type c = DecoderSw"
    using assms that
    by (auto simp: headset_initialize_def hc_button_def Let_def Decoder_Create_def SwDecoder_def
        split: sum.splits prod.splits if_splits option.splits dest!: made)
qed

text \<open>C6 (invariant): from the creation of a headset, through every sequence of starts, stops, connection
  reports, button polls, frames, decodes and drawings, the buffers in the decoder's pool and those queued
  for the graphics are as many as were made less the images that failed after their header, and none is
  in two places.\<close>

theorem headset_buffers_conserved:
  assumes "headset_initialize env c = Inr s0" "hc_decoder_type c = DecoderSw"
    and "fold (headset_step lib) es (s0, 0) = (s, failed)"
  shows "length (pool_of s) + length (graphics_images (hs_graphics s)) + failed =
      hc_decoder_buffers_downstream c \<and>
    distinct (map db_index (pool_of s @ graphics_images (hs_graphics s)))"
proof -
  have b: "buffers_of s0 = mset [0..<hc_decoder_buffers_downstream c]" and d: "decodes s0"
    using initialize_facts(4,5) [OF assms(1)] assms(2)
    by (auto simp: buffers_of_def pool_of_def decodes_def simp flip: mset_map)
  note r = headset_run_buffers [OF d assms(3), unfolded b]
  have "size (buffers_of s) = length (pool_of s) + length (graphics_images (hs_graphics s))"
    by (simp add: buffers_of_def)
  moreover have "mset (map db_index (pool_of s @ graphics_images (hs_graphics s))) \<subseteq># mset [0..<hc_decoder_buffers_downstream c]"
    using r by (simp add: buffers_of_def)
  then have "distinct (map db_index (pool_of s @ graphics_images (hs_graphics s)))"
    by (rule distinct_submset) simp
  ultimately show ?thesis using r by simp
qed

definition demo_environment :: headset_environment where
  "demo_environment = \<lparr>env_junk = \<lambda>_. 0, env_headset_built = True, env_display_built = False,
     env_pigpio_built = True, env_format_ok = True, env_granted = Some 2,
     env_driver = \<lambda>i. Some (replicate 48 0, int i), env_gpio = (0, 0, 0)\<rparr>"

definition demo_config :: headset_config where
  "demo_config = \<lparr>hc_tcp_server_host = ''69.4.20.10'', hc_tcp_server_port = 6969,
     hc_tcp_client_timeout_on_read = 3, hc_tcp_client_use_fixed_port = False, hc_tcp_read_buffers = 4,
     hc_websocket_server_host = ''69.4.20.10'', hc_websocket_server_port = 8008,
     hc_decoder_type = DecoderSw, hc_decoder_buffers_downstream = 2, hc_image_width_height = (2, 16),
     hc_graphics_type = GraphicsHeadset, hc_gpio_type = GpioPigpio\<rparr>"

definition demo_library :: headset_library where
  "demo_library = \<lparr>lib_dump = \<lambda>_. ''{}'', lib_bind_ok = True, lib_shutdown_ok = True,
     lib_header = \<lambda>_. True, lib_decompress = \<lambda>j. if j = [] then None else Some [],
     lib_imported = \<lambda>_. True\<rparr>"

definition demo_headset :: headset_streamer where
  "demo_headset = (case headset_initialize demo_environment demo_config of Inr s \<Rightarrow> s)"

lemma demo_headset_created: "headset_initialize demo_environment demo_config = Inr demo_headset"
proof -
  have "SwDecoder True (Some 2) (\<lambda>i. Some (replicate 48 0, int i)) 2 16 2 = Inr (demo_decoder 2)"
    by (rule demo_decoder_created)
  then have "\<exists>s. headset_initialize demo_environment demo_config = Inr s"
    by (simp add: headset_initialize_def demo_environment_def demo_config_def hc_button_def
        hc_connection_type_def TcpClient_def part_creators PiGpio_def Let_def)
  then show ?thesis by (auto simp: demo_headset_def)
qed

theorem headset_buffers_conserved_witness:
  "let r = fold (headset_step demo_library) [HsStart, HsFrame [], HsDecode, HsFrame [1], HsDecode] (demo_headset, 0)
   in length (pool_of (fst r)) + length (graphics_images (hs_graphics (fst r))) + snd r = 2"
  using headset_buffers_conserved [OF demo_headset_created, of demo_library
      "[HsStart, HsFrame [], HsDecode, HsFrame [1], HsDecode]"
      "fst (fold (headset_step demo_library) [HsStart, HsFrame [], HsDecode, HsFrame [1], HsDecode] (demo_headset, 0))"
      "snd (fold (headset_step demo_library) [HsStart, HsFrame [], HsDecode, HsFrame [1], HsDecode] (demo_headset, 0))"]
  by (simp only: demo_config_def headset_config.select_convs Let_def prod.collapse)

section \<open>What the screen tells\<close>

text \<open>A started headset: its clients run, so that a change to the connecting state starts nothing, and the
  graphics were told the state of the domain.\<close>

definition headset_up :: "headset_streamer \<Rightarrow> bool" where
  "headset_up s \<longleftrightarrow> hs_is_started s \<and> \<not> tc_stopped (hs_tcp s) \<and> \<not> wc_is_stopped (hs_ws s) \<and>
     hs_asio s = asio_start (asio_create hc_asio_pool_size) \<and> state_ok (hs_state s) \<and>
     (\<exists>g. hs_graphics s = HeadsetPart g \<and> hg_state g = hd_state (hs_state s))"

lemma handleStateChange_up:
  assumes "\<not> tc_stopped (hs_tcp s)" "\<not> wc_is_stopped (hs_ws s)"
  shows "fst (handleStateChange bind_ok st s) =
      s\<lparr>hs_graphics := graphics_PostState st (hs_graphics s),
        hs_decoder := (if st = CONNECTING then decoder_Start (hs_decoder s) else hs_decoder s)\<rparr>"
  using assms
  by (cases st) (simp_all add: handleStateChange_def handleStateChangeConnecting_def wc_Start_def
      client_Start_def Let_def)

lemma report_up:
  assumes "headset_up s"
  shows "headset_up (fst (headset_tcp_report bind_ok up s)) \<and>
      hs_state (fst (headset_tcp_report bind_ok up s)) = headset_input_step (TcpUp up) (hs_state s)"
    "headset_up (fst (headset_websocket_report bind_ok up s)) \<and>
      hs_state (fst (headset_websocket_report bind_ok up s)) = headset_input_step (WebsocketUp up) (hs_state s)"
proof -
  have ok: "state_ok (headset_input_step e (hs_state s))" for e
    using state_ok_step [of "hs_state s" e] assms by (simp add: headset_up_def)
  show "headset_up (fst (headset_tcp_report bind_ok up s)) \<and>
      hs_state (fst (headset_tcp_report bind_ok up s)) = headset_input_step (TcpUp up) (hs_state s)"
    using assms ok [of "TcpUp up"]
    by (auto simp: headset_tcp_report_def headset_up_def handleStateChange_up part_defs
        PostGraphicsHeadsetState_def PostTcpConnection_def Let_def split: prod.split)
  show "headset_up (fst (headset_websocket_report bind_ok up s)) \<and>
      hs_state (fst (headset_websocket_report bind_ok up s)) = headset_input_step (WebsocketUp up) (hs_state s)"
    using assms ok [of "WebsocketUp up"]
    by (auto simp: headset_websocket_report_def headset_up_def handleStateChange_up part_defs
        PostGraphicsHeadsetState_def PostWebsocketConnection_def Let_def split: prod.split)
qed

lemma button_up:
  assumes "headset_up s"
  shows "headset_up (fst (headset_button dump bind_ok a s)) \<and>
    hs_state (fst (headset_button dump bind_ok a s)) \<in> {hs_state s, headset_input_step Toggle (hs_state s)}"
proof -
  have ok: "state_ok (headset_input_step Toggle (hs_state s))"
    using state_ok_step [of "hs_state s" Toggle] assms by (simp add: headset_up_def)
  show ?thesis
    using assms ok
    by (cases "hd_state (hs_state s)")
       (auto simp: headset_button_def doStateChange_def headset_up_def handleStateChange_up part_defs
         GetState_def PostState_def PostGraphicsHeadsetState_def split_beta)
qed

fun reported_tcp :: "headset_event \<Rightarrow> bool \<Rightarrow> bool" where
  "reported_tcp (HsTcp up) b = up" | "reported_tcp e b = b"

fun reported_websocket :: "headset_event \<Rightarrow> bool \<Rightarrow> bool" where
  "reported_websocket (HsWebsocket up) b = up" | "reported_websocket e b = b"

text \<open>The other steps leave the clients, the state and what the graphics were told alone.\<close>

lemma give_back_other [simp]:
  "hs_is_started (headset_give_back bs s) = hs_is_started s" "hs_tcp (headset_give_back bs s) = hs_tcp s"
  "hs_ws (headset_give_back bs s) = hs_ws s" "hs_asio (headset_give_back bs s) = hs_asio s"
  "hs_state (headset_give_back bs s) = hs_state s" "hs_graphics (headset_give_back bs s) = hs_graphics s"
  by (simp_all add: headset_give_back_def split: decoder_part.split)

lemma hg_turn_state [simp]: "hg_state (fst (hg_turn imported g)) = hg_state g"
  by (cases "hg_state g") (auto simp: hg_turn_def handleRunningState_def Let_def split: prod.split)

lemma post_image_up: "headset_up s \<Longrightarrow> headset_up (headset_post_image b s) \<and> hs_state (headset_post_image b s) = hs_state s"
  by (auto simp: headset_post_image_def headset_up_def part_defs hg_PostImage_def Let_def)

lemma decoder_up: "headset_up (s\<lparr>hs_decoder := d\<rparr>) = headset_up s" "headset_up (s\<lparr>hs_gpio := p\<rparr>) = headset_up s"
  by (simp_all add: headset_up_def)

lemma decode_up:
  assumes "headset_up s"
  shows "headset_up (fst (headset_decode header decompress s)) \<and>
    hs_state (fst (headset_decode header decompress s)) = hs_state s"
  using assms post_image_up [of "s\<lparr>hs_decoder := d\<rparr>" for d]
  by (auto simp: headset_decode_def decoder_up Let_def split: decoder_part.splits decode_result.splits
      option.splits prod.splits)

lemma draw_up:
  assumes "headset_up s"
  shows "headset_up (fst (headset_draw imported s)) \<and> hs_state (fst (headset_draw imported s)) = hs_state s"
proof -
  from assms obtain g where g: "hs_graphics s = HeadsetPart g" "hg_state g = hd_state (hs_state s)"
    by (auto simp: headset_up_def)
  obtain g1 d images where t: "hg_turn imported g = (g1, d, images)" by (cases "hg_turn imported g") auto
  then have "hg_state g1 = hg_state g" using hg_turn_state [of imported g] by simp
  with assms g t show ?thesis by (auto simp: headset_draw_def headset_up_def)
qed

lemma headset_step_up:
  assumes "headset_up s" "e \<noteq> HsStop" "headset_step lib e (s, failed) = (s', failed')"
  shows "headset_up s' \<and>
    tcp_is_connected (hs_state s') = reported_tcp e (tcp_is_connected (hs_state s)) \<and>
    websocket_is_connected (hs_state s') = reported_websocket e (websocket_is_connected (hs_state s))"
proof (cases e)
  case (HsTcp up)
  then show ?thesis
    using assms report_up(1) [OF assms(1), of "lib_bind_ok lib" up] state_ok_step [of "hs_state s" "TcpUp up"]
    by (auto simp: headset_up_def)
next
  case (HsWebsocket up)
  then show ?thesis
    using assms report_up(2) [OF assms(1), of "lib_bind_ok lib" up] state_ok_step [of "hs_state s" "WebsocketUp up"]
    by (auto simp: headset_up_def)
next
  case (HsPoll now level)
  have b: "headset_up (fst (headset_button dump ok a (s\<lparr>hs_gpio := p\<rparr>))) \<and>
      tcp_is_connected (hs_state (fst (headset_button dump ok a (s\<lparr>hs_gpio := p\<rparr>)))) = tcp_is_connected (hs_state s) \<and>
      websocket_is_connected (hs_state (fst (headset_button dump ok a (s\<lparr>hs_gpio := p\<rparr>)))) =
        websocket_is_connected (hs_state s)" for dump :: "unit json \<Rightarrow> string" and ok a p
    using button_up [of "s\<lparr>hs_gpio := p\<rparr>" dump ok a] assms(1) state_ok_step [of "hs_state s" Toggle]
    by (auto simp: decoder_up headset_up_def)
  then have "headset_up (fst (headset_poll lib now level s)) \<and>
      tcp_is_connected (hs_state (fst (headset_poll lib now level s))) = tcp_is_connected (hs_state s) \<and>
      websocket_is_connected (hs_state (fst (headset_poll lib now level s))) = websocket_is_connected (hs_state s)"
    using assms(1) by (auto simp: headset_poll_def decoder_up split: gpio_part.split prod.split option.split)
  with HsPoll assms(3) show ?thesis by auto
next
  case (HsFrame jpeg)
  then show ?thesis
    using assms
    by (auto simp: PostHeadsetClientBuffer_def decoder_up split: option.splits prod.splits if_splits)
next
  case HsDecode
  then show ?thesis using assms decode_up [OF assms(1)] by auto
next
  case HsDraw
  then show ?thesis using assms draw_up [OF assms(1)] by auto
qed (use assms in \<open>auto simp: headset_Start_def headset_up_def headset_enter_loop_def headset_leave_loop_def
    hg_enter_loop_def hg_leave_loop_def split: graphics_part.splits if_splits\<close>)

lemma headset_run_up:
  assumes "headset_up s" "HsStop \<notin> set es" "fold (headset_step lib) es (s, failed) = (s', failed')"
  shows "headset_up s' \<and>
    tcp_is_connected (hs_state s') = fold reported_tcp es (tcp_is_connected (hs_state s)) \<and>
    websocket_is_connected (hs_state s') = fold reported_websocket es (websocket_is_connected (hs_state s))"
  using assms
proof (induction es arbitrary: s failed)
  case (Cons e es)
  obtain s1 failed1 where e: "headset_step lib e (s, failed) = (s1, failed1)" by fastforce
  from headset_step_up [OF Cons.prems(1) _ e] Cons.IH [of s1 failed1] Cons.prems(2,3) e
  show ?case by auto
qed simp

lemma started_up:
  assumes "headset_initialize env c = Inr s0" "hc_graphics_type c = GraphicsHeadset"
    and "hs_is_started (fst (headset_Start bind_ok s0))"
  shows "headset_up (fst (headset_Start bind_ok s0))"
    "hs_state (fst (headset_Start bind_ok s0)) = HeadsetState"
proof -
  note i = initialize_facts(1,2,3) [OF assms(1)] initialize_facts(6) [OF assms(1,2)]
  have tcp: "\<not> tc_stopped (client_Start (hs_tcp s0))"
    by (simp add: client_Start_def client_startConnection_def Let_def)
  have ws: "\<not> wc_is_stopped (fst (wc_Start bind_ok (hs_ws s0)))"
    by (simp add: wc_Start_def wc_startConnection_def Let_def)
  have "PostState CONNECTING HeadsetState = HeadsetState" by (simp add: PostState_def HeadsetState_def)
  moreover have "state_ok HeadsetState" by (simp add: state_ok_def HeadsetState_def)
  moreover have "hg_state (hg_StartGraphics HeadsetGraphics) = hd_state HeadsetState"
    by (simp add: hg_StartGraphics_def HeadsetGraphics_def HeadsetState_def)
  ultimately show "headset_up (fst (headset_Start bind_ok s0))"
    "hs_state (fst (headset_Start bind_ok s0)) = HeadsetState"
    using assms(3) i tcp ws
    by (auto simp: headset_Start_def headset_up_def Let_def part_defs split: prod.splits if_splits)
qed

text \<open>What a turn draws, by the state it was told.\<close>

lemma hg_turn_draws:
  assumes "hg_turn imported g = (g1, d, images)"
  shows "d = ConnectingScreen \<longleftrightarrow> hg_state g = CONNECTING" "d = ReadyScreen \<longleftrightarrow> hg_state g = READY"
    "hg_state g = RUNNING \<longleftrightarrow> hg_state g \<noteq> CLOSING \<and> (d = Black \<or> (\<exists>b. d = ImageTexture b))"
  using assms
  by (cases "hg_state g"; auto simp: hg_turn_def handleRunningState_def Let_def
      split: prod.splits option.splits if_splits)+


lemma demo_headset_parts:
  "hs_ws demo_headset = WebsocketClient 20 10 HEADSET_CONNECTION False"
  "hs_graphics demo_headset = HeadsetPart HeadsetGraphics" "\<not> hs_is_started demo_headset"
  "hs_decoder demo_headset = SwDecoderPart (demo_decoder 2)"
proof -
  have d: "SwDecoder True (Some 2) (\<lambda>i. Some (replicate 48 0, int i)) 2 16 2 = Inr (demo_decoder 2)"
    by (rule demo_decoder_created)
  show "hs_ws demo_headset = WebsocketClient 20 10 HEADSET_CONNECTION False"
    "hs_graphics demo_headset = HeadsetPart HeadsetGraphics" "\<not> hs_is_started demo_headset"
    "hs_decoder demo_headset = SwDecoderPart (demo_decoder 2)"
    using d by (simp_all add: demo_headset_def headset_initialize_def demo_environment_def demo_config_def
        hc_button_def hc_connection_type_def hc_websocket_timeouts_def TcpClient_def part_creators
        PiGpio_def Let_def)
qed

lemma demo_headset_started: "hs_is_started (fst (headset_Start (lib_bind_ok demo_library) demo_headset))"
  by (simp add: headset_Start_def demo_headset_parts demo_library_def wc_Start_def wc_startConnection_def
      wc_stale_def WebsocketClient_def Let_def)

definition demo_session :: "headset_event list" where
  "demo_session = [HsEnterLoop, HsTcp True]"


section \<open>Stopping and starting again\<close>

lemma closing_reports:
  assumes "hd_state (hs_state s) = CLOSING"
  shows "headset_reports_of_stop bind_ok wcs ccs s = s"
  using assms
  by (simp add: headset_reports_of_stop_def headset_tcp_report_def headset_websocket_report_def
      PostTcpConnection_def PostWebsocketConnection_def Let_def)

lemma stop_up:
  assumes "headset_up s"
  shows "\<exists>s2. headset_Stop bind_ok shutdown_ok s = Some s2 \<and> \<not> hs_is_started s2 \<and>
    hs_asio s2 = asio_halt (hs_asio s) \<and> hs_state s2 = PostState CLOSING (hs_state s) \<and>
    hs_graphics s2 = graphics_Stop (hs_graphics s) \<and> wc_is_stopped (hs_ws s2)"
proof -
  have a: "asio_running (hs_asio s) = 2"
    using assms by (simp add: headset_up_def asio_start_def asio_create_def asio_running_def
        hc_asio_pool_size_def numeral_2_eq_2)
  have closing: "hd_state (PostState CLOSING x) = CLOSING" for x by (simp add: PostState_def)
  obtain ws wcs where w: "wc_Stop shutdown_ok (hs_ws s) = (ws, wcs)" by fastforce
  obtain tcp ccs where t: "client_Stop (hs_tcp s) = (tcp, ccs)" by fastforce
  have "wc_is_stopped ws" using w by (auto simp: wc_Stop_def Let_def split: if_splits)
  with assms a w t show ?thesis
    by (simp add: headset_Stop_def headset_up_def Let_def closing_reports closing)
qed

text \<open>A headset that was stopped cannot be used again. A first stop returns. Started once
  more, it is connecting but its graphics still show the state it was stopped in, the connections it had
  count as up, and its thread pool has no thread, so that nothing the clients start is ever completed and
  the next stop waits for ever.\<close>

theorem restarted_headset_hangs:
  assumes "headset_initialize env c = Inr s0" "hc_graphics_type c = GraphicsHeadset"
    and "hs_is_started (fst (headset_Start (lib_bind_ok lib) s0))" "HsStop \<notin> set es"
    and "fold (headset_step lib) es (fst (headset_Start (lib_bind_ok lib) s0), 0) = (s, failed)"
  shows "\<exists>s2. headset_Stop bind_ok shutdown_ok s = Some s2 \<and>
    (hs_is_started (fst (headset_Start bind_ok s2)) \<longrightarrow>
      (let r = fst (headset_Start bind_ok s2) in
        hd_state (hs_state r) = CONNECTING \<and>
        (\<exists>g. hs_graphics r = HeadsetPart g \<and> hg_state g = hd_state (hs_state s)) \<and>
        tcp_is_connected (hs_state r) = fold reported_tcp es False \<and>
        websocket_is_connected (hs_state r) = fold reported_websocket es False \<and>
        asio_running (hs_asio r) = 0 \<and> headset_Stop bind_ok shutdown_ok r = None))"
proof -
  note up = started_up [OF assms(1-3)]
  note r = headset_run_up [OF up(1) assms(4,5), unfolded up(2)]
  then have u: "headset_up s" by simp
  from stop_up [OF this, of bind_ok shutdown_ok] obtain s2 where s2:
    "headset_Stop bind_ok shutdown_ok s = Some s2" "\<not> hs_is_started s2"
    "hs_asio s2 = asio_halt (hs_asio s)" "hs_state s2 = PostState CLOSING (hs_state s)"
    "hs_graphics s2 = graphics_Stop (hs_graphics s)" "wc_is_stopped (hs_ws s2)" by blast
  from u obtain g where g: "hs_graphics s = HeadsetPart g" "hg_state g = hd_state (hs_state s)"
    by (auto simp: headset_up_def)
  have pool: "asio_running (asio_start (hs_asio s2)) = 0"
    using u s2(3) by (simp add: headset_up_def asio_start_def asio_create_def asio_halt_def
        asio_running_def Let_def)
  have ws: "\<not> wc_is_stopped (fst (wc_Start bind_ok (hs_ws s2)))"
    using s2(6) by (simp add: wc_Start_def wc_startConnection_def Let_def)
  have gs: "\<exists>g'. graphics_Start (hs_graphics s2) = HeadsetPart g' \<and> hg_state g' = hd_state (hs_state s)"
    using g s2(5) by (simp add: part_defs hg_StartGraphics_def hg_StopGraphics_def)
  define r2 where "r2 = fst (headset_Start bind_ok s2)"
  have "hs_state r2 = PostState CONNECTING (hs_state s2)" "hs_asio r2 = asio_start (hs_asio s2)"
    "hs_graphics r2 = graphics_Start (hs_graphics s2)" "hs_ws r2 = fst (wc_Start bind_ok (hs_ws s2))"
    using s2(2) by (auto simp: r2_def headset_Start_def Let_def split: prod.split)
  then have "hs_is_started r2 \<longrightarrow> hd_state (hs_state r2) = CONNECTING \<and>
        (\<exists>g. hs_graphics r2 = HeadsetPart g \<and> hg_state g = hd_state (hs_state s)) \<and>
        tcp_is_connected (hs_state r2) = fold reported_tcp es False \<and>
        websocket_is_connected (hs_state r2) = fold reported_websocket es False \<and>
        asio_running (hs_asio r2) = 0 \<and> headset_Stop bind_ok shutdown_ok r2 = None"
    using pool ws gs r s2(4)
    by (simp add: headset_Stop_def PostState_def HeadsetState_def Let_def)
  with s2(1) show ?thesis unfolding r2_def Let_def by blast
qed

theorem restarted_headset_hangs_witness:
  "\<exists>s2. headset_Stop True True (fst (fold (headset_step demo_library) demo_session
     (fst (headset_Start True demo_headset), 0))) = Some s2"
proof -
  have lib: "lib_bind_ok demo_library = True" by (simp add: demo_library_def)
  have c: "hc_graphics_type demo_config = GraphicsHeadset" "HsStop \<notin> set demo_session"
    by (simp_all add: demo_config_def demo_session_def)
  let ?r = "fold (headset_step demo_library) demo_session (fst (headset_Start True demo_headset), 0)"
  from restarted_headset_hangs [OF demo_headset_created c(1) demo_headset_started c(2), of "fst ?r" "snd ?r" True True]
  show ?thesis using lib by auto
qed

section \<open>A frame on its way to the screen\<close>

text \<open>On a headset whose graphics run, a frame posted while the decoder idles is decoded
  into the first free buffer row by row, the next turn of the graphics draws the texture of that buffer,
  and the buffer goes back to the end of the pool, behind those of the older images.\<close>

lemma frame_is_drawn:
  assumes "hs_decoder s = SwDecoderPart d" "\<not> dec_work_stop d" "dec_work_queue d = []"
    and "dec_downstream d = b # bs" "header jpeg" "decompress jpeg = Some rows"
    and "hs_graphics s = HeadsetPart g" "hg_is_ready g" "hg_state g = RUNNING" "hg_last_state g = RUNNING"
    and "hg_is_display g" "\<And>fd t. hg_buffers g fd = Some t \<Longrightarrow> egl_fd t = fd"
  shows "\<exists>s1 t. PostHeadsetClientBuffer jpeg s = Some s1 \<and>
    snd (headset_draw imported (fst (headset_decode header decompress s1))) = Some (ImageTexture t) \<and>
    egl_fd t = db_fd b \<and>
    pool_of (fst (headset_draw imported (fst (headset_decode header decompress s1)))) =
      bs @ hg_image_queue g @
        [b\<lparr>db_memory := store_rows (dec_width d) (decoder_rows (dec_width d) (dec_height d)) rows (db_memory b)\<rparr>]"
proof -
  let ?b = "b\<lparr>db_memory := store_rows (dec_width d) (decoder_rows (dec_width d) (dec_height d)) rows (db_memory b)\<rparr>"
  let ?d = "d\<lparr>dec_work_queue := [], dec_downstream := bs\<rparr>"
  define s1 where "s1 = s\<lparr>hs_decoder := SwDecoderPart (d\<lparr>dec_work_queue := [jpeg]\<rparr>)\<rparr>"
  have post: "PostHeadsetClientBuffer jpeg s = Some s1"
    using assms by (simp add: PostHeadsetClientBuffer_def part_defs PostJpegBuffer_def s1_def)
  have "fst (headset_decode header decompress s1) =
      s1\<lparr>hs_decoder := SwDecoderPart ?d, hs_graphics := HeadsetPart (hg_PostImage ?b g)\<rparr>"
    using assms
    by (simp add: s1_def headset_decode_def decoder_turn_def decoder_next_image_def decodeBuffer_def
        decoder_take_buffer_def headset_post_image_def graphics_takes_def part_defs Let_def)
  moreover define g1 where "g1 = g\<lparr>hg_image_queue := hg_image_queue g @ [?b]\<rparr>"
  then have "hg_PostImage ?b g = g1" using assms by (simp add: hg_PostImage_def)
  ultimately have dec: "fst (headset_decode header decompress s1) =
      s1\<lparr>hs_decoder := SwDecoderPart ?d, hs_graphics := HeadsetPart g1\<rparr>" by simp
  obtain t ts where t: "buffer_for imported ?b (hg_buffers g) = (t, ts)" by fastforce
  then have fd: "egl_fd t = db_fd b"
    using assms(12) by (auto simp: buffer_for_def makeBuffer_def Let_def split: option.splits)
  obtain g2 where turn: "hg_turn imported g1 = (g2, ImageTexture t, hg_image_queue g @ [?b])"
    using assms t by (simp add: hg_turn_def handleRunningState_def g1_def Let_def)
  have ready: "hg_is_ready g1" using assms by (simp add: g1_def)
  have "headset_draw imported (fst (headset_decode header decompress s1)) =
      (headset_give_back (hg_image_queue g @ [?b])
        (s1\<lparr>hs_decoder := SwDecoderPart ?d, hs_graphics := HeadsetPart g2\<rparr>), Some (ImageTexture t))"
    unfolding dec headset_draw_def using turn ready by simp
  moreover have "decodes (s1\<lparr>hs_decoder := SwDecoderPart ?d, hs_graphics := HeadsetPart g2\<rparr>)"
    by (simp add: decodes_def)
  ultimately show ?thesis
    using post fd give_back_facts(3) [of "s1\<lparr>hs_decoder := SwDecoderPart ?d, hs_graphics := HeadsetPart g2\<rparr>"]
    by (auto simp: pool_of_def)
qed

end
