(* ===== verification/Timer_Loop.thy ===== *)
theory Timer_Loop
  imports Prelude
begin

text \<open>
  The loop of the two switching threads (\<open>ServerStreamer::CameraSwitchingAutomaticTimer\<close> and
  \<open>DisplayStreamer::runAutomaticSwitching\<close>): the readings of \<open>Clock::now()\<close> (\<open>src/internal/utils/clock.hpp\<close>)
  in nanoseconds are the input, and the action runs when enough whole seconds have passed.
\<close>

text \<open>\<open>duration_cast\<close> to seconds truncates towards zero.\<close>

definition to_seconds :: "int \<Rightarrow> int" where
  "to_seconds d = (if d < 0 then - ((- d) div 1000000000) else d div 1000000000)"

text \<open>One turn: sleep, or act and remember the reading.\<close>

definition timer_turn :: "('s \<Rightarrow> 's) \<Rightarrow> int \<Rightarrow> int \<Rightarrow> int \<Rightarrow> 's \<Rightarrow> 's \<times> int \<times> bool" where
  "timer_turn act automatic_timeout now last_timer s =
     (if to_seconds (now - last_timer) < automatic_timeout then (s, last_timer, False)
      else (act s, now, True))"

text \<open>The loop until the thread is told to stop: the state after it, and the times it acted at.\<close>

fun timer_loop :: "('s \<Rightarrow> 's) \<Rightarrow> int \<Rightarrow> int list \<Rightarrow> int \<Rightarrow> 's \<Rightarrow> 's \<times> int list" where
  "timer_loop act t [] last_timer s = (s, [])"
| "timer_loop act t (now # nows) last_timer s =
     (case timer_turn act t now last_timer s of (s1, last_timer1, acted) \<Rightarrow>
        (case timer_loop act t nows last_timer1 s1 of (s2, ts) \<Rightarrow>
           (s2, if acted then now # ts else ts)))"

lemma to_seconds_ge: "0 < t \<Longrightarrow> t \<le> to_seconds d \<longleftrightarrow> t * 1000000000 \<le> d"
  by (auto simp: to_seconds_def)

lemma to_seconds_0 [simp]: "to_seconds 0 = 0"
  by (simp add: to_seconds_def)

text \<open>The actions are at least the timeout apart and no turn leaves one overdue.\<close>

fun spaced :: "int \<Rightarrow> int list \<Rightarrow> bool" where
  "spaced t (a # b # ts) \<longleftrightarrow> t * 1000000000 \<le> b - a \<and> spaced t (b # ts)"
| "spaced t _ \<longleftrightarrow> True"

lemma timer_loop_spaced:
  assumes "0 < t"
  shows "spaced t (last_timer # snd (timer_loop act t nows last_timer s))"
  using assms
proof (induction act t nows last_timer s rule: timer_loop.induct)
  case (2 act t now nows last_timer s)
  then show ?case using to_seconds_ge [of t "now - last_timer"]
    by (auto simp: timer_turn_def split: prod.split)
qed simp

lemma timer_loop_state:
  "fst (timer_loop act t nows last_timer s) =
     (act ^^ length (snd (timer_loop act t nows last_timer s))) s"
proof (induction act t nows last_timer s rule: timer_loop.induct)
  case (2 act t now nows last_timer s)
  then show ?case
    by (cases "to_seconds (now - last_timer) < t")
       (auto simp: timer_turn_def funpow_swap1 split: prod.split)
qed simp

lemma timer_loop_not_overdue:
  assumes "0 < t" "nows \<noteq> []"
  shows "last nows - last (last_timer # snd (timer_loop act t nows last_timer s)) < t * 1000000000"
  using assms
proof (induction act t nows last_timer s rule: timer_loop.induct)
  case (2 act t now nows last_timer s)
  show ?case
  proof (cases "t \<le> to_seconds (now - last_timer)")
    case True
    with 2 show ?thesis
      by (cases nows) (auto simp: timer_turn_def split: prod.splits)
  next
    case False
    with 2 to_seconds_ge [of t "now - last_timer"] show ?thesis
      by (cases nows) (auto simp: timer_turn_def split: prod.splits)
  qed
qed simp

lemmas timer_loop_facts = timer_loop_spaced timer_loop_state timer_loop_not_overdue

end
