(* ===== verification/Display_Streamer.thy ===== *)
theory Display_Streamer
  imports Headset_Streamer Timer_Loop
begin

text \<open>
  \<open>src/internal/service/display_streamer.cpp\<close>, the program of a display: the network clients, decoder and
  graphics of a headset without a button and without a connection state, and a thread that asks for the
  next camera from time to time.
\<close>

record display_config =
  dc_tcp_server_host :: string
  dc_tcp_server_port :: int
  dc_tcp_client_timeout_on_read :: int
  dc_tcp_client_use_fixed_port :: bool
  dc_tcp_read_buffers :: int
  dc_websocket_server_host :: string
  dc_websocket_server_port :: int
  dc_decoder_type :: decoder_type
  dc_decoder_buffers_downstream :: nat
  dc_image_width_height :: "nat \<times> nat"
  dc_graphics_type :: graphics_type
  dc_switch_automatic_timeout :: int

definition dc_asio_pool_size :: nat where "dc_asio_pool_size = 3"

definition dc_connection_type :: connection_type where "dc_connection_type = DISPLAY_CONNECTION"

definition dc_websocket_timeouts :: "int \<times> int" where "dc_websocket_timeouts = (20, 10)"

definition dc_tcp_client_read_buffer_size :: "display_config \<Rightarrow> int" where
  "dc_tcp_client_read_buffer_size c =
     int (frame_size (fst (dc_image_width_height c)) (snd (dc_image_width_height c)))"

record display_streamer =
  ds_conf :: display_config
  ds_is_started :: bool
  ds_asio :: asio_context
  ds_tcp :: tcp_client
  ds_ws :: websocket_client
  ds_graphics :: graphics_part
  ds_decoder :: decoder_part
  ds_work_thread :: bool
  ds_work_stop :: bool

definition display_initialize :: "headset_environment \<Rightarrow> display_config \<Rightarrow> string + display_streamer" where
  "display_initialize env c =
     (case TcpClient (env_junk env) dc_connection_type (dc_tcp_client_use_fixed_port c)
             (dc_tcp_read_buffers c) (dc_tcp_client_read_buffer_size c) of
        Inl e \<Rightarrow> Inl e
      | Inr tcp \<Rightarrow>
          (case Graphics_Create (env_headset_built env) (env_display_built env) (dc_graphics_type c) of
             Inl e \<Rightarrow> Inl e
           | Inr g \<Rightarrow>
               (case Decoder_Create (env_format_ok env) (env_granted env) (env_driver env)
                       (dc_decoder_type c) (fst (dc_image_width_height c)) (snd (dc_image_width_height c))
                       (dc_decoder_buffers_downstream c) of
                  Inl e \<Rightarrow> Inl e
                | Inr d \<Rightarrow> Inr \<lparr>ds_conf = c, ds_is_started = False, ds_asio = asio_create dc_asio_pool_size,
                    ds_tcp = tcp,
                    ds_ws = WebsocketClient (fst dc_websocket_timeouts) (snd dc_websocket_timeouts)
                      dc_connection_type (dc_tcp_client_use_fixed_port c),
                    ds_graphics = g, ds_decoder = d, ds_work_thread = False, ds_work_stop = True\<rparr>)))"

definition display_Start :: "bool \<Rightarrow> display_streamer \<Rightarrow> display_streamer \<times> websocket_call list" where
  "display_Start bind_ok s =
     (if ds_is_started s then (s, [])
      else
        let s1 = s\<lparr>ds_work_stop := False, ds_work_thread := True, ds_graphics := graphics_Start (ds_graphics s),
              ds_decoder := decoder_Start (ds_decoder s), ds_asio := asio_start (ds_asio s),
              ds_tcp := client_Start (ds_tcp s)\<rparr>
        in (case wc_Start bind_ok (ds_ws s1) of (ws, calls) \<Rightarrow>
              if HandlerThrew \<in> set calls then (s1\<lparr>ds_ws := ws\<rparr>, calls)
              else (s1\<lparr>ds_ws := ws, ds_is_started := True\<rparr>, calls)))"

text \<open>The thread joins on its own; then the clients stop, the websocket's waiting for the pool as the
  headset's does. Their reports do nothing.\<close>

definition display_Stop :: "bool \<Rightarrow> display_streamer \<Rightarrow> display_streamer option" where
  "display_Stop shutdown_ok s =
     (if \<not> ds_is_started s then Some s
      else
        let s1 = s\<lparr>ds_work_stop := True, ds_work_thread := False\<rparr> in
        if \<not> wc_is_stopped (ds_ws s1) \<and> asio_running (ds_asio s1) = 0 then None
        else Some (s1\<lparr>ds_ws := fst (wc_Stop shutdown_ok (ds_ws s1)), ds_tcp := fst (client_Stop (ds_tcp s1)),
               ds_asio := asio_halt (ds_asio s1), ds_graphics := graphics_Stop (ds_graphics s1),
               ds_decoder := decoder_Stop (ds_decoder s1), ds_is_started := False\<rparr>))"

text \<open>The thread: a rotation is posted to the websocket client (which drops it while it is stopped) and
  the reading of the clock remembered.\<close>

definition display_rotation :: "('f json \<Rightarrow> string) \<Rightarrow> websocket_client \<Rightarrow> websocket_call list" where
  "display_rotation dump ws = PostWebsocketClientMessage (dump (GetMessage HeadsetRotateCamera)) ws"

definition runAutomaticSwitching ::
    "('f json \<Rightarrow> string) \<Rightarrow> display_streamer \<Rightarrow> int \<Rightarrow> int list \<Rightarrow> websocket_call list \<times> int list" where
  "runAutomaticSwitching dump s start nows =
     timer_loop (\<lambda>calls. calls @ display_rotation dump (ds_ws s))
       (dc_switch_automatic_timeout (ds_conf s)) nows start []"

definition display_PostHeadsetClientBuffer :: "byte list \<Rightarrow> display_streamer \<Rightarrow> display_streamer option" where
  "display_PostHeadsetClientBuffer jpeg s = (case decoder_Post jpeg (ds_decoder s) of
     (d, None) \<Rightarrow> Some (s\<lparr>ds_decoder := d\<rparr>)
   | (d, Some cast) \<Rightarrow> if graphics_takes (ds_graphics s) then None else Some (s\<lparr>ds_decoder := d\<rparr>))"

lemma timer_loop_times:
  "snd (timer_loop act t nows last_timer s) = snd (timer_loop act' t nows last_timer s')"
  by (induction act t nows last_timer s arbitrary: s' rule: timer_loop.induct)
     (auto simp: timer_turn_def split: prod.splits, (metis snd_conv)+)

text \<open>The messages of a started display: one rotation per action of the timer.\<close>

lemma display_posts:
  assumes "\<not> wc_is_stopped (ds_ws s)"
  shows "fst (runAutomaticSwitching dump s start nows) =
    replicate (length (snd (runAutomaticSwitching dump s start nows)))
      (PostWrite (dump (GetMessage HeadsetRotateCamera)))"
proof -
  have "((\<lambda>calls. calls @ display_rotation dump (ds_ws s)) ^^ n) [] =
      replicate n (PostWrite (dump (GetMessage HeadsetRotateCamera)))" for n
    using assms
    by (induction n) (simp_all add: display_rotation_def PostWebsocketClientMessage_def
        flip: replicate_append_same)
  then show ?thesis unfolding runAutomaticSwitching_def using timer_loop_state by metis
qed

end
