(* ===== verification/Libcamera_Setup.thy ===== *)
theory Libcamera_Setup
  imports Prelude
begin

text \<open>
  \<open>src/internal/infrastructure/camera/libcamera_camera.cpp\<close>, construction and destruction: opening the camera,
  configuring the view finder, allocating and mapping its buffers, and giving everything back. The results
  of the calls of libcamera are the input (\<open>lc_library\<close>); an exception is an \<open>Inl\<close>, beside which the state
  of the hardware at the throw is kept.
\<close>

section \<open>Opening and configuring\<close>

datatype validation_status = Valid | Adjusted | Invalid

text \<open>A plane of a frame buffer: its length and its file descriptor.\<close>

type_synonym plane = "nat \<times> int"

record lc_library =
  lib_manager_start :: int
  lib_cameras :: "bool list"
  lib_acquire :: int
  lib_configuration :: bool
  lib_validate :: validation_status
  lib_configure :: int
  lib_allocate :: int
  lib_buffers :: "(nat \<times> plane list) list"

text \<open>What the object holds of the hardware: the camera, the memory mapped for each frame buffer as file
  descriptor and size, and the frame buffers of the stream.\<close>

record lc_hardware =
  lh_acquired :: bool
  lh_mapped_buffers :: "(nat \<times> (int \<times> nat) list) list"
  lh_frame_buffers :: "nat list"

definition no_hardware :: lc_hardware where
  "no_hardware = \<lparr>lh_acquired = False, lh_mapped_buffers = [], lh_frame_buffers = []\<rparr>"

definition openCamera :: "lc_library \<Rightarrow> lc_hardware \<Rightarrow> (string + unit) \<times> lc_hardware" where
  "openCamera lib r =
     (if lib_manager_start lib \<noteq> 0 then (Inl ''couldn't start camera manager'', r)
      else case lib_cameras lib of
          [] \<Rightarrow> (Inl ''vector::at'', r)
        | present # _ \<Rightarrow>
            if \<not> present then (Inl ''No cameras available'', r)
            else if lib_acquire lib \<noteq> 0 then (Inl ''Failed to acquire camera'', r)
            else (Inr (), r\<lparr>lh_acquired := True\<rparr>))"

text \<open>The size asked for is made even, as the planes of colour need.\<close>

definition viewfinder_size :: "nat \<times> nat \<Rightarrow> nat \<times> nat" where
  "viewfinder_size wh = (case wh of (w, h) \<Rightarrow> (w div 2 * 2, h div 2 * 2))"

definition configureViewFinder :: "lc_library \<Rightarrow> lc_hardware \<Rightarrow> (string + unit) \<times> lc_hardware" where
  "configureViewFinder lib r =
     (if \<not> lib_configuration lib then (Inl ''failed to generate viewfinder configuration'', r)
      else if lib_validate lib = Invalid then (Inl ''failed to valid stream configurations'', r)
      else if lib_configure lib < 0 then (Inl ''failed to configure streams'', r)
      else (Inr (), r))"

section \<open>Mapping the buffers\<close>

text \<open>The loop over the planes: lengths are added up until the next plane has another descriptor.\<close>

fun map_planes :: "nat \<Rightarrow> plane list \<Rightarrow> (int \<times> nat) list" where
  "map_planes buffer_size [] = []"
| "map_planes buffer_size ((len, fd) # planes) =
     (if planes = [] \<or> fd \<noteq> snd (hd planes) then (fd, buffer_size + len) # map_planes 0 planes
      else map_planes (buffer_size + len) planes)"

definition setupBuffers :: "lc_library \<Rightarrow> lc_hardware \<Rightarrow> (string + unit) \<times> lc_hardware" where
  "setupBuffers lib r =
     (if lib_allocate lib < 0 then (Inl ''failed to allocate capture buffers'', r)
      else (Inr (), r\<lparr>lh_mapped_buffers := lh_mapped_buffers r @ map (\<lambda>(b, planes). (b, map_planes 0 planes)) (lib_buffers lib),
                      lh_frame_buffers := lh_frame_buffers r @ map fst (lib_buffers lib)\<rparr>))"

definition CreateCamera :: "lc_library \<Rightarrow> (string + unit) \<times> lc_hardware" where
  "CreateCamera lib = (case openCamera lib no_hardware of
     (Inl e, r) \<Rightarrow> (Inl e, r)
   | (Inr _, r) \<Rightarrow> (case configureViewFinder lib r of
         (Inl e, r) \<Rightarrow> (Inl e, r)
       | (Inr _, r) \<Rightarrow> setupBuffers lib r))"

definition teardownCamera :: "lc_hardware \<Rightarrow> lc_hardware" where
  "teardownCamera r = r\<lparr>lh_mapped_buffers := [], lh_frame_buffers := []\<rparr>"

definition closeCamera :: "lc_hardware \<Rightarrow> lc_hardware" where
  "closeCamera r = r\<lparr>lh_acquired := False\<rparr>"

text \<open>The memory of a frame the encoder is given: the first of its mapped parts. \<open>None\<close>: there is none, an
  access past the end of a vector.\<close>

definition frame_span :: "nat \<Rightarrow> lc_hardware \<Rightarrow> (int \<times> nat) option" where
  "frame_span b r = (case map_of (lh_mapped_buffers r) b of Some (sp # _) \<Rightarrow> Some sp | _ \<Rightarrow> None)"

section \<open>Parts and planes\<close>

lemma map_planes_total:
  "sum_list (map snd (map_planes sz planes)) = (if planes = [] then 0 else sz + sum_list (map fst planes))"
  by (induction sz planes rule: map_planes.induct) auto

lemma map_planes_fds: "planes \<noteq> [] \<Longrightarrow> fst (hd (map_planes sz planes)) = snd (hd planes) \<and> map_planes sz planes \<noteq> []"
  by (induction sz planes rule: map_planes.induct) (auto split: if_splits)

lemma map_planes_adjacent: "distinct_adj (map fst (map_planes sz planes))"
proof (induction sz planes rule: map_planes.induct)
  case (2 sz len fd planes)
  show ?case
  proof (cases "planes = []")
    case False
    with 2 map_planes_fds [OF False, of 0] show ?thesis by (auto simp: distinct_adj_Cons hd_map)
  qed simp
qed simp

lemma map_planes_one:
  assumes "planes \<noteq> []" "\<forall>p \<in> set planes. 0 < fst p"
  shows "snd (hd (map_planes sz planes)) = sz + sum_list (map fst planes) \<longleftrightarrow>
    (\<forall>p \<in> set planes. snd p = snd (hd planes))"
  using assms
proof (induction sz planes rule: map_planes.induct)
  case (2 sz len fd planes)
  show ?case
  proof (cases "planes = []")
    case False
    have "0 < sum_list (map fst planes)" using False 2(4) by (cases planes) auto
    moreover have "snd (hd planes) \<noteq> fd \<Longrightarrow> \<exists>p \<in> set planes. snd p \<noteq> fd" using False hd_in_set by blast
    ultimately show ?thesis using 2 False by (auto simp: add.assoc)
  qed simp
qed simp


text \<open>The three planes of one descriptor, as the view finder delivers them.\<close>

definition demo_camera_library :: lc_library where
  "demo_camera_library = \<lparr>lib_manager_start = 0, lib_cameras = [True], lib_acquire = 0, lib_configuration = True,
     lib_validate = Adjusted, lib_configure = 0, lib_allocate = 5,
     lib_buffers = [(7, [(64, 3), (16, 3), (16, 3)])]\<rparr>"


text \<open>After a construction that fails nothing is mapped, and the camera stays acquired if the call
  that failed was a later one than \<open>acquire\<close>: the destructor, which would release it, does not run for an object
  whose constructor threw.\<close>

theorem failed_construction_keeps_the_camera:
  assumes "CreateCamera lib = (Inl e, r)"
  shows "lh_mapped_buffers r = [] \<and>
    (lh_acquired r \<longleftrightarrow> lib_manager_start lib = 0 \<and> lib_cameras lib \<noteq> [] \<and> hd (lib_cameras lib) \<and> lib_acquire lib = 0)"
  using assms
  by (auto simp: CreateCamera_def openCamera_def configureViewFinder_def setupBuffers_def no_hardware_def
      split: if_splits list.splits)

theorem failed_construction_keeps_the_camera_witness:
  "lh_acquired (snd (CreateCamera (demo_camera_library\<lparr>lib_validate := Invalid\<rparr>)))"
proof -
  obtain r where r: "CreateCamera (demo_camera_library\<lparr>lib_validate := Invalid\<rparr>) =
      (Inl ''failed to valid stream configurations'', r)"
    by (simp add: CreateCamera_def openCamera_def configureViewFinder_def setupBuffers_def demo_camera_library_def)
  from failed_construction_keeps_the_camera [OF r] show ?thesis unfolding r by (simp add: demo_camera_library_def)
qed

end
