(* ===== verification/Libcamera_Camera.thy ===== *)
theory Libcamera_Camera
  imports Libcamera_Setup
begin

text \<open>
  \<open>src/internal/infrastructure/camera/libcamera_camera.cpp\<close>: the requests the camera works on and the
  buffers handed to the encoder while their frames are used. A request goes from the camera's queue, when
  it completes, into a \<open>CameraBuffer\<close> and back into the queue when the buffer's last owner lets go of it;
  stopping destroys the requests while buffers may still be out. libcamera is the environment: it
  completes any queued request, and any of its calls may fail while the camera is started. The frame
  buffers are those \<open>Libcamera_Setup\<close> mapped.
\<close>

section \<open>State and operations\<close>

text \<open>A request is known by a number, a \<open>CameraBuffer\<close> by its address; \<open>lc_live\<close> are the buffers not yet
  deleted, with their requests, and \<open>lc_queued\<close> the requests the camera has. A request has a frame
  buffer once \<open>addBuffer\<close> has worked.\<close>

record libcamera_camera =
  lc_frame_buffers :: "nat list"
  lc_requests :: "(nat \<times> nat option) list"
  lc_next_request :: nat
  lc_camera_started :: bool
  lc_camera_buffers :: "nat list"
  lc_live :: "(nat \<times> nat) list"
  lc_queued :: "nat list"

definition LibcameraCamera :: "nat list \<Rightarrow> libcamera_camera" where
  "LibcameraCamera frame_buffers =
     \<lparr>lc_frame_buffers = frame_buffers, lc_requests = [], lc_next_request = 0, lc_camera_started = False,
      lc_camera_buffers = [], lc_live = [], lc_queued = []\<rparr>"

text \<open>With one stream, the loop makes a request for each free buffer until there is none.\<close>

fun makeRequests :: "nat list \<Rightarrow> libcamera_camera \<Rightarrow> libcamera_camera" where
  "makeRequests [] s = s"
| "makeRequests (buffer # free_buffers) s =
     makeRequests free_buffers (s\<lparr>lc_requests := lc_requests s @ [(lc_next_request s, Some buffer)],
       lc_next_request := Suc (lc_next_request s)\<rparr>)"

definition setControls :: "libcamera_camera \<Rightarrow> libcamera_camera" where
  "setControls s = s\<lparr>lc_camera_started := True\<rparr>"

definition StartCamera :: "libcamera_camera \<Rightarrow> libcamera_camera" where
  "StartCamera s =
     (let s1 = setControls (makeRequests (lc_frame_buffers s) s)
      in s1\<lparr>lc_queued := lc_queued s1 @ map fst (lc_requests s1)\<rparr>)"

text \<open>A start that throws: no request is created or no buffer added to it at the \<open>k\<close>-th frame buffer, the camera
  does not start, or the \<open>k\<close>-th request is not queued.\<close>

datatype lc_fault = NoRequest nat | NoBuffer nat | NoStart | NoQueue nat

definition StartCamera_throws :: "lc_fault \<Rightarrow> libcamera_camera \<Rightarrow> libcamera_camera" where
  "StartCamera_throws f s = (case f of
     NoRequest k \<Rightarrow> makeRequests (take k (lc_frame_buffers s)) s
   | NoBuffer k \<Rightarrow> let s1 = makeRequests (take k (lc_frame_buffers s)) s
       in s1\<lparr>lc_requests := lc_requests s1 @ [(lc_next_request s1, None)], lc_next_request := Suc (lc_next_request s1)\<rparr>
   | NoStart \<Rightarrow> makeRequests (lc_frame_buffers s) s
   | NoQueue k \<Rightarrow> let s1 = setControls (makeRequests (lc_frame_buffers s) s)
       in s1\<lparr>lc_queued := lc_queued s1 @ take k (map fst (lc_requests s1))\<rparr>)"

text \<open>A request the camera has done is no longer in its queue; a cancelled one is dropped. \<open>p\<close> is the address
  of the new buffer.\<close>

definition requestComplete :: "nat \<Rightarrow> bool \<Rightarrow> nat \<Rightarrow> libcamera_camera \<Rightarrow> libcamera_camera" where
  "requestComplete p cancelled r s =
     (let s1 = s\<lparr>lc_queued := remove1 r (lc_queued s)\<rparr> in
      if cancelled then s1
      else s1\<lparr>lc_camera_buffers := p # lc_camera_buffers s1, lc_live := (p, r) # lc_live s1\<rparr>)"

text \<open>The deleter of the buffer: its request is used only if the buffer is still in the set.\<close>

definition queueRequest :: "nat \<Rightarrow> libcamera_camera \<Rightarrow> libcamera_camera" where
  "queueRequest p s = (case map_of (lc_live s) p of
     None \<Rightarrow> s
   | Some request \<Rightarrow>
       let request_found = (p \<in> set (lc_camera_buffers s));
           s1 = s\<lparr>lc_camera_buffers := removeAll p (lc_camera_buffers s),
                  lc_live := filter (\<lambda>(q, _). q \<noteq> p) (lc_live s)\<rparr>
       in if \<not> lc_camera_started s1 \<or> \<not> request_found then s1
          else s1\<lparr>lc_queued := lc_queued s1 @ [request]\<rparr>)"

text \<open>Stopping the camera cancels what it has queued.\<close>

definition StopCamera :: "libcamera_camera \<Rightarrow> libcamera_camera" where
  "StopCamera s =
     (let s1 = (if lc_camera_started s then s\<lparr>lc_camera_started := False, lc_queued := []\<rparr> else s)
      in s1\<lparr>lc_camera_buffers := [], lc_requests := []\<rparr>)"

section \<open>Runs\<close>

text \<open>The streamer starts a stopped camera only; an allocation never returns the address of a live buffer.\<close>

inductive lc_reach :: "nat list \<Rightarrow> libcamera_camera \<Rightarrow> bool" for fbs where
  lc_create: "lc_reach fbs (LibcameraCamera fbs)"
| lc_start: "lc_reach fbs s \<Longrightarrow> \<not> lc_camera_started s \<Longrightarrow> lc_reach fbs (StartCamera s)"
| lc_complete: "lc_reach fbs s \<Longrightarrow> r \<in> set (lc_queued s) \<Longrightarrow> map_of (lc_live s) p = None \<Longrightarrow>
    lc_reach fbs (requestComplete p False r s)"
| lc_return: "lc_reach fbs s \<Longrightarrow> lc_reach fbs (queueRequest p s)"
| lc_stop: "lc_reach fbs s \<Longrightarrow> lc_reach fbs (StopCamera s)"

inductive_cases lc_reach_cases: "lc_reach fbs s"

text \<open>The requests of the buffers that are tracked.\<close>

definition tracked :: "libcamera_camera \<Rightarrow> nat list" where
  "tracked s = map snd (filter (\<lambda>(p, r). p \<in> set (lc_camera_buffers s)) (lc_live s))"

definition lc_ok :: "nat list \<Rightarrow> libcamera_camera \<Rightarrow> bool" where
  "lc_ok fbs s \<longleftrightarrow> lc_frame_buffers s = fbs \<and> distinct (map fst (lc_live s)) \<and>
     distinct (lc_camera_buffers s) \<and> set (lc_camera_buffers s) \<subseteq> fst ` set (lc_live s) \<and>
     (\<forall>(r, b) \<in> set (lc_requests s). r < lc_next_request s) \<and> distinct (map fst (lc_requests s)) \<and>
     (if lc_camera_started s
      then mset (lc_queued s) + mset (tracked s) = mset (map fst (lc_requests s)) \<and>
        map snd (lc_requests s) = map Some fbs
      else lc_queued s = [] \<and> lc_camera_buffers s = [] \<and> lc_requests s = [])"

lemma makeRequests_facts:
  "lc_frame_buffers (makeRequests bs s) = lc_frame_buffers s"
  "lc_live (makeRequests bs s) = lc_live s" "lc_camera_buffers (makeRequests bs s) = lc_camera_buffers s"
  "lc_queued (makeRequests bs s) = lc_queued s" "lc_camera_started (makeRequests bs s) = lc_camera_started s"
  "lc_next_request (makeRequests bs s) = lc_next_request s + length bs"
  "lc_requests (makeRequests bs s) =
     lc_requests s @ zip [lc_next_request s..<lc_next_request s + length bs] (map Some bs)"
  by (induction bs s rule: makeRequests.induct) (simp_all add: upt_rec)

lemma lc_ok_start:
  assumes "lc_ok fbs s" "\<not> lc_camera_started s"
  shows "lc_ok fbs (StartCamera s)"
  using assms
  by (auto simp: lc_ok_def StartCamera_def setControls_def makeRequests_facts tracked_def Let_def
      dest!: set_zip_leftD)

lemma live_key: "map_of ps p = None \<Longrightarrow> (p, r) \<notin> set ps"
  by (auto simp: map_of_eq_None_iff image_iff)

lemma lc_ok_complete:
  assumes "lc_ok fbs s" "r \<in> set (lc_queued s)" "map_of (lc_live s) p = None"
  shows "lc_ok fbs (requestComplete p False r s)"
proof -
  have started: "lc_camera_started s" using assms(1,2) by (auto simp: lc_ok_def split: if_splits)
  have new: "p \<notin> set (lc_camera_buffers s)" "p \<notin> fst ` set (lc_live s)"
    using assms(1,3) by (auto simp: lc_ok_def map_of_eq_None_iff)
  have t: "tracked (requestComplete p False r s) = r # tracked s"
  proof -
    have "filter (\<lambda>(q, x). q = p \<or> q \<in> set (lc_camera_buffers s)) (lc_live s) =
        filter (\<lambda>(q, x). q \<in> set (lc_camera_buffers s)) (lc_live s)"
      using new(2) by (intro filter_cong) force+
    then show ?thesis by (simp add: tracked_def requestComplete_def Let_def)
  qed
  have q: "lc_queued (requestComplete p False r s) = remove1 r (lc_queued s)"
    by (simp add: requestComplete_def Let_def)
  have "mset (remove1 r (lc_queued s)) + mset (r # tracked s) =
      add_mset r (mset (remove1 r (lc_queued s))) + mset (tracked s)" by simp
  also have "add_mset r (mset (remove1 r (lc_queued s))) = mset (lc_queued s)" using assms(2) by simp
  also have "mset (lc_queued s) + mset (tracked s) = mset (map fst (lc_requests s))"
    using assms(1) started by (simp add: lc_ok_def)
  finally have "mset (lc_queued (requestComplete p False r s)) + mset (tracked (requestComplete p False r s)) =
      mset (map fst (lc_requests s))" unfolding q t .
  then show ?thesis
    using assms(1) started new by (auto simp: lc_ok_def requestComplete_def Let_def)
qed

lemma tracked_removed:
  assumes "distinct (map fst ps)" "map_of ps p = Some r"
  shows "mset (map snd (filter (\<lambda>(q, x). q \<in> B) ps)) =
    mset (map snd (filter (\<lambda>(q, x). q \<in> B \<and> q \<noteq> p) ps)) + (if p \<in> B then {#r#} else {#})"
  using assms
proof (induction ps)
  case (Cons y ps)
  obtain q x where y: "y = (q, x)" by (cases y)
  show ?case
  proof (cases "q = p")
    case True
    then have "p \<notin> fst ` set ps" using Cons.prems(1) y by auto
    then have "filter (\<lambda>(q, x). q \<in> B \<and> q \<noteq> p) ps = filter (\<lambda>(q, x). q \<in> B) ps"
      by (intro filter_cong) force+
    with True Cons.prems y show ?thesis by simp
  next
    case False
    with Cons y show ?thesis by simp
  qed
qed simp

lemma queueRequest_tracked:
  assumes "lc_ok fbs s" "map_of (lc_live s) p = Some r"
  shows "mset (tracked s) = mset (tracked (queueRequest p s)) +
    (if p \<in> set (lc_camera_buffers s) then {#r#} else {#})"
proof -
  have f: "lc_live (queueRequest p s) = filter (\<lambda>(q, _). q \<noteq> p) (lc_live s)"
    "lc_camera_buffers (queueRequest p s) = removeAll p (lc_camera_buffers s)"
    using assms(2) by (simp_all add: queueRequest_def Let_def)
  have "tracked (queueRequest p s) =
      map snd (filter (\<lambda>(q, x). q \<in> set (lc_camera_buffers s) \<and> q \<noteq> p) (lc_live s))"
    unfolding tracked_def f filter_filter by (rule arg_cong [of _ _ "map snd"], rule filter_cong) auto
  moreover have "distinct (map fst (lc_live s))" using assms(1) by (simp add: lc_ok_def)
  from tracked_removed [OF this assms(2), of "set (lc_camera_buffers s)"]
  have "mset (tracked s) =
      mset (map snd (filter (\<lambda>(q, x). q \<in> set (lc_camera_buffers s) \<and> q \<noteq> p) (lc_live s))) +
      (if p \<in> set (lc_camera_buffers s) then {#r#} else {#})" unfolding tracked_def .
  ultimately show ?thesis by simp
qed

lemma lc_ok_return:
  assumes "lc_ok fbs s"
  shows "lc_ok fbs (queueRequest p s)"
proof (cases "map_of (lc_live s) p")
  case (Some r)
  have "distinct (map fst (filter (\<lambda>(q, _). q \<noteq> p) (lc_live s)))"
    using assms by (simp add: lc_ok_def distinct_map_filter)
  moreover have "set (removeAll p (lc_camera_buffers s)) \<subseteq> fst ` set (filter (\<lambda>(q, _). q \<noteq> p) (lc_live s))"
    using assms by (force simp: lc_ok_def)
  ultimately show ?thesis
    using assms Some queueRequest_tracked [OF assms Some]
    by (cases "lc_camera_started s"; cases "p \<in> set (lc_camera_buffers s)")
       (simp_all add: lc_ok_def queueRequest_def Let_def distinct_removeAll)
qed (use assms in \<open>simp add: queueRequest_def\<close>)

lemma lc_ok_reach: "lc_reach fbs s \<Longrightarrow> lc_ok fbs s"
proof (induction rule: lc_reach.induct)
  case lc_create
  show ?case by (simp add: lc_ok_def LibcameraCamera_def)
next
  case (lc_stop s)
  then show ?case by (simp add: lc_ok_def StopCamera_def Let_def split: if_splits)
qed (simp_all add: lc_ok_start lc_ok_complete lc_ok_return)

section \<open>Nothing is lost, nothing dead is used\<close>

text \<open>C20 (safety): through every sequence of starts, stops, completed frames and returns of buffers, a
  started camera has exactly one request for each frame buffer, and each is either in its queue or with
  one buffer that is out; the request of a buffer that outlived the stop of its camera is never queued
  again, even if the camera was started anew; and a request that is queued or tracked exists.\<close>

theorem camera_requests_conserved:
  assumes "lc_reach fbs s"
  shows "(lc_camera_started s \<longrightarrow>
      mset (lc_queued s) + mset (tracked s) = mset (map fst (lc_requests s)) \<and>
      map snd (lc_requests s) = map Some fbs \<and> distinct (map fst (lc_requests s))) \<and>
    (\<forall>p r. map_of (lc_live s) p = Some r \<longrightarrow> r \<notin> fst ` set (lc_requests s) \<longrightarrow>
      lc_queued (queueRequest p s) = lc_queued s) \<and>
    set (lc_queued s) \<union> set (tracked s) \<subseteq> fst ` set (lc_requests s)"
proof -
  note ok = lc_ok_reach [OF assms]
  have sub: "set (lc_queued s) \<union> set (tracked s) \<subseteq> fst ` set (lc_requests s)"
  proof (cases "lc_camera_started s")
    case True
    then have "mset (lc_queued s) + mset (tracked s) = mset (map fst (lc_requests s))" using ok by (simp add: lc_ok_def)
    from arg_cong [OF this, of set_mset] show ?thesis by auto
  qed (use ok in \<open>simp add: lc_ok_def tracked_def\<close>)
  have "lc_queued (queueRequest p s) = lc_queued s"
    if "map_of (lc_live s) p = Some r" "r \<notin> fst ` set (lc_requests s)" for p r
  proof -
    have "p \<notin> set (lc_camera_buffers s)"
    proof
      assume "p \<in> set (lc_camera_buffers s)"
      then have "r \<in> set (tracked s)" using map_of_SomeD [OF that(1)] by (force simp: tracked_def)
      with sub that(2) show False by blast
    qed
    with that(1) show ?thesis by (simp add: queueRequest_def Let_def)
  qed
  with sub ok show ?thesis by (auto simp: lc_ok_def)
qed

text \<open>A buffer taken before a stop, returned after the next start.\<close>

definition demo_restarted :: libcamera_camera where
  "demo_restarted = StartCamera (StopCamera (requestComplete 70 False 0 (StartCamera (LibcameraCamera [5, 6]))))"

lemma demo_restarted_reach: "lc_reach [5, 6] demo_restarted"
  unfolding demo_restarted_def
  by (intro lc_start lc_stop lc_complete lc_create)
     (simp_all add: LibcameraCamera_def StartCamera_def setControls_def StopCamera_def requestComplete_def Let_def)

theorem camera_requests_conserved_witness:
  "lc_queued (queueRequest 70 demo_restarted) = [2, 3]"
proof -
  have "lc_queued demo_restarted = [2, 3]" "map_of (lc_live demo_restarted) 70 = Some 0"
    "0 \<notin> fst ` set (lc_requests demo_restarted)"
    by (simp_all add: demo_restarted_def LibcameraCamera_def StartCamera_def setControls_def StopCamera_def
        requestComplete_def Let_def)
  with conjunct1 [OF conjunct2 [OF camera_requests_conserved [OF demo_restarted_reach]], rule_format]
  show ?thesis by simp
qed

section \<open>Starts that fail\<close>

text \<open>Whatever call of a start fails, the camera is running afterwards only if it was the queueing of
  a request, and stopping it leaves a stopped camera as good as new; but starting it again without a stop
  makes two requests for every frame buffer.\<close>

theorem failed_start_needs_a_stop:
  assumes "lc_reach fbs s" "\<not> lc_camera_started s"
  shows "(lc_camera_started (StartCamera_throws f s) \<longleftrightarrow> (\<exists>k. f = NoQueue k)) \<and>
    lc_ok fbs (StopCamera (StartCamera_throws f s)) \<and>
    \<not> lc_camera_started (StopCamera (StartCamera_throws f s)) \<and>
    map snd (lc_requests (StartCamera (StopCamera (StartCamera_throws f s)))) = map Some fbs \<and>
    map snd (lc_requests (StartCamera (StartCamera_throws NoStart s))) = map Some fbs @ map Some fbs"
proof -
  have ok: "lc_ok fbs s" by (rule lc_ok_reach [OF assms(1)])
  then have s: "lc_queued s = []" "lc_camera_buffers s = []" "lc_requests s = []" "lc_frame_buffers s = fbs"
    using assms(2) by (simp_all add: lc_ok_def)
  have started: "lc_camera_started (StartCamera_throws f s) \<longleftrightarrow> (\<exists>k. f = NoQueue k)"
    using assms(2) by (cases f) (simp_all add: StartCamera_throws_def makeRequests_facts setControls_def Let_def)
  have same: "lc_live (StartCamera_throws f s) = lc_live s" "lc_frame_buffers (StartCamera_throws f s) = fbs"
    "lc_camera_started (StartCamera_throws f s) \<or> lc_queued (StartCamera_throws f s) = []"
    using s assms(2) by (cases f; simp add: StartCamera_throws_def makeRequests_facts setControls_def Let_def)+
  let ?t = "StopCamera (StartCamera_throws f s)"
  have t: "lc_queued ?t = []" "lc_camera_buffers ?t = []" "lc_requests ?t = []" "lc_frame_buffers ?t = fbs"
    "lc_live ?t = lc_live s" "\<not> lc_camera_started ?t"
    using same by (auto simp: StopCamera_def Let_def)
  then have "lc_ok fbs ?t" using ok by (simp add: lc_ok_def)
  moreover from lc_ok_start [OF this t(6)] have "map snd (lc_requests (StartCamera ?t)) = map Some fbs"
    by (auto simp: lc_ok_def StartCamera_def setControls_def Let_def split: if_splits)
  moreover have "map snd (lc_requests (StartCamera (StartCamera_throws NoStart s))) = map Some fbs @ map Some fbs"
    using s by (simp add: StartCamera_def StartCamera_throws_def setControls_def makeRequests_facts Let_def)
  ultimately show ?thesis using started t(6) by blast
qed

theorem failed_start_needs_a_stop_witness:
  "map snd (lc_requests (StartCamera (StartCamera_throws NoStart (LibcameraCamera [5, 6])))) =
     [Some 5, Some 6, Some 5, Some 6]"
  using failed_start_needs_a_stop [OF lc_create [of "[5, 6]"], of NoStart] by (simp add: LibcameraCamera_def)

end
