(* ===== verification/String_Camera.thy ===== *)
theory String_Camera
  imports Buffer_Pool Worker Packet_Header Image_Rows
begin

text \<open>
  \<open>src/internal/infrastructure/camera/string_camera.cpp\<close>, the camera for tests without hardware: a thread that
  writes the number of each frame into a free buffer and hands it on; the buffer comes back to the queue
  when its last owner lets go of it. The time between frames, which comes from floating point, is left
  out: a turn of the loop may happen at any time.
\<close>

section \<open>Buffers and operations\<close>

text \<open>A buffer is known by the order of its creation; \<open>None\<close> is undefined behaviour: \<open>long\<close> overflows, or the
  number is written outside the memory.\<close>

record string_buffer =
  sb_id :: nat
  sb_memory :: "byte list"

definition StringCameraBuffer :: "nat \<Rightarrow> nat \<Rightarrow> string_buffer" where
  "StringCameraBuffer i buffer_size = \<lparr>sb_id = i, sb_memory = replicate buffer_size 0\<rparr>"

fun store_number :: "64 word \<Rightarrow> nat list \<Rightarrow> byte list \<Rightarrow> byte list" where
  "store_number v [] mem = mem"
| "store_number v (i # ks) mem =
     store_number v ks (mem[63 - i := ucast (signed_drop_bit (i * 8) v AND 0xFF)])"

definition SetBufferNumber :: "64 word \<Rightarrow> string_buffer \<Rightarrow> (64 word \<times> string_buffer) option" where
  "SetBufferNumber buffer_value b =
     (if sint buffer_value = 2 ^ 63 - 1 \<or> length (sb_memory b) < 64 then None
      else let v = buffer_value + 1 in
        Some (v, b\<lparr>sb_memory := store_number v [0..<8] (replicate (length (sb_memory b)) 0)\<rparr>))"

record string_camera =
  sc_camera_buffers :: "string_buffer list"
  sc_work_stop :: bool
  sc_work_thread :: bool
  sc_prog_cntr :: "64 word"

definition StringCamera :: "nat \<Rightarrow> nat \<Rightarrow> nat \<Rightarrow> string_camera" where
  "StringCamera width height camera_buffer_count =
     \<lparr>sc_camera_buffers = map (\<lambda>i. StringCameraBuffer i (width * height)) [0..<camera_buffer_count],
      sc_work_stop = True, sc_work_thread = False, sc_prog_cntr = 0\<rparr>"

text \<open>Every thread counts from zero.\<close>

definition sc_StartCamera :: "string_camera \<Rightarrow> string_camera" where
  "sc_StartCamera s = (if \<not> sc_work_stop s then s
     else s\<lparr>sc_work_stop := False, sc_work_thread := True, sc_prog_cntr := 0\<rparr>)"

definition sc_StopCamera :: "string_camera \<Rightarrow> string_camera" where
  "sc_StopCamera s = (if sc_work_stop s then s else s\<lparr>sc_work_stop := True, sc_work_thread := False\<rparr>)"

definition sc_take_buffer :: "string_camera \<Rightarrow> string_buffer option \<times> string_camera" where
  "sc_take_buffer s = (case sc_camera_buffers s of
     [] \<Rightarrow> (None, s) | b # bs \<Rightarrow> (Some b, s\<lparr>sc_camera_buffers := bs\<rparr>))"

definition queueCameraBuffer :: "string_buffer \<Rightarrow> string_camera \<Rightarrow> string_camera" where
  "queueCameraBuffer b s = s\<lparr>sc_camera_buffers := sc_camera_buffers s @ [b]\<rparr>"

text \<open>A turn of \<open>run\<close>: the buffer handed on, if one was free.\<close>

definition sc_turn :: "string_camera \<Rightarrow> (string_camera \<times> string_buffer option) option" where
  "sc_turn s = (if sc_work_stop s then Some (s, None)
     else case sc_take_buffer s of
         (None, s1) \<Rightarrow> Some (s1, None)
       | (Some b, s1) \<Rightarrow> (case SetBufferNumber (sc_prog_cntr s1) b of
             None \<Rightarrow> None
           | Some (v, b1) \<Rightarrow> Some (s1\<lparr>sc_prog_cntr := v\<rparr>, Some b1)))"

interpretation string_thread: work_thread sc_StartCamera sc_StopCamera sc_work_stop sc_work_thread
  by unfold_locales (auto simp: sc_StartCamera_def sc_StopCamera_def)

interpretation string_pool: buffer_pool sc_camera_buffers sc_take_buffer queueCameraBuffer
  by unfold_locales (auto simp: sc_take_buffer_def queueCameraBuffer_def)

section \<open>The number in a frame\<close>

text \<open>The eight bytes up to the sixty fourth, the most significant first.\<close>

definition frame_number :: "byte list \<Rightarrow> nat" where
  "frame_number mem = le_nat (rev (take 8 (drop 56 mem)))"

lemma store_number_nth:
  assumes "distinct ks" "\<forall>i \<in> set ks. i < 8" "64 \<le> length mem" "j < 64"
  shows "store_number v ks mem ! j =
    (if 63 - j \<in> set ks then ucast (signed_drop_bit ((63 - j) * 8) v AND 0xFF) else mem ! j)"
  using assms
proof (induction ks arbitrary: mem)
  case (Cons i ks)
  have "63 - j = i \<longleftrightarrow> 63 - i = j" using Cons.prems by auto
  with Cons show ?case by (auto simp: nth_list_update)
qed simp

lemma le_bytes_map: "le_bytes n v = map (\<lambda>i. of_nat (v div 256 ^ i)) [0..<n]"
proof (induction n arbitrary: v)
  case (Suc n)
  show ?case unfolding upt_conv_Cons [OF zero_less_Suc] map_Suc_upt [symmetric]
    by (simp add: Suc div_mult2_eq comp_def)
qed simp

lemma number_byte:
  fixes v :: "64 word"
  assumes "i < 8"
  shows "(ucast (signed_drop_bit (i * 8) v AND 0xFF) :: byte) = of_nat (unat v div 256 ^ i)"
proof -
  have "unat v div 256 ^ i = unat (drop_bit (8 * i) v)"
    unfolding unat_drop_bit_eq by (simp add: drop_bit_eq_div power_mult)
  then have "(of_nat (unat v div 256 ^ i) :: byte) = ucast (drop_bit (8 * i) v)" by (simp add: unsigned_ucast_eq)
  moreover have "bit (ucast (signed_drop_bit (i * 8) v AND 0xFF) :: byte) k = bit (ucast (drop_bit (8 * i) v) :: byte) k"
    if "k < 8" for k
  proof -
    have "\<not> LENGTH(64) - i * 8 \<le> k" using that assms by simp
    moreover have "bit (0xFF :: 64 word) k"
      using that by (simp add: bit_numeral_word_iff less_Suc_eq numeral_eq_Suc) auto
    ultimately show ?thesis
      using that by (simp add: bit_ucast_iff bit_and_iff bit_signed_drop_bit_iff bit_drop_bit_eq mult.commute add.commute
          del: len_num0 len_num1 len_bit0 len_bit1)
  qed
  ultimately show ?thesis by (simp add: bit_eq_iff possible_bit_def)
qed

lemma frame_number_stored:
  assumes "64 \<le> n"
  shows "frame_number (store_number v [0..<8] (replicate n 0)) = unat v"
proof -
  let ?m = "store_number v [0..<8] (replicate n 0)"
  have len: "length (store_number v ks m) = length m" for ks m by (induction ks arbitrary: m) simp_all
  have "rev (take 8 (drop 56 ?m)) = map (\<lambda>i. ?m ! (63 - i)) [0..<8]"
    using assms by (intro nth_equalityI) (simp_all add: rev_nth len)
  also have "\<dots> = le_bytes 8 (unat v)"
    unfolding le_bytes_map using assms
    by (intro map_cong refl) (simp add: store_number_nth number_byte)
  finally have "frame_number ?m = unat v mod 256 ^ 8" by (simp add: frame_number_def le_nat_bytes)
  moreover have "unat v < 256 ^ 8" using unsigned_less [of v] by simp
  ultimately show ?thesis by simp
qed

section \<open>Runs\<close>

datatype sc_event = ScStart | ScStop | ScTurn | ScReturn nat

text \<open>The camera, the buffers that are out, and the frames handed on since the last start.\<close>

type_synonym sc_world = "string_camera \<times> string_buffer list \<times> byte list list"

fun sc_step :: "sc_event \<Rightarrow> sc_world \<Rightarrow> sc_world option" where
  "sc_step ScStart (s, out, sent) = Some (sc_StartCamera s, out, if sc_work_stop s then [] else sent)"
| "sc_step ScStop (s, out, sent) = Some (sc_StopCamera s, out, sent)"
| "sc_step ScTurn (s, out, sent) = (case sc_turn s of
     None \<Rightarrow> None
   | Some (s1, None) \<Rightarrow> Some (s1, out, sent)
   | Some (s1, Some b) \<Rightarrow> Some (s1, out @ [b], sent @ [sb_memory b]))"
| "sc_step (ScReturn i) (s, out, sent) =
     (if i < length out then Some (queueCameraBuffer (out ! i) s, take i out @ drop (Suc i) out, sent)
      else Some (s, out, sent))"

fun sc_run :: "sc_event list \<Rightarrow> sc_world \<Rightarrow> sc_world option" where
  "sc_run [] w = Some w"
| "sc_run (e # es) w = (case sc_step e w of None \<Rightarrow> None | Some w1 \<Rightarrow> sc_run es w1)"

fun_cases sc_step_SomeE: "sc_step e w = Some w1"

text \<open>Every buffer is in one place and has its size; the frames are numbered as they were sent.\<close>

definition sc_ok :: "nat \<Rightarrow> nat \<Rightarrow> nat \<Rightarrow> sc_world \<Rightarrow> bool" where
  "sc_ok n sz k w \<longleftrightarrow> (case w of (s, out, sent) \<Rightarrow>
     mset (map sb_id (sc_camera_buffers s)) + mset (map sb_id out) = mset [0..<n] \<and>
     (\<forall>b \<in> set (sc_camera_buffers s @ out). length (sb_memory b) = sz) \<and>
     (\<forall>m \<in> set sent. length m = sz) \<and>
     length sent \<le> k \<and> sc_prog_cntr s = of_nat (length sent) \<and> map frame_number sent = [1..<Suc (length sent)])"

lemma sint_small: "k < 2 ^ 63 \<Longrightarrow> sint (of_nat k :: 64 word) = int k"
proof -
  assume k: "k < 2 ^ 63"
  then have "unat (of_nat k :: 64 word) = k" by (simp add: unat_of_nat take_bit_nat_eq_self)
  then have "uint (of_nat k :: 64 word) = int k" by (metis uint_nat)
  with k show ?thesis by (simp add: sint_uint signed_take_bit_int_eq_self)
qed

lemma sc_turn_ok:
  assumes "sc_ok n sz k (s, out, sent)" "64 \<le> sz" "k < 2 ^ 63 - 1" "\<not> sc_work_stop s" "sc_camera_buffers s = b # bs"
  shows "\<exists>b1. sc_turn s = Some (s\<lparr>sc_camera_buffers := bs, sc_prog_cntr := of_nat (Suc (length sent))\<rparr>, Some b1) \<and>
    sb_id b1 = sb_id b \<and> length (sb_memory b1) = sz \<and> frame_number (sb_memory b1) = Suc (length sent)"
proof -
  have k: "length sent < 2 ^ 63 - 1" "length (sb_memory b) = sz" "sc_prog_cntr s = of_nat (length sent)"
    using assms by (auto simp: sc_ok_def)
  have "sint (of_nat (length sent) :: 64 word) \<noteq> 2 ^ 63 - 1" using k(1) by (subst sint_small) simp_all
  moreover have "unat (of_nat (Suc (length sent)) :: 64 word) = Suc (length sent)"
    using k(1) by (simp only: unat_of_nat take_bit_nat_eq_self) (simp add: take_bit_nat_eq_self)
  moreover have len: "length (store_number v ks m) = length m" for v ks m by (induction ks arbitrary: m) simp_all
  ultimately show ?thesis
    using k(2,3) assms(2,4,5) frame_number_stored [OF assms(2), of "of_nat (Suc (length sent))"]
    by (simp add: sc_turn_def sc_take_buffer_def SetBufferNumber_def Let_def add.commute)
qed

lemma sc_ok_step:
  assumes "sc_ok n sz k w" "64 \<le> sz" "k < 2 ^ 63 - 1"
  shows "\<exists>w1. sc_step e w = Some w1 \<and> sc_ok n sz (Suc k) w1"
proof -
  obtain s out sent where w: "w = (s, out, sent)" by (cases w)
  show ?thesis
  proof (cases e)
    case ScStart
    with assms w show ?thesis by (auto simp: sc_ok_def sc_StartCamera_def)
  next
    case ScStop
    with assms w show ?thesis by (auto simp: sc_ok_def sc_StopCamera_def)
  next
    case (ScReturn i)
    show ?thesis
    proof (cases "i < length out")
      case True
      have "mset (map sb_id out) = add_mset (sb_id (out ! i)) (mset (map sb_id (take i out @ drop (Suc i) out)))"
        using arg_cong [OF string_pool.take_out_mset [OF True], of "image_mset sb_id"] by simp
      with assms w ScReturn True show ?thesis
        by (auto simp: sc_ok_def queueCameraBuffer_def dest: in_set_takeD in_set_dropD)
    next
      case False
      with assms w ScReturn show ?thesis by (auto simp: sc_ok_def)
    qed
  next
    case ScTurn
    consider "sc_work_stop s \<or> sc_camera_buffers s = []" | b bs where "\<not> sc_work_stop s" "sc_camera_buffers s = b # bs"
      by (cases "sc_camera_buffers s") auto
    then show ?thesis
    proof cases
      case 1
      then have "sc_turn s = Some (s, None)" by (auto simp: sc_turn_def sc_take_buffer_def)
      with assms w ScTurn show ?thesis by (auto simp: sc_ok_def)
    next
      case (2 b bs)
      with sc_turn_ok [OF assms(1) [unfolded w] assms(2,3)] obtain b1 where
        b1: "sc_turn s = Some (s\<lparr>sc_camera_buffers := bs, sc_prog_cntr := of_nat (Suc (length sent))\<rparr>, Some b1)"
          "sb_id b1 = sb_id b" "length (sb_memory b1) = sz" "frame_number (sb_memory b1) = Suc (length sent)"
        by blast
      with 2 assms(1) w ScTurn show ?thesis by (auto simp: sc_ok_def)
    qed
  qed
qed

lemma sc_ok_run:
  assumes "sc_ok n sz k w" "64 \<le> sz" "k + length es < 2 ^ 63"
  shows "\<exists>w1. sc_run es w = Some w1 \<and> sc_ok n sz (k + length es) w1"
  using assms
proof (induction es arbitrary: k w)
  case (Cons e es)
  then obtain w1 where w1: "sc_step e w = Some w1" "sc_ok n sz (Suc k) w1" using sc_ok_step [of n sz k w e] by auto
  with Cons.IH [OF w1(2) Cons.prems(2)] Cons.prems(3) show ?case by auto
qed auto

text \<open>Whatever the starts, stops, turns of the thread and returns of buffers, a camera whose
  frames have at least 64 bytes does nothing undefined; each of its buffers is in the queue or out, once;
  and the frames it has handed on since the last start carry the numbers 1, 2, 3 and so on in order, none
  being skipped when no buffer was free.\<close>

theorem string_camera_numbers:
  assumes "64 \<le> w * h" "length es < 2 ^ 63"
  shows "\<exists>s out sent. sc_run es (StringCamera w h n, [], []) = Some (s, out, sent) \<and>
    mset (map sb_id (sc_camera_buffers s)) + mset (map sb_id out) = mset [0..<n] \<and>
    map frame_number sent = [1..<Suc (length sent)]"
proof -
  have "sc_ok n (w * h) 0 (StringCamera w h n, [], [])"
    by (auto simp: sc_ok_def StringCamera_def StringCameraBuffer_def comp_def multiset.map_comp)
  from sc_ok_run [OF this assms(1)] assms(2) obtain s out sent
    where "sc_run es (StringCamera w h n, [], []) = Some (s, out, sent)" "sc_ok n (w * h) (0 + length es) (s, out, sent)"
    by (metis add_0 prod_cases3)
  then show ?thesis unfolding sc_ok_def prod.case by blast
qed

theorem string_camera_numbers_witness:
  "\<exists>s out sent. sc_run [ScStart, ScTurn, ScTurn, ScTurn, ScReturn 0, ScTurn] (StringCamera 8 8 2, [], []) =
     Some (s, out, sent) \<and> map frame_number sent = [1..<Suc (length sent)]"
proof -
  have "64 \<le> 8 * (8::nat)" "length [ScStart, ScTurn, ScTurn, ScTurn, ScReturn 0, ScTurn] < 2 ^ 63" by simp_all
  from string_camera_numbers [OF this, of 2] show ?thesis by (elim exE conjE) (intro exI conjI)
qed

text \<open>A frame of this camera is a plane of brightness only. The encoder, which takes every frame
  for one with two planes of colour behind it, reads past the end of each.\<close>

theorem string_frames_too_short:
  assumes "2 \<le> w" "2 \<le> h"
  shows "(w * h, w div 2) \<in> set (segments w (encoder_rows w h)) \<and>
    length (sb_memory (StringCameraBuffer i (w * h))) < w * h + w div 2"
proof -
  have "1 \<le> h div 2" using assms by simp
  from mult_le_mono2 [OF this, of "stride2 w"] have "stride2 w \<le> stride2 w * (h div 2)" by simp
  then have "min (U_plane w h) (V_plane w h - stride2 w) = w * h"
    unfolding V_plane_def U_plane_def by linarith
  then have "w * h \<in> set (map (\<lambda>i. min (U_plane w h + i * stride2 w) (V_plane w h - stride2 w)) [0..<8])"
    by (auto intro!: image_eqI [of _ _ 0])
  then have "(w * h, w div 2) \<in> set (group_segments w (encoder_group w h 0 (U_plane w h) (V_plane w h)))"
    by (auto simp: group_segments_def encoder_group_def Let_def stride2_def)
  moreover have "0 < group_count h" using assms(2) by (simp add: group_count_def)
  then have "encoder_group w h 0 (U_plane w h) (V_plane w h) \<in> set (encoder_rows w h)"
    by (force simp: encoder_rows_eq intro!: image_eqI [of _ _ 0])
  ultimately show ?thesis using assms(1) by (auto simp: set_segments StringCameraBuffer_def)
qed

theorem string_frames_too_short_witness:
  "(64, 4) \<in> set (segments 8 (encoder_rows 8 8))"
  using string_frames_too_short [of 8 8] by simp

end
