(* ===== verification/Camera_Streamer.thy ===== *)
theory Camera_Streamer
  imports Service_Parts Tcp_Client Libcamera_Camera String_Camera
begin

text \<open>
  \<open>src/internal/service/camera_streamer.cpp\<close>, the program of a camera: the camera's frames go to the encoder,
  the encoder's images to the TCP client. The camera itself is one of the three implementations; the fake
  one does nothing.
\<close>

datatype camera_type = CameraLibcamera | CameraFake | CameraString

record camera_config =
  cc_tcp_server_host :: string
  cc_tcp_server_port :: int
  cc_tcp_client_use_fixed_port :: bool
  cc_camera_type :: camera_type
  cc_camera_width_height :: "nat \<times> nat"
  cc_encoder_type :: encoder_type
  cc_encoder_buffers_downstream :: nat

definition cc_asio_pool_size :: nat where "cc_asio_pool_size = 1"

definition cc_connection_type :: connection_type where "cc_connection_type = CAMERA_CONNECTION"

definition cc_camera_buffer_count :: nat where "cc_camera_buffer_count = 5"

datatype camera_part = LibcameraPart libcamera_camera | FakeCamera | StringCameraPart string_camera

text \<open>The factory \<open>Camera::Create\<close>, for a build with libcamera or without, and with what libcamera answers.\<close>

definition Camera_Create :: "bool \<Rightarrow> lc_library \<Rightarrow> camera_type \<Rightarrow> nat \<Rightarrow> nat \<Rightarrow> string + camera_part" where
  "Camera_Create libcamera_built lib t w h = (case t of
     CameraLibcamera \<Rightarrow>
       if libcamera_built
       then (case CreateCamera lib of (Inl e, r) \<Rightarrow> Inl e | (Inr _, r) \<Rightarrow> Inr (LibcameraPart (LibcameraCamera (lh_frame_buffers r))))
       else Inl ''Selected camera unavailable... ''
   | CameraFake \<Rightarrow> Inr FakeCamera
   | CameraString \<Rightarrow> Inr (StringCameraPart (StringCamera w h cc_camera_buffer_count)))"

text \<open>Starting: a failing call of libcamera is an exception.\<close>

definition fault_message :: "lc_fault \<Rightarrow> string" where
  "fault_message f = (case f of NoRequest _ \<Rightarrow> ''failed to make request'' | NoBuffer _ \<Rightarrow> ''failed to add buffer to request''
     | NoStart \<Rightarrow> ''failed to start camera'' | NoQueue _ \<Rightarrow> ''Failed to queue request'')"

definition camera_part_Start :: "lc_fault option \<Rightarrow> camera_part \<Rightarrow> string + camera_part" where
  "camera_part_Start fault p = (case p of
     LibcameraPart c \<Rightarrow> (case fault of None \<Rightarrow> Inr (LibcameraPart (StartCamera c)) | Some f \<Rightarrow> Inl (fault_message f))
   | FakeCamera \<Rightarrow> Inr FakeCamera
   | StringCameraPart c \<Rightarrow> Inr (StringCameraPart (sc_StartCamera c)))"

definition camera_part_Stop :: "camera_part \<Rightarrow> camera_part" where
  "camera_part_Stop p = (case p of LibcameraPart c \<Rightarrow> LibcameraPart (StopCamera c) | FakeCamera \<Rightarrow> FakeCamera
   | StringCameraPart c \<Rightarrow> StringCameraPart (sc_StopCamera c))"

record camera_streamer =
  cs_is_started :: bool
  cs_asio :: asio_context
  cs_tcp :: tcp_client
  cs_encoder :: encoder_part
  cs_camera :: camera_part

definition camera_initialize ::
    "(nat \<Rightarrow> byte) \<Rightarrow> bool \<Rightarrow> lc_library \<Rightarrow> camera_config \<Rightarrow> string + camera_streamer" where
  "camera_initialize junk libcamera_built lib c =
     (let w = fst (cc_camera_width_height c); h = snd (cc_camera_width_height c) in
      case TcpClient junk cc_connection_type (cc_tcp_client_use_fixed_port c)
             (int (cc_encoder_buffers_downstream c)) (int (frame_size w h)) of
        Inl e \<Rightarrow> Inl e
      | Inr tcp \<Rightarrow>
          (case Encoder_Create junk (cc_encoder_type c) w h (cc_encoder_buffers_downstream c) of
             Inl e \<Rightarrow> Inl e
           | Inr enc \<Rightarrow>
               (case Camera_Create libcamera_built lib (cc_camera_type c) w h of
                  Inl e \<Rightarrow> Inl e
                | Inr cam \<Rightarrow> Inr \<lparr>cs_is_started = False, cs_asio = asio_create cc_asio_pool_size,
                    cs_tcp = tcp, cs_encoder = enc, cs_camera = cam\<rparr>)))"

definition camera_streamer_Start :: "lc_fault option \<Rightarrow> camera_streamer \<Rightarrow> string + camera_streamer" where
  "camera_streamer_Start fault s =
     (if cs_is_started s then Inr s
      else case camera_part_Start fault (cs_camera s) of
          Inl e \<Rightarrow> Inl e
        | Inr cam \<Rightarrow> Inr (s\<lparr>cs_camera := cam, cs_encoder := encoder_Start (cs_encoder s),
             cs_asio := asio_start (cs_asio s), cs_tcp := client_Start (cs_tcp s), cs_is_started := True\<rparr>))"

definition camera_streamer_Stop :: "camera_streamer \<Rightarrow> camera_streamer" where
  "camera_streamer_Stop s =
     (if \<not> cs_is_started s then s
      else s\<lparr>cs_tcp := fst (client_Stop (cs_tcp s)), cs_asio := asio_halt (cs_asio s),
             cs_encoder := encoder_Stop (cs_encoder s), cs_camera := camera_part_Stop (cs_camera s), cs_is_started := False\<rparr>)"

text \<open>The camera's callback, and the encoder's; what the null encoder hands on at once is sent as it is.\<close>

definition camera_frame :: "byte list \<Rightarrow> camera_streamer \<Rightarrow> camera_streamer" where
  "camera_frame frame s = (case encoder_Post frame (cs_encoder s) of
     (e, None) \<Rightarrow> s\<lparr>cs_encoder := e\<rparr>
   | (e, Some raw) \<Rightarrow> s\<lparr>cs_encoder := e, cs_tcp := client_Post raw (cs_tcp s)\<rparr>)"

definition camera_encode ::
    "(byte list list \<Rightarrow> byte list) \<Rightarrow> camera_streamer \<Rightarrow> camera_streamer \<times> encoder_buffer option" where
  "camera_encode compress s = (case cs_encoder s of
     NullEncoder \<Rightarrow> (s, None)
   | SwEncoderPart e \<Rightarrow> (case encoder_turn compress e of
       (e1, None) \<Rightarrow> (s\<lparr>cs_encoder := SwEncoderPart e1\<rparr>, None)
     | (e1, Some b) \<Rightarrow> (s\<lparr>cs_encoder := SwEncoderPart e1,
           cs_tcp := client_Post (encoder_buffer_bytes b) (cs_tcp s)\<rparr>, Some b)))"

text \<open>A frame of a started camera is in the client's hands after one turn of the encoder, if a buffer is
  free: what is posted are the bytes the JPEG library made of the frame's rows, whole.\<close>

lemma encoded_bytes:
  assumes "encodeBuffer compress frame e = (e1, Some b)"
  shows "encoder_buffer_bytes b = compress (load_rows (enc_width e) (encoder_rows (enc_width e) (enc_height e)) frame)"
  using assms
  by (auto simp: encodeBuffer_def encoder_take_buffer_def encoder_buffer_bytes_def Let_def store_at_def
      split: list.splits)

lemma camera_frame_posted:
  assumes "cs_encoder s = SwEncoderPart e" "\<not> enc_work_stop e" "enc_work_queue e = []"
    and "enc_downstream e \<noteq> []"
  shows "\<exists>b e1. camera_encode compress (camera_frame frame s) =
      (s\<lparr>cs_encoder := SwEncoderPart e1, cs_tcp := client_Post (compress (load_rows (enc_width e)
         (encoder_rows (enc_width e) (enc_height e)) frame)) (cs_tcp s)\<rparr>, Some b) \<and>
      enc_downstream e1 = tl (enc_downstream e) \<and> enc_work_queue e1 = [] \<and>
      encoder_buffer_bytes b = compress (load_rows (enc_width e) (encoder_rows (enc_width e) (enc_height e)) frame)"
proof -
  let ?e = "e\<lparr>enc_work_queue := [frame]\<rparr>"
  let ?e2 = "e\<lparr>enc_work_queue := []\<rparr>"
  have f: "camera_frame frame s = s\<lparr>cs_encoder := SwEncoderPart ?e\<rparr>"
    using assms by (simp add: camera_frame_def encoder_Post_def PostCameraBuffer_def)
  obtain b e1 where b: "encodeBuffer compress frame ?e2 = (e1, Some b)"
    "enc_downstream e1 = tl (enc_downstream e)" "enc_work_queue e1 = []"
    using assms(4) by (cases "enc_downstream e") (auto simp: encodeBuffer_def encoder_take_buffer_def Let_def)
  have n: "encoder_next_frame ?e = Some (frame, ?e2)"
    using assms by (simp add: encoder_next_frame_def)
  have "encoder_turn compress ?e = (e1, Some b)" using n b(1) by (simp add: encoder_turn_def)
  then show ?thesis using f encoded_bytes [OF b(1)] b(2,3) by (auto simp: camera_encode_def)
qed

section \<open>The life of the service\<close>

definition camera_part_idle :: "camera_part \<Rightarrow> bool" where
  "camera_part_idle p \<longleftrightarrow> (case p of
     LibcameraPart c \<Rightarrow> \<not> lc_camera_started c \<and> lc_queued c = [] \<and> lc_requests c = []
   | FakeCamera \<Rightarrow> True
   | StringCameraPart c \<Rightarrow> sc_work_stop c \<and> \<not> sc_work_thread c)"

definition encoder_idle :: "encoder_part \<Rightarrow> bool" where
  "encoder_idle p \<longleftrightarrow> (case p of
     SwEncoderPart e \<Rightarrow> enc_work_stop e \<and> \<not> enc_work_thread e \<and> enc_work_queue e = [] | NullEncoder \<Rightarrow> True)"

lemma client_stop_stopped: "tc_stopped (fst (client_Stop c))"
proof -
  have "tc_stopped (fst (client_disconnect x)) = tc_stopped x" for x
    by (simp add: client_disconnect_def client_drop_buffer_def Let_def split: option.split)
  then show ?thesis by (simp add: client_Stop_def)
qed

lemma camera_stop_idle:
  "camera_part_idle p \<Longrightarrow> camera_part_Start fault p = Inr q \<Longrightarrow> camera_part_idle (camera_part_Stop q)"
  by (cases p) (auto simp: camera_part_Start_def camera_part_Stop_def camera_part_idle_def StopCamera_def
      StartCamera_def setControls_def sc_StartCamera_def sc_StopCamera_def Let_def split: option.splits)

lemma camera_created_idle: "Camera_Create built lib t w h = Inr p \<Longrightarrow> camera_part_idle p"
  by (auto simp: Camera_Create_def camera_part_idle_def LibcameraCamera_def StringCamera_def
      split: camera_type.splits if_splits prod.splits sum.splits)

text \<open>A camera service starts unless libcamera refuses, and then throws what libcamera's camera
  throws; started, it has its thread and its client runs, and starting it again changes nothing; stopped,
  its client, its pool, its encoder, whose queue is empty, and its camera are at rest, and stopping it
  again changes nothing.\<close>

theorem camera_streamer_life:
  assumes "camera_initialize junk built lib c = Inr s0"
  shows "case camera_streamer_Start fault s0 of
      Inl e \<Rightarrow> cc_camera_type c = CameraLibcamera \<and> (\<exists>f. fault = Some f \<and> e = fault_message f)
    | Inr s \<Rightarrow> cs_is_started s \<and> asio_running (cs_asio s) = cc_asio_pool_size \<and> \<not> tc_stopped (cs_tcp s) \<and>
        camera_streamer_Start fault s = Inr s \<and>
        (let t = camera_streamer_Stop s in \<not> cs_is_started t \<and> tc_stopped (cs_tcp t) \<and> asio_running (cs_asio t) = 0 \<and>
          encoder_idle (cs_encoder t) \<and> camera_part_idle (cs_camera t) \<and> camera_streamer_Stop t = t)"
proof -
  have s0: "\<not> cs_is_started s0" "cs_asio s0 = asio_create cc_asio_pool_size"
    "Camera_Create built lib (cc_camera_type c) (fst (cc_camera_width_height c)) (snd (cc_camera_width_height c)) = Inr (cs_camera s0)"
    using assms by (auto simp: camera_initialize_def Let_def split: sum.splits)
  show ?thesis
  proof (cases "camera_part_Start fault (cs_camera s0)")
    case (Inl e)
    with s0 show ?thesis
      by (cases "cc_camera_type c") (auto simp: camera_streamer_Start_def camera_part_Start_def Camera_Create_def
          split: camera_part.splits option.splits)
  next
    case (Inr cam)
    let ?s = "s0\<lparr>cs_camera := cam, cs_encoder := encoder_Start (cs_encoder s0),
      cs_asio := asio_start (cs_asio s0), cs_tcp := client_Start (cs_tcp s0), cs_is_started := True\<rparr>"
    have s: "camera_streamer_Start fault s0 = Inr ?s" using Inr s0(1) by (simp add: camera_streamer_Start_def)
    have tcp: "\<not> tc_stopped (client_Start (cs_tcp s0))" "tc_stopped (fst (client_Stop (client_Start (cs_tcp s0))))"
      by (simp_all add: client_Start_def client_startConnection_def client_stop_stopped)
    have asio: "asio_running (asio_start (cs_asio s0)) = cc_asio_pool_size"
      "asio_running (asio_halt (asio_start (cs_asio s0))) = 0"
      by (simp_all add: s0(2) asio_start_def asio_create_def asio_halt_def asio_running_def cc_asio_pool_size_def Let_def)
    have enc: "encoder_idle (encoder_Stop (encoder_Start (cs_encoder s0)))"
      by (simp add: encoder_idle_def encoder_Stop_def encoder_Start_def StopEncoder_def StartEncoder_def split: encoder_part.splits)
    have cam: "camera_part_idle (camera_part_Stop cam)" by (rule camera_stop_idle [OF camera_created_idle [OF s0(3)] Inr])
    show ?thesis unfolding s using tcp asio enc cam
      by (simp add: camera_streamer_Stop_def camera_streamer_Start_def Let_def)
  qed
qed

theorem camera_streamer_life_witness:
  "\<exists>s0 s. camera_initialize (\<lambda>_. 0) False demo_camera_library \<lparr>cc_tcp_server_host = ''127.0.0.1'', cc_tcp_server_port = 6969,
      cc_tcp_client_use_fixed_port = True, cc_camera_type = CameraString, cc_camera_width_height = (8, 8),
      cc_encoder_type = EncoderNone, cc_encoder_buffers_downstream = 5\<rparr> = Inr s0 \<and>
    camera_streamer_Start None s0 = Inr s \<and> camera_part_idle (cs_camera (camera_streamer_Stop s))"
proof -
  let ?c = "\<lparr>cc_tcp_server_host = ''127.0.0.1'', cc_tcp_server_port = 6969,
      cc_tcp_client_use_fixed_port = True, cc_camera_type = CameraString, cc_camera_width_height = (8, 8),
      cc_encoder_type = EncoderNone, cc_encoder_buffers_downstream = 5\<rparr>"
  obtain s0 where s0: "camera_initialize (\<lambda>_. 0) False demo_camera_library ?c = Inr s0"
    by (simp add: camera_initialize_def TcpClient_def cc_connection_type_def Encoder_Create_def Camera_Create_def Let_def)
  from camera_streamer_life [OF s0, of None] show ?thesis
    using s0 by (auto simp: Let_def split: sum.splits)
qed

section \<open>The test camera\<close>

text \<open>A turn of the string camera's thread: its callback is the service's.\<close>

definition camera_turn :: "camera_streamer \<Rightarrow> camera_streamer option" where
  "camera_turn s = (case cs_camera s of
     StringCameraPart c \<Rightarrow> (case sc_turn c of
         None \<Rightarrow> None
       | Some (c1, None) \<Rightarrow> Some (s\<lparr>cs_camera := StringCameraPart c1\<rparr>)
       | Some (c1, Some b) \<Rightarrow> Some (camera_frame (sb_memory b) (s\<lparr>cs_camera := StringCameraPart c1\<rparr>)))
   | _ \<Rightarrow> Some s)"

lemma test_camera_posts:
  assumes "cs_camera s = StringCameraPart c" "cs_encoder s = NullEncoder" "sc_ok n sz k (c, out, sent)"
    and "64 \<le> sz" "k < 2 ^ 63 - 1" "\<not> sc_work_stop c" "sc_camera_buffers c \<noteq> []"
  shows "\<exists>s1 frame. camera_turn s = Some s1 \<and> cs_tcp s1 = client_Post frame (cs_tcp s) \<and>
    length frame = sz \<and> frame_number frame = Suc (length sent)"
proof -
  obtain b bs where "sc_camera_buffers c = b # bs" using assms(7) by (cases "sc_camera_buffers c") auto
  from sc_turn_ok [OF assms(3-6) this] assms(1,2) show ?thesis
    by (auto simp: camera_turn_def camera_frame_def encoder_Post_def)
qed

section \<open>Odd sizes\<close>

text \<open>The last row of the second plane of colour is read whatever the size.\<close>

lemma last_row_read:
  assumes "0 < h"
  shows "(V_plane w h - stride2 w + stride2 w * (h div 2), stride2 w) \<in> set (segments w (encoder_rows w h))"
proof -
  obtain k where k: "group_count h = Suc k" using assms by (cases "group_count h") (auto simp: group_count_def)
  let ?m = "V_plane w h - stride2 w + stride2 w * (h div 2)"
  have "h div 2 \<le> 8 * Suc k" using k by (simp add: group_count_def)
  then have "stride2 w * (h div 2) \<le> stride2 w * (8 * Suc k)" by (rule mult_le_mono2)
  moreover have "stride2 w \<le> V_plane w h"
    using stride2_le [of w] assms by (cases h) (simp_all add: V_plane_def U_plane_def)
  ultimately have "?m \<le> V_plane w h + k * (8 * stride2 w) + 7 * stride2 w" by (simp add: algebra_simps)
  then have "min (V_plane w h + k * (8 * stride2 w) + 7 * stride2 w) ?m = ?m" by (rule min_absorb2)
  then have "?m \<in> set (map (\<lambda>i. min (V_plane w h + k * (8 * stride2 w) + i * stride2 w) ?m) [0..<8])"
    by (force intro!: image_eqI [of _ _ 7])
  then have "(?m, stride2 w) \<in> set (group_segments w (encoder_group w h (k * (16 * w))
      (U_plane w h + k * (8 * stride2 w)) (V_plane w h + k * (8 * stride2 w))))"
    by (auto simp: group_segments_def encoder_group_def Let_def)
  then show ?thesis by (auto simp: set_segments encoder_rows_eq k)
qed

text \<open>libcamera is asked for an even size, but the encoder walks the configured one: with an odd width it
  reads past the end of every frame the camera delivers.\<close>

theorem odd_frames_too_short:
  assumes "odd w" "even h" "0 < h"
  shows "\<exists>(r, n) \<in> set (segments w (encoder_rows w h)).
    case_prod frame_size (viewfinder_size (w, h)) < r + n"
proof -
  obtain a where a: "w = 2 * a + 1" using assms(1) by (elim oddE)
  obtain b where b: "h = 2 * b" using assms(2) by (elim evenE)
  have "case_prod frame_size (viewfinder_size (w, h)) = 6 * (a * b)"
    by (simp add: viewfinder_size_def frame_size_def a b)
  moreover have "V_plane w h + stride2 w * (h div 2) = 6 * (a * b) + 2 * b"
    by (simp add: V_plane_def U_plane_def stride2_def a b algebra_simps)
  moreover have "stride2 w \<le> V_plane w h"
    using stride2_le [of w] assms(3) by (cases h) (simp_all add: V_plane_def U_plane_def)
  ultimately have "case_prod frame_size (viewfinder_size (w, h)) <
      V_plane w h - stride2 w + stride2 w * (h div 2) + stride2 w" using assms(3) b by simp
  then show ?thesis by (intro bexI [OF _ last_row_read [OF assms(3)]]) simp
qed

theorem odd_frames_too_short_witness:
  "\<not> (\<forall>(r, n) \<in> set (segments 5 (encoder_rows 5 4)). r + n \<le> 24)"
proof -
  obtain x where "x \<in> set (segments 5 (encoder_rows 5 4))" "case_prod frame_size (viewfinder_size (5, 4)) < fst x + snd x"
    using odd_frames_too_short [of 5 4] by (auto simp: split_beta)
  then show ?thesis by (force simp: viewfinder_size_def frame_size_def)
qed

end
