(* ===== verification/Websocket_Life.thy ===== *)
theory Websocket_Life
  imports Websocket_Client
begin

text \<open>
  What holds of the websocket client in every reachable state: one live chain of operations, messages
  sent in order and none lost, no message stuck in the queue, no front of an empty queue.
\<close>

section \<open>The invariant\<close>

fun is_chain :: "ulong \<Rightarrow> wc_op \<Rightarrow> bool" where
  "is_chain n (OpConnect k) = (k = n)"
| "is_chain n (OpHandshake k) = (k = n)"
| "is_chain n (OpRead k) = (k = n)"
| "is_chain n (OpClose k) = (k = n)"
| "is_chain n _ = False"

fun op_session :: "wc_op \<Rightarrow> ulong option" where
  "op_session (OpConnect k) = Some k"
| "op_session (OpHandshake k) = Some k"
| "op_session (OpRead k) = Some k"
| "op_session (OpWrite k m b) = Some k"
| "op_session (OpClose k) = Some k"
| "op_session (OpPosted m) = None"

fun open_write :: "ulong \<Rightarrow> wc_op \<Rightarrow> bool" where
  "open_write n (OpWrite k m b) = (b \<and> k = n)"
| "open_write n _ = False"

text \<open>Over the parts of the state: stopped, session, stream, queue, pending operations, newest writer,
  posted and sent messages.\<close>

definition wsc_ok ::
    "bool \<Rightarrow> ulong \<Rightarrow> bool \<Rightarrow> string list \<Rightarrow> wc_op multiset \<Rightarrow> ulong \<Rightarrow> string list \<Rightarrow> string list \<Rightarrow> bool" where
  "wsc_ok st n ws q P nw po se \<longleftrightarrow>
     (\<forall>op \<in># P. \<forall>k. op_session op = Some k \<longrightarrow> (if st then k < n else k \<le> n)) \<and>
     size (filter_mset (is_chain n) P) = (if st then 0 else 1) \<and>
     (\<not> st \<longrightarrow> ws) \<and>
     nw \<le> n \<and>
     (\<forall>k m. OpWrite k m True \<in># P \<longrightarrow> k \<le> nw) \<and>
     (\<forall>m. OpWrite nw m True \<in># P \<longrightarrow> q \<noteq> [] \<and> hd q = m) \<and>
     size (filter_mset (open_write nw) P) \<le> 1 \<and>
     (\<forall>m. OpWrite n m True \<in># P \<longrightarrow> OpRead n \<in># P) \<and>
     (\<not> st \<and> OpRead n \<in># P \<and> q \<noteq> [] \<longrightarrow> (\<exists>m b. OpWrite n m b \<in># P)) \<and>
     po = se @ q"

definition wsc_inv :: "wsc \<Rightarrow> bool" where
  "wsc_inv s \<longleftrightarrow> wsc_ok (wc_is_stopped (client s)) (wc_session (client s)) (wc_ws (client s))
     (wc_send_queue (client s)) (pend s) (newest s) (posted s) (sent s)"

lemma chain_session: "is_chain n op \<Longrightarrow> op_session op = Some n"
  by (cases op) auto

lemma open_write_iff: "open_write n op \<longleftrightarrow> (\<exists>m. op = OpWrite n m True)"
  by (cases op) auto

lemma no_filter: "filter_mset P M = {#} \<longleftrightarrow> (\<forall>x \<in># M. \<not> P x)"
  by (induction M) auto

lemma one_filter:
  "size (filter_mset P (add_mset x M)) = 1 \<Longrightarrow> P x \<Longrightarrow> (\<forall>y \<in># M. \<not> P y)"
  by (simp add: no_filter)

lemma filter_drop_le:
  assumes "size (filter_mset P (add_mset x M)) \<le> 1"
  shows "size (filter_mset P M) \<le> 1"
proof -
  have "filter_mset P M \<subseteq># filter_mset P (add_mset x M)" by (rule multiset_filter_mono) simp
  then show ?thesis using assms size_mset_mono le_trans by blast
qed

lemma wsc_okD:
  assumes "wsc_ok st n ws q P nw po se"
  shows "op \<in># P \<Longrightarrow> op_session op = Some k \<Longrightarrow> k \<le> n"
    "st \<Longrightarrow> op \<in># P \<Longrightarrow> op_session op = Some k \<Longrightarrow> k < n"
    "size (filter_mset (is_chain n) P) = (if st then 0 else 1)" "\<not> st \<Longrightarrow> ws" "nw \<le> n"
    "OpWrite k m True \<in># P \<Longrightarrow> k \<le> nw"
    "OpWrite nw m True \<in># P \<Longrightarrow> q \<noteq> [] \<and> hd q = m"
    "size (filter_mset (open_write nw) P) \<le> 1"
    "OpWrite n m True \<in># P \<Longrightarrow> OpRead n \<in># P"
    "\<not> st \<Longrightarrow> OpRead n \<in># P \<Longrightarrow> q \<noteq> [] \<Longrightarrow> \<exists>m b. OpWrite n m b \<in># P"
    "po = se @ q"
  using assms unfolding wsc_ok_def by (auto split: if_splits intro: less_imp_le)

lemma wsc_okI:
  assumes "\<And>op k. op \<in># P \<Longrightarrow> op_session op = Some k \<Longrightarrow> if st then k < n else k \<le> n"
    "size (filter_mset (is_chain n) P) = (if st then 0 else 1)" "\<not> st \<Longrightarrow> ws" "nw \<le> n"
    "\<And>k m. OpWrite k m True \<in># P \<Longrightarrow> k \<le> nw"
    "\<And>m. OpWrite nw m True \<in># P \<Longrightarrow> q \<noteq> [] \<and> hd q = m"
    "size (filter_mset (open_write nw) P) \<le> 1"
    "\<And>m. OpWrite n m True \<in># P \<Longrightarrow> OpRead n \<in># P"
    "\<not> st \<Longrightarrow> OpRead n \<in># P \<Longrightarrow> q \<noteq> [] \<Longrightarrow> \<exists>m b. OpWrite n m b \<in># P"
    "po = se @ q"
  shows "wsc_ok st n ws q P nw po se"
  using assms unfolding wsc_ok_def by (intro conjI) blast+

lemma next_session: "n \<le> n + 1 \<Longrightarrow> n < (n + 1 :: ulong)"
  by (metis add_cancel_right_right order_le_imp_less_or_eq zero_neq_one)

section \<open>Each kind of step keeps it\<close>

lemma ok_ignore:
  assumes "wsc_ok st n ws q (add_mset op P) nw po se" "\<not> is_chain n op"
    "st \<or> (\<forall>m b. op \<noteq> OpWrite n m b)"
  shows "wsc_ok st n ws q P nw po se"
  using assms filter_drop_le [of "open_write nw" op P]
  unfolding wsc_ok_def by (intro conjI) (auto split: if_splits)

lemma ok_chain:
  assumes "wsc_ok False n ws q (add_mset op P) nw po se" "is_chain n op" "op \<noteq> OpRead n"
    "is_chain n op'" "op' \<noteq> OpRead n"
  shows "wsc_ok False n True q (add_mset op' P) nw po se"
proof -
  from assms(2,4) have ses: "op_session op' = Some n" "\<not> open_write nw op'" "\<And>m b. op' \<noteq> OpWrite n m b"
      "\<And>k m. op' \<noteq> OpWrite k m True" "\<And>k m. op \<noteq> OpWrite k m True"
    using chain_session by (cases op; cases op'; auto)+
  from assms(1,2) have "\<forall>y \<in># P. \<not> is_chain n y" unfolding wsc_ok_def by (auto dest: one_filter)
  moreover from this have "OpRead n \<notin># P" by force
  moreover from assms(1) this assms(3) have "OpWrite n m True \<notin># P" for m
    by (auto simp: wsc_ok_def)
  moreover have "size (filter_mset (open_write nw) P) \<le> 1"
    using assms(1) filter_drop_le [of "open_write nw" op P] by (simp add: wsc_ok_def)
  ultimately show ?thesis using assms ses unfolding wsc_ok_def by (intro conjI) (auto simp: no_filter)
qed

lemma ok_leave:
  assumes "wsc_ok False n ws q (add_mset op P) nw po se" "n \<le> n + 1"
    "is_chain (n + 1) op'" "op' \<noteq> OpRead (n + 1)"
  shows "wsc_ok False (n + 1) True q (add_mset op' P) nw po se"
proof -
  note lt = next_session [OF assms(2)]
  note d = wsc_okD [OF assms(1)]
  have le: "k < n + 1" if "y \<in># P" "op_session y = Some k" for y k
    using d(1) [of y k] that lt by simp
  have none: "\<not> is_chain (n + 1) y" if "y \<in># P" for y
    using le [OF that] chain_session [of "n + 1" y] by auto
  have new: "OpWrite (n + 1) m b \<notin># P" "OpRead (n + 1) \<notin># P" for m b
    using le [of "OpWrite (n + 1) m b" "n + 1"] le [of "OpRead (n + 1)" "n + 1"] by auto
  have op': "op_session op' = Some (n + 1)" "\<not> open_write nw op'" "op' \<noteq> OpWrite k m b" for k m b
    using assms(3) chain_session by (cases op'; auto)+
  show ?thesis
  proof (rule wsc_okI, goal_cases)
    case (1 x k)
    then show ?case using op' le [of x k] by auto
  next
    case 2
    have "filter_mset (is_chain (n + 1)) P = {#}" using none by (simp add: no_filter)
    then show ?case using assms(3) by simp
  next
    case 4
    then show ?case using d(5) lt by simp
  next
    case (5 k m)
    then show ?case using op'(3) d(6) [of k m] by auto
  next
    case (6 m)
    then show ?case using op'(3) d(7) [of m] by auto
  next
    case 7
    then show ?case using op'(2) filter_drop_le [OF d(8)] by simp
  next
    case (8 m)
    then show ?case using op'(3) new by auto
  next
    case 9
    then show ?case using assms(4) new by auto
  next
    case 10
    then show ?case by (rule d(11))
  qed simp
qed

lemma ok_handshake:
  assumes "wsc_ok False n ws q (add_mset (OpHandshake n) P) nw po se"
  shows "q = [] \<Longrightarrow> wsc_ok False n ws q (add_mset (OpRead n) P) nw po se"
    "q \<noteq> [] \<Longrightarrow> wsc_ok False n ws q (add_mset (OpWrite n (hd q) True) (add_mset (OpRead n) P)) n po se"
proof -
  note d = wsc_okD [OF assms]
  from d(3) have chain: "filter_mset (is_chain n) P = {#}" by simp
  then have "OpRead n \<notin># P" by (force simp: no_filter)
  with d(9) have none: "OpWrite n m True \<notin># P" for m by auto
  then have "\<forall>y \<in># P. \<not> open_write n y" by (auto simp: open_write_iff)
  then have ow: "filter_mset (open_write n) P = {#}" by (simp add: no_filter)
  have le: "k \<le> n" if "OpWrite k m True \<in># P" for k m
    using d(1) [of "OpWrite k m True" k] that by simp
  have ses: "k \<le> n" if "y \<in># P" "op_session y = Some k" for y k using d(1) [of y k] that by simp
  show "wsc_ok False n ws q (add_mset (OpRead n) P) nw po se" if "q = []"
    by (rule wsc_okI) (use that d(5-8,11) ses chain in \<open>auto simp: d(4)\<close>)
  show "wsc_ok False n ws q (add_mset (OpWrite n (hd q) True) (add_mset (OpRead n) P)) n po se"
    if "q \<noteq> []"
    by (rule wsc_okI) (use that d(11) ses chain ow none le in \<open>auto simp: d(4)\<close>)
qed

lemma ok_written:
  assumes "wsc_ok False n ws (m # rest) (add_mset (OpWrite nw m True) P) nw po se"
  shows "nw \<noteq> n \<or> rest = [] \<Longrightarrow> wsc_ok False n ws rest P nw po (se @ [m])"
    "nw = n \<Longrightarrow> rest \<noteq> [] \<Longrightarrow>
     wsc_ok False n ws rest (add_mset (OpWrite n (hd rest) True) P) n po (se @ [m])"
proof -
  note d = wsc_okD [OF assms]
  from d(8) have ow: "filter_mset (open_write nw) P = {#}" by simp
  then have no: "OpWrite nw m' True \<notin># P" for m' by (force simp: no_filter)
  have ses: "k \<le> n" if "y \<in># P" "op_session y = Some k" for y k using d(1) [of y k] that by simp
  have chain: "size (filter_mset (is_chain n) P) = 1" using d(3) by simp
  have rd: "OpRead n \<in># P" if "OpWrite n m' True \<in># P" for m' using d(9) that by auto
  have wr: "\<exists>m b. OpWrite n m b \<in># P" if "OpRead n \<in># P" "nw \<noteq> n" using d(10) that by auto
  have le: "k \<le> nw" if "OpWrite k m' True \<in># P" for k m' using d(6) that by auto
  show "wsc_ok False n ws rest P nw po (se @ [m])" if "nw \<noteq> n \<or> rest = []"
    by (rule wsc_okI) (use that d(4,5,11) ses chain filter_drop_le [OF d(8)] no rd wr le in auto)
  show "wsc_ok False n ws rest (add_mset (OpWrite n (hd rest) True) P) n po (se @ [m])"
    if "nw = n" "rest \<noteq> []"
    by (rule wsc_okI) (use that d(4,5,9,11) ses chain ow no rd le in auto)
qed

lemma ok_enqueue:
  assumes "wsc_ok st n ws q (add_mset (OpPosted m) P) nw po se"
  shows "st \<or> q \<noteq> [] \<Longrightarrow> wsc_ok st n ws (q @ [m]) P nw (po @ [m]) se"
    "\<not> st \<Longrightarrow> q = [] \<Longrightarrow> wsc_ok st n ws [m] (add_mset (OpWrite n m (OpRead n \<in># P)) P)
       (if OpRead n \<in># P then n else nw) (po @ [m]) se"
proof -
  note d = wsc_okD [OF assms]
  have ses: "if st then k < n else k \<le> n" if "y \<in># P" "op_session y = Some k" for y k
    using d(1,2) [of y k] that by simp
  have chain: "size (filter_mset (is_chain n) P) = (if st then 0 else 1)" using d(3) by simp
  have le: "k \<le> nw" if "OpWrite k m' True \<in># P" for k m' using d(6) that by auto
  have front: "q \<noteq> [] \<and> hd q = m'" if "OpWrite nw m' True \<in># P" for m' using d(7) that by auto
  have rd: "OpRead n \<in># P" if "OpWrite n m' True \<in># P" for m' using d(9) that by auto
  have wr: "\<exists>m b. OpWrite n m b \<in># P" if "OpRead n \<in># P" "q \<noteq> []" "\<not> st" using d(10) that by auto
  have one: "size (filter_mset (open_write nw) P) \<le> 1" using d(8) by simp
  show "wsc_ok st n ws (q @ [m]) P nw (po @ [m]) se" if "st \<or> q \<noteq> []"
    by (rule wsc_okI) (use that d(4,5,11) ses chain one rd wr le in \<open>auto dest: front\<close>)
  assume a: "\<not> st" "q = []"
  have none: "OpWrite nw m' True \<notin># P" for m' using front a by auto
  have nown: "OpWrite n m' True \<notin># P" for m'
    using none le [of n m'] d(5) by (metis order_antisym)
  then have "filter_mset (open_write n) P = {#}" by (auto simp: no_filter open_write_iff)
  moreover have len: "k \<le> n" if "OpWrite k m' True \<in># P" for k m' using ses [OF that] a by simp
  ultimately show "wsc_ok st n ws [m] (add_mset (OpWrite n m (OpRead n \<in># P)) P)
       (if OpRead n \<in># P then n else nw) (po @ [m]) se"
    by (intro wsc_okI) (use a d(4,5,11) ses chain one none nown le in \<open>auto split: if_splits\<close>)
qed

lemma ok_start:
  assumes "wsc_ok True n ws q P nw po se"
  shows "wsc_ok False n True q (add_mset (OpConnect n) P) nw po se"
proof -
  from assms have lt: "\<forall>y \<in># P. \<forall>k. op_session y = Some k \<longrightarrow> k < n" by (auto simp: wsc_ok_def)
  then have "OpRead n \<notin># P" by fastforce
  moreover have "\<forall>y \<in># P. \<forall>k. op_session y = Some k \<longrightarrow> k \<le> n" using lt by (meson less_imp_le)
  ultimately show ?thesis using assms by (auto simp: wsc_ok_def)
qed

lemma ok_stop:
  assumes "wsc_ok False n ws q P nw po se" "n \<le> n + 1"
  shows "wsc_ok True (n + 1) ws' q P nw po se"
proof -
  note lt = next_session [OF assms(2)]
  from assms(1) have "\<forall>y \<in># P. \<forall>k. op_session y = Some k \<longrightarrow> k \<le> n" by (auto simp: wsc_ok_def)
  with lt have lt': "\<forall>y \<in># P. \<forall>k. op_session y = Some k \<longrightarrow> k < n + 1" by (meson le_less_trans)
  then have "\<forall>y \<in># P. \<not> is_chain (n + 1) y" "\<forall>m b. OpWrite (n + 1) m b \<notin># P"
    using chain_session by fastforce+
  moreover have "nw \<le> n + 1" using assms(1) lt by (auto simp: wsc_ok_def)
  ultimately show ?thesis using assms(1) lt' by (auto simp: wsc_ok_def no_filter)
qed

lemma ok_posted: "wsc_ok st n ws q P nw po se \<Longrightarrow> wsc_ok st n ws q (add_mset (OpPosted m) P) nw po se"
  by (auto simp: wsc_ok_def)

section \<open>Each handler is one of these steps\<close>

lemma inv_advance:
  "wsc_inv (advance (c, cs) s) \<longleftrightarrow>
     wsc_ok (wc_is_stopped c) (wc_session c) (wc_ws c) (wc_send_queue c)
       (pend s + mset (concat (map (op_of (opened_after s c cs)) cs)))
       (if opened_after s c cs \<and> writes_open cs then wc_session c else newest s) (posted s) (sent s)"
  by (simp add: wsc_inv_def advance_def)

lemma writes_open_simps [simp]:
  "writes_open (cs @ cs') \<longleftrightarrow> writes_open cs \<or> writes_open cs'"
  by (induction cs rule: writes_open.induct) auto

lemma log_done_simps [simp]:
  "client (log_done op r s) = client s" "newest (log_done op r s) = newest s"
  "pend (log_done op r s) = pend s - {#op#}"
  by (simp_all add: log_done_def)

lemma log_done_other:
  "(\<And>m. op \<noteq> OpPosted m) \<Longrightarrow> (\<And>n m b. op = OpWrite n m b \<Longrightarrow> r = Failed \<or> wc_is_stopped (client s)) \<Longrightarrow>
   posted (log_done op r s) = posted s \<and> sent (log_done op r s) = sent s"
  by (cases op) (auto simp: log_done_def)

lemma inv_op:
  assumes "wsc_inv s" "op \<in># pend s"
  shows "wsc_ok (wc_is_stopped (client s)) (wc_session (client s)) (wc_ws (client s))
     (wc_send_queue (client s)) (add_mset op (pend s - {#op#})) (newest s) (posted s) (sent s)"
  using assms by (simp add: wsc_inv_def)

text \<open>Connecting again in the current session, or in the next one.\<close>

lemma startConnection_cases:
  assumes "HandlerThrew \<notin> set (snd (wc_startConnection bind_ok n initial c))" "\<not> wc_stale n c"
  obtains cs where "wc_startConnection bind_ok n initial c = (c\<lparr>wc_ws := True\<rparr>, cs)"
    "\<forall>b. concat (map (op_of b) cs) = [OpConnect n]" "\<not> writes_open cs"
  using assms by (auto simp: wc_startConnection_def Let_def split: if_splits)

lemma disconnect_cases:
  assumes "HandlerThrew \<notin> set (snd (wc_disconnect is_open bind_ok n c))" "\<not> wc_stale n c"
  obtains c' cs op where "wc_disconnect is_open bind_ok n c = (c', cs)"
    "wc_is_stopped c' = False" "wc_session c' = n + 1" "wc_send_queue c' = wc_send_queue c"
    "wc_ws c' = True" "\<forall>b. concat (map (op_of b) cs) = [op]"
    "is_chain (n + 1) op" "op \<noteq> OpRead (n + 1)" "\<not> writes_open cs"
  using assms
  by (auto simp: wc_disconnect_def wc_startConnection_def wc_stale_def Let_def split: if_splits)

definition same_client :: "websocket_client \<Rightarrow> websocket_client \<Rightarrow> bool" where
  "same_client c c' \<longleftrightarrow> wc_is_stopped c' = wc_is_stopped c \<and> wc_session c' = wc_session c \<and>
     wc_ws c' = wc_ws c \<and> wc_send_queue c' = wc_send_queue c"

lemma same_client_refl [simp]: "same_client c c"
  by (simp add: same_client_def)

lemma inv_disconnect:
  assumes "wsc_inv s" "op \<in># pend s" "same_client (client s) c" "\<not> wc_stale n c"
    "posted (log_done op r s) = posted s \<and> sent (log_done op r s) = sent s"
    "runs_on (wc_disconnect is_open bind_ok n c) s"
  shows "wsc_inv (advance (wc_disconnect is_open bind_ok n c) (log_done op r s))"
proof -
  have "HandlerThrew \<notin> set (snd (wc_disconnect is_open bind_ok n c))"
    using assms(6) by (simp add: runs_on_def)
  then obtain c' cs op' where d: "wc_disconnect is_open bind_ok n c = (c', cs)"
    "wc_is_stopped c' = False" "wc_session c' = n + 1" "wc_send_queue c' = wc_send_queue c"
    "wc_ws c' = True" "\<forall>b. concat (map (op_of b) cs) = [op']"
    "is_chain (n + 1) op'" "op' \<noteq> OpRead (n + 1)" "\<not> writes_open cs"
    by (rule disconnect_cases) (use assms(4) in auto)
  have n: "wc_is_stopped (client s) = False" "wc_session (client s) = n"
    using assms(3,4) by (auto simp: same_client_def wc_stale_def)
  have "n \<le> n + 1" using assms(6) d n by (simp add: runs_on_def)
  from ok_leave [OF inv_op [OF assms(1,2), unfolded n] this d(7,8)] assms(3,5) d n
  show ?thesis by (simp add: inv_advance same_client_def)
qed

lemma inv_reconnect:
  assumes "wsc_inv s" "op \<in># pend s" "\<not> wc_stale n (client s)" "is_chain n op" "op \<noteq> OpRead n"
    "runs_on (wc_startConnection bind_ok n False (client s)) s"
  shows "wsc_inv (advance (wc_startConnection bind_ok n False (client s)) (log_done op r s))"
proof -
  have "HandlerThrew \<notin> set (snd (wc_startConnection bind_ok n False (client s)))"
    using assms(6) by (simp add: runs_on_def)
  then obtain cs where d: "wc_startConnection bind_ok n False (client s) = ((client s)\<lparr>wc_ws := True\<rparr>, cs)"
    "\<forall>b. concat (map (op_of b) cs) = [OpConnect n]" "\<not> writes_open cs"
    by (rule startConnection_cases) (use assms(3) in auto)
  have n: "wc_is_stopped (client s) = False" "wc_session (client s) = n"
    using assms(3) by (auto simp: wc_stale_def)
  have "posted (log_done op r s) = posted s \<and> sent (log_done op r s) = sent s"
    using assms(4) by (intro log_done_other) auto
  with ok_chain [OF inv_op [OF assms(1,2), unfolded n] assms(4,5), of "OpConnect n"] d n
  show ?thesis by (simp add: inv_advance)
qed

text \<open>A handler that returns at its guard.\<close>

lemma inv_idle:
  assumes "wsc_inv s" "op \<in># pend s" "same_client (client s) c"
    "\<not> is_chain (wc_session c) op"
    "wc_is_stopped c \<or> (\<forall>m b. op \<noteq> OpWrite (wc_session c) m b)"
    "posted (log_done op r s) = posted s \<and> sent (log_done op r s) = sent s"
  shows "wsc_inv (advance (c, []) (log_done op r s))"
  using ok_ignore [OF inv_op [OF assms(1,2)]] assms(3-6)
  by (simp add: inv_advance same_client_def)

text \<open>A chain operation of the current session goes on to another one.\<close>

lemma inv_next:
  assumes "wsc_inv s" "op \<in># pend s" "\<not> wc_stale n (client s)" "is_chain n op" "op \<noteq> OpRead n"
    "\<forall>b. concat (map (op_of b) cs) = [op']" "\<not> writes_open cs" "is_chain n op'" "op' \<noteq> OpRead n"
  shows "wsc_inv (advance (client s, cs) (log_done op r s))"
proof -
  have n: "wc_is_stopped (client s) = False" "wc_session (client s) = n"
    using assms(3) by (auto simp: wc_stale_def)
  have "posted (log_done op r s) = posted s \<and> sent (log_done op r s) = sent s"
    using assms(4) by (intro log_done_other) auto
  moreover have "wc_ws (client s)" using inv_op [OF assms(1,2)] n by (simp add: wsc_ok_def)
  ultimately show ?thesis
    using ok_chain [OF inv_op [OF assms(1,2), unfolded n] assms(4,5,8,9)] assms(6,7) n
    by (simp add: inv_advance)
qed

lemma log_done_chain: "is_chain n op \<Longrightarrow> posted (log_done op r s) = posted s \<and> sent (log_done op r s) = sent s"
  by (intro log_done_other) auto

lemma stale_chain:
  "is_chain n op \<Longrightarrow> wc_stale n c \<Longrightarrow> wc_is_stopped c \<or> \<not> is_chain (wc_session c) op"
  by (cases op) (auto simp: wc_stale_def)

lemma stopped_no_chain:
  assumes "wsc_inv s" "op \<in># pend s" "wc_is_stopped (client s)"
  shows "\<not> is_chain (wc_session (client s)) op"
proof -
  have "size (filter_mset (is_chain (wc_session (client s))) (pend s)) = 0"
    using assms(1,3) by (simp add: wsc_inv_def wsc_ok_def)
  then show ?thesis using assms(2) by simp
qed

lemma inv_stale:
  assumes "wsc_inv s" "op \<in># pend s" "is_chain n op" "wc_stale n (client s)" "same_client (client s) c"
  shows "wsc_inv (advance (c, []) (log_done op r s))"
proof (rule inv_idle [OF assms(1,2,5)])
  have ses: "wc_session c = wc_session (client s)" using assms(5) by (simp add: same_client_def)
  show "\<not> is_chain (wc_session c) op"
    using stale_chain [OF assms(3,4)] stopped_no_chain [OF assms(1,2)] ses by auto
  show "wc_is_stopped c \<or> (\<forall>m b. op \<noteq> OpWrite (wc_session c) m b)" using assms(3) by auto
qed (rule log_done_chain [OF assms(3)])

lemma inv_OpConnect:
  assumes "wsc_inv s" "OpConnect n \<in># pend s" "runs_on (wc_onConnection bind_ok n ec (client s)) s"
  shows "wsc_inv (advance (wc_onConnection bind_ok n ec (client s)) (log_done (OpConnect n) r s))"
proof (cases "wc_stale n (client s)")
  case True
  then show ?thesis using inv_stale [OF assms(1,2), of n] by (simp add: wc_onConnection_def)
next
  case False
  then show ?thesis using assms inv_reconnect [OF assms(1,2) False]
    by (cases ec) (auto simp: wc_onConnection_def intro: inv_next)
qed

lemma inv_OpClose:
  assumes "wsc_inv s" "OpClose n \<in># pend s" "runs_on (wc_onDisconnect bind_ok n (client s)) s"
  shows "wsc_inv (advance (wc_onDisconnect bind_ok n (client s)) (log_done (OpClose n) r s))"
proof (cases "wc_stale n (client s)")
  case True
  then have "wc_onDisconnect bind_ok n (client s) = (client s, [])"
    by (auto simp: wc_onDisconnect_def wc_stale_def)
  with True show ?thesis using inv_stale [OF assms(1,2), of n] by simp
next
  case False
  then have "wc_onDisconnect bind_ok n (client s) = wc_startConnection bind_ok n False (client s)"
    by (auto simp: wc_onDisconnect_def wc_stale_def)
  then show ?thesis using assms inv_reconnect [OF assms(1,2) False] by simp
qed

lemma inv_OpHandshake:
  assumes "wsc_inv s" "OpHandshake n \<in># pend s"
    "runs_on (wc_onHandshake is_open bind_ok n ec (client s)) s"
  shows "wsc_inv (advance (wc_onHandshake is_open bind_ok n ec (client s)) (log_done (OpHandshake n) r s))"
proof (cases "wc_stale n (client s)")
  case True
  then show ?thesis using inv_stale [OF assms(1,2), of n] by (simp add: wc_onHandshake_def)
next
  case False
  have log: "posted (log_done (OpHandshake n) r s) = posted s \<and> sent (log_done (OpHandshake n) r s) = sent s"
    by (rule log_done_chain [of n]) simp
  show ?thesis
  proof (cases ec)
    case True
    then show ?thesis using False assms(3) inv_disconnect [OF assms(1,2) same_client_refl False log]
      by (simp add: wc_onHandshake_def)
  next
    case ok: False
    have n: "wc_is_stopped (client s) = False" "wc_session (client s) = n"
      using False by (auto simp: wc_stale_def)
    moreover have "wc_ws (client s)" using inv_op [OF assms(1,2)] n by (simp add: wsc_ok_def)
    ultimately show ?thesis using ok False log ok_handshake [OF inv_op [OF assms(1,2), unfolded n]]
      by (cases "wc_send_queue (client s) = []")
         (simp_all add: wc_onHandshake_def wc_read_def wc_doWrite_def inv_advance opened_after_def
           add_mset_commute)
  qed
qed

lemma inv_same:
  assumes "wsc_inv s" "OpRead n \<in># pend s" "same_client (client s) c" "\<not> wc_stale n (client s)"
  shows "wsc_inv (advance (c, [AsyncRead n]) (log_done (OpRead n) r s))"
  using inv_op [OF assms(1,2)] log_done_chain [of n "OpRead n" r s] assms(3,4)
  by (simp add: inv_advance same_client_def wc_stale_def)

lemma inv_OpRead:
  assumes "wsc_inv s" "OpRead n \<in># pend s"
    "runs_on (wc_onRead parse post is_open bind_ok n ec bytes (client s)) s"
  shows "wsc_inv (advance (wc_onRead parse post is_open bind_ok n ec bytes (client s))
    (log_done (OpRead n) r s))"
proof -
  define c0 where "c0 = (client s)\<lparr>wc_read_buffer := wc_read_buffer (client s) @ bytes\<rparr>"
  have same: "same_client (client s) c0" "same_client (client s) (c0\<lparr>wc_read_buffer := b\<rparr>)" for b
    by (simp_all add: c0_def same_client_def)
  have stale: "wc_stale n c0 = wc_stale n (client s)" "wc_stale n (c0\<lparr>wc_read_buffer := b\<rparr>) = wc_stale n (client s)" for b
    by (simp_all add: c0_def wc_stale_def)
  have log: "posted (log_done (OpRead n) r s) = posted s \<and> sent (log_done (OpRead n) r s) = sent s"
    by (rule log_done_chain [of n]) simp
  note unfold = wc_onRead_def c0_def [symmetric] Let_def
  show ?thesis
  proof (cases "wc_stale n (client s)")
    case True
    then show ?thesis using inv_stale [OF assms(1,2), of n] same stale by (simp add: unfold)
  next
    case False
    note leave = inv_disconnect [OF assms(1,2) same(1) False [folded stale(1)] log]
    note stay = inv_same [OF assms(1,2) _ False]
    show ?thesis using assms(3) False leave stay same stale
      by (auto simp: unfold wc_read_def runs_on_def split: option.splits if_splits)
  qed
qed

lemma front_is_written:
  assumes "wsc_inv s" "OpWrite n m opened \<in># pend s" "may_complete (OpWrite n m opened) (Completed b) s"
  shows "opened" "n = newest s" "\<exists>rest. wc_send_queue (client s) = m # rest"
proof -
  show o: "opened" "n = newest s" using assms(3) by auto
  then have "OpWrite (newest s) m True \<in># pend s" using assms(2) by simp
  with assms(1) have "wc_send_queue (client s) \<noteq> [] \<and> hd (wc_send_queue (client s)) = m"
    unfolding wsc_inv_def by (rule wsc_okD(7))
  then show "\<exists>rest. wc_send_queue (client s) = m # rest" by (cases "wc_send_queue (client s)") auto
qed

lemma inv_OpWrite:
  assumes "wsc_inv s" "OpWrite n m opened \<in># pend s" "may_complete (OpWrite n m opened) r s"
    "wc_onWrite is_open bind_ok n (r = Failed) (length m) (client s) = Some res" "runs_on res s"
  shows "wsc_inv (advance res (log_done (OpWrite n m opened) r s))"
proof -
  let ?op = "OpWrite n m opened"
  have quiet: "posted (log_done ?op r s) = posted s \<and> sent (log_done ?op r s) = sent s"
    if "wc_is_stopped (client s) \<or> r = Failed" using that by (intro log_done_other) auto
  consider (stopped) "wc_is_stopped (client s)" | (failed) "\<not> wc_is_stopped (client s)" "r = Failed"
    | (ok) b where "\<not> wc_is_stopped (client s)" "r = Completed b" by (cases r) auto
  then show ?thesis
  proof cases
    case stopped
    then show ?thesis using assms(4) quiet inv_idle [OF assms(1,2) same_client_refl]
      by (auto simp: wc_onWrite_def)
  next
    case failed
    then show ?thesis
    proof (cases "n = wc_session (client s)")
      case True
      then have "\<not> wc_stale n (client s)" using failed by (simp add: wc_stale_def)
      from inv_disconnect [OF assms(1,2) same_client_refl this quiet] failed True assms(4,5)
      show ?thesis by (auto simp: wc_onWrite_def Let_def)
    next
      case False
      then show ?thesis using failed assms(4) quiet inv_idle [OF assms(1,2) same_client_refl]
        by (auto simp: wc_onWrite_def Let_def)
    qed
  next
    case ok
    from assms(3) ok(2) have mc: "may_complete ?op (Completed b) s" by simp
    obtain rest where w: "opened" "n = newest s" "wc_send_queue (client s) = m # rest"
      using front_is_written [OF assms(1,2) mc] by blast
    have log: "posted (log_done ?op r s) = posted s" "sent (log_done ?op r s) = sent s @ [m]"
      using ok by (simp_all add: log_done_def)
    have inv: "wsc_ok False (wc_session (client s)) (wc_ws (client s)) (m # rest)
        (add_mset (OpWrite (newest s) m True) (pend s - {#OpWrite (newest s) m True#}))
        (newest s) (posted s) (sent s)"
      using inv_op [OF assms(1,2)] ok w by simp
    have rd: "n = wc_session (client s) \<Longrightarrow> OpRead n \<in># pend s - {#OpWrite (newest s) m True#}"
      using wsc_okD(9) [OF inv, of m] w by auto
    show ?thesis
    proof (cases "n = wc_session (client s) \<and> rest \<noteq> []")
      case True
      have "wc_ws (client s)" using wsc_okD(4) [OF inv] by simp
      with True ok_written(2) [OF inv] ok w rd log assms(4)
      show ?thesis by (auto simp: wc_onWrite_def wc_doWrite_def wc_stale_def Let_def inv_advance
            opened_after_def)
    next
      case False
      then have "newest s \<noteq> wc_session (client s) \<or> rest = []" using w by auto
      from ok_written(1) [OF inv this] False ok w log assms(4)
      show ?thesis by (auto simp: wc_onWrite_def Let_def inv_advance)
    qed
  qed
qed

lemma inv_OpPosted:
  assumes "wsc_inv s" "OpPosted m \<in># pend s"
  shows "wsc_inv (advance (wc_write m (client s)) (log_done (OpPosted m) r s))"
proof -
  let ?c = "client s"
  note inv = inv_op [OF assms]
  have log: "posted (log_done (OpPosted m) r s) = posted s @ [m]" "sent (log_done (OpPosted m) r s) = sent s"
    by (simp_all add: log_done_def)
  have len: "length (wc_send_queue ?c @ [m]) = 1 \<longleftrightarrow> wc_send_queue ?c = []" by simp
  show ?thesis
  proof (cases "wc_is_stopped ?c \<or> wc_send_queue ?c \<noteq> []")
    case True
    then have "wc_write m ?c = (?c\<lparr>wc_send_queue := wc_send_queue ?c @ [m]\<rparr>, [])"
      by (auto simp: wc_write_def Let_def wc_doWrite_def wc_stale_def)
    with ok_enqueue(1) [OF inv True] log show ?thesis by (simp add: inv_advance)
  next
    case False
    have "wc_ws ?c" using wsc_okD(4) [OF inv] False by simp
    then have "wc_write m ?c = (?c\<lparr>wc_send_queue := [m]\<rparr>, [AsyncWrite (wc_session ?c) m])"
      using False by (simp add: wc_write_def Let_def wc_doWrite_def wc_stale_def)
    with ok_enqueue(2) [OF inv] False log show ?thesis
      by (cases "OpRead (wc_session ?c) \<in># pend s - {#OpPosted m#}")
         (simp_all add: inv_advance opened_after_def)
  qed
qed

lemma inv_complete:
  assumes "wsc_inv s" "op \<in># pend s" "may_complete op r s"
    "wc_complete parse post is_open bind_ok op r (client s) = Some res" "runs_on res s"
  shows "wsc_inv (advance res (log_done op r s))"
proof (cases op)
  case (OpRead n)
  then show ?thesis using assms inv_OpRead [of s n] by (cases r) auto
qed (use assms inv_OpConnect inv_OpHandshake inv_OpWrite inv_OpClose inv_OpPosted in auto)

lemma inv_calls:
  assumes "wsc_inv s"
  shows "runs_on (wc_Start bind_ok (client s)) s \<Longrightarrow> wsc_inv (advance (wc_Start bind_ok (client s)) s)"
    "runs_on (wc_Stop shutdown_ok (client s)) s \<Longrightarrow> wsc_inv (advance (wc_Stop shutdown_ok (client s)) s)"
    "wsc_inv (advance (client s, PostWebsocketClientMessage m (client s)) s)"
proof -
  note inv = assms [unfolded wsc_inv_def]
  show "wsc_inv (advance (wc_Start bind_ok (client s)) s)" if run: "runs_on (wc_Start bind_ok (client s)) s"
  proof (cases "wc_is_stopped (client s)")
    case True
    let ?c = "(client s)\<lparr>wc_is_stopped := False\<rparr>"
    have start: "wc_Start bind_ok (client s) = wc_startConnection bind_ok (wc_session ?c) True ?c"
      using True by (simp add: wc_Start_def Let_def)
    have "HandlerThrew \<notin> set (snd (wc_startConnection bind_ok (wc_session ?c) True ?c))"
      using run start by (simp add: runs_on_def)
    then obtain cs where d: "wc_startConnection bind_ok (wc_session ?c) True ?c = (?c\<lparr>wc_ws := True\<rparr>, cs)"
      "\<forall>b. concat (map (op_of b) cs) = [OpConnect (wc_session ?c)]" "\<not> writes_open cs"
      by (rule startConnection_cases) (auto simp: wc_stale_def)
    have "wsc_ok True (wc_session (client s)) (wc_ws (client s)) (wc_send_queue (client s)) (pend s)
        (newest s) (posted s) (sent s)" using inv True by simp
    from ok_start [OF this] d start show ?thesis by (simp add: inv_advance)
  next
    case False
    with inv show ?thesis by (simp add: wc_Start_def inv_advance)
  qed
  show "wsc_inv (advance (wc_Stop shutdown_ok (client s)) s)" if "runs_on (wc_Stop shutdown_ok (client s)) s"
  proof (cases "wc_is_stopped (client s)")
    case True
    with inv show ?thesis by (simp add: wc_Stop_def inv_advance)
  next
    case False
    then have "wsc_ok False (wc_session (client s)) (wc_ws (client s)) (wc_send_queue (client s)) (pend s)
        (newest s) (posted s) (sent s)" using inv by simp
    from ok_stop [OF this] that False show ?thesis
      by (auto simp: wc_Stop_def inv_advance runs_on_def Let_def split: if_splits)
  qed
  show "wsc_inv (advance (client s, PostWebsocketClientMessage m (client s)) s)"
    using inv ok_posted [OF inv]
    by (cases "wc_is_stopped (client s)") (simp_all add: PostWebsocketClientMessage_def inv_advance)
qed

lemma reach_inv: "wsc_reach parse post s \<Longrightarrow> wsc_inv s"
proof (induction rule: wsc_reach.induct)
  case (created ct ot t fixed)
  then show ?case by (simp add: wsc_inv_def wsc_ok_def WebsocketClient_def)
next
  case (started s bind_ok)
  then show ?case by (intro inv_calls(1))
next
  case (stopped s shutdown_ok)
  then show ?case by (intro inv_calls(2))
next
  case (message s m)
  then show ?case by (intro inv_calls(3))
next
  case (completed s op r is_open bind_ok res)
  show ?case by (rule inv_complete [OF completed.IH completed.hyps(2-5)])
qed

section \<open>What it means\<close>


text \<open>A run for the witnesses: start, connect, post a message, shake hands.\<close>

definition ws0 :: wsc where
  "ws0 = \<lparr>client = WebsocketClient 20 10 HEADSET_CONNECTION False, pend = {#}, newest = 0,
     posted = [], sent = []\<rparr>"

definition ws1 :: wsc where
  "ws1 = ws0\<lparr>client := (client ws0)\<lparr>wc_is_stopped := False, wc_ws := True\<rparr>, pend := {#OpConnect 0#}\<rparr>"

definition ws2 :: wsc where "ws2 = ws1\<lparr>pend := {#OpHandshake 0#}\<rparr>"

definition ws3 :: wsc where "ws3 = ws1\<lparr>pend := {#OpRead 0#}\<rparr>"

definition ws4 :: wsc where "ws4 = ws1\<lparr>pend := {#OpPosted ''m'', OpRead 0#}\<rparr>"

definition ws5 :: wsc where
  "ws5 = ws1\<lparr>client := (client ws1)\<lparr>wc_send_queue := [''m'']\<rparr>,
     pend := {#OpWrite 0 ''m'' True, OpRead 0#}, posted := [''m'']\<rparr>"

lemmas ws_defs = ws0_def ws1_def ws2_def ws3_def ws4_def ws5_def WebsocketClient_def

lemma ws_advance:
  "advance (wc_Start True (client ws0)) ws0 = ws1"
  "advance (wc_onConnection True 0 False (client ws1)) (log_done (OpConnect 0) (Completed []) ws1) = ws2"
  "advance (wc_onHandshake False True 0 False (client ws2)) (log_done (OpHandshake 0) (Completed []) ws2) = ws3"
  "advance (client ws3, PostWebsocketClientMessage ''m'' (client ws3)) ws3 = ws4"
  "advance (wc_write ''m'' (client ws4)) (log_done (OpPosted ''m'') (Completed []) ws4) = ws5"
  by (simp_all add: ws_defs advance_def log_done_def wc_Start_def wc_startConnection_def wc_stale_def
      wc_onConnection_def wc_onHandshake_def wc_read_def wc_write_def wc_doWrite_def
      PostWebsocketClientMessage_def opened_after_def)

lemma ws5_reach: "wsc_reach parse post ws5"
proof -
  have step: "wsc_reach parse post (advance res (log_done op (Completed []) s))"
    if "wsc_reach parse post s" "op \<in># pend s" "may_complete op (Completed []) s"
      "wc_complete parse post False True op (Completed []) (client s) = Some res" "runs_on res s" for s op res
    using that by (rule wsc_reach.completed)
  have 0: "wsc_reach parse post ws0" unfolding ws0_def by (rule wsc_reach.created)
  have 1: "wsc_reach parse post ws1"
    using wsc_reach.started [OF 0, of True] ws_advance(1)
    by (simp add: runs_on_def wc_Start_def wc_startConnection_def wc_stale_def ws0_def WebsocketClient_def)
  have 2: "wsc_reach parse post ws2"
    using step [OF 1, of "OpConnect 0"] ws_advance(2)
    by (simp add: runs_on_def wc_onConnection_def wc_stale_def ws_defs)
  have 3: "wsc_reach parse post ws3"
    using step [OF 2, of "OpHandshake 0"] ws_advance(3)
    by (simp add: runs_on_def wc_onHandshake_def wc_read_def wc_stale_def ws_defs)
  have 4: "wsc_reach parse post ws4"
    using wsc_reach.message [OF 3, of "''m''"] ws_advance(4) by simp
  show ?thesis
    using step [OF 4, of "OpPosted ''m''"] ws_advance(5)
    by (simp add: runs_on_def wc_write_def wc_doWrite_def wc_stale_def ws_defs)
qed




text \<open>The two exceptions that leave a handler strand the client. A reconnection over a fixed
  port that cannot be bound, and any JSON message handed to a manager that throws (as those of the
  headset and of the display do), leave it started with no operation under way; starting it again does
  nothing, so it never connects again until it is stopped.\<close>

theorem exceptions_strand_the_client:
  assumes "\<not> wc_stale n c"
  shows "(wc_use_fixed_port c \<longrightarrow>
      (let (c', cs) = wc_onDisconnect False n c in
       concat (map (op_of True) cs) = [] \<and> HandlerThrew \<in> set cs \<and> \<not> wc_is_stopped c' \<and>
       wc_Start True c' = (c', []))) \<and>
    (bytes \<noteq> [] \<and> parse (wc_read_buffer c @ bytes) = Some js \<and> post js = None \<longrightarrow>
      (let (c', cs) = wc_onRead parse post is_open bind_ok n False bytes c in
       concat (map (op_of True) cs) = [] \<and> HandlerThrew \<in> set cs \<and> \<not> wc_is_stopped c' \<and>
       wc_Start True c' = (c', [])))"
  using assms
  by (auto simp: wc_onDisconnect_def wc_startConnection_def wc_stale_def wc_Start_def wc_onRead_def Let_def)

theorem exceptions_strand_the_client_witness:
  "\<exists>c'. wc_onRead Some (\<lambda>_. None) True True 0 False ''{}'' (client ws5) = (c', [HandlerThrew])"
proof -
  have "\<not> wc_stale 0 (client ws5)" by (simp add: wc_stale_def ws_defs)
  from exceptions_strand_the_client [OF this, where bytes = "''{}''" and parse = Some and post = "\<lambda>_. None"
      and is_open = True and bind_ok = True]
  show ?thesis by (simp add: wc_onRead_def wc_stale_def ws_defs Let_def)
qed

text \<open>The read buffer is only consumed after a message was accepted. Bytes no JSON text can start
  with, once received, stay in front of everything the server sends later: in whatever session, every
  further message ends in a disconnection.\<close>

theorem bad_message_poisons_the_client:
  assumes "\<And>rest. parse (bad @ rest) = None"
    and "wc_read_buffer c = bad @ later" and "\<not> wc_stale n c" and "bytes \<noteq> []"
  shows "wc_onRead parse post is_open bind_ok n False bytes c =
      wc_disconnect is_open bind_ok n (c\<lparr>wc_read_buffer := bad @ later @ bytes\<rparr>) \<and>
    wc_read_buffer (fst (wc_onRead parse post is_open bind_ok n False bytes c)) = bad @ later @ bytes \<and>
    (\<forall>k. wc_read_buffer (fst (wc_onHandshake is_open bind_ok k ec c)) = bad @ later)"
  using assms(1) [of "later @ bytes"] assms(2-4)
  by (simp add: wc_onRead_def wc_disconnect_def wc_startConnection_def wc_onHandshake_def wc_stale_def
      Let_def)

theorem bad_message_poisons_the_client_witness:
  "wc_read_buffer (fst (wc_onRead (\<lambda>s. if take 1 s = ''}'' then None else Some s) (\<lambda>_. Some True) True True 0
     False ''{}'' ((client ws5)\<lparr>wc_read_buffer := ''}''\<rparr>))) = ''}{}''"
proof -
  let ?c = "(client ws5)\<lparr>wc_read_buffer := ''}''\<rparr>"
  have "wc_read_buffer (fst (wc_onRead (\<lambda>s. if take 1 s = ''}'' then None else Some s) (\<lambda>_. Some True)
     True True 0 False ''{}'' ?c)) = ''}'' @ [] @ ''{}''"
    by (rule bad_message_poisons_the_client [THEN conjunct2, THEN conjunct1])
       (simp_all add: wc_stale_def ws_defs)
  then show ?thesis by simp
qed

end
