(* ===== verification/Websocket_Server.thy ===== *)
theory Websocket_Server
  imports Ordered_Map Asio_Context Headset_Domain
begin

text \<open>
  \<open>src/internal/infrastructure/websocket/websocket_server.cpp\<close>: accepting websocket connections, the
  two pools of sessions (cameras, and headsets with displays) and the sessions themselves. The session
  objects live on a heap indexed by their session number; the pools hold the numbers. The manager is
  the server service: \<open>ctype\<close> classifies an endpoint, \<open>post\<close> takes a message and says whether it was
  accepted; \<open>parse\<close> is the JSON parser.
\<close>

section \<open>State\<close>

record ws_session =
  wss_connection_type :: connection_type
  wss_addr :: tcp_addr
  wss_is_live :: bool
  wss_read_buffer :: string

record websocket_server =
  wsv_is_stopped :: bool
  wsv_camera_sessions :: "(tcp_addr \<times> ulong) list"
  wsv_headset_sessions :: "(tcp_addr \<times> ulong) list"
  wsv_last_session_number :: ulong
  wsv_objects :: "ulong \<Rightarrow> ws_session option"

datatype wsv_call =
  AcceptNext | ShutdownSocket | AcceptThrew | CancelAcceptor
| SessionDispatch ulong | SessionAccept ulong | SessionRead ulong | SessionWrite ulong string
| SessionClose ulong

definition WebsocketServer :: websocket_server where
  "WebsocketServer = \<lparr>wsv_is_stopped = True, wsv_camera_sessions = [], wsv_headset_sessions = [],
     wsv_last_session_number = 0, wsv_objects = Map.empty\<rparr>"

text \<open>\<open>is_camera ? _camera_sessions : _headset_sessions\<close>.\<close>

definition session_pool :: "bool \<Rightarrow> websocket_server \<Rightarrow> (tcp_addr \<times> ulong) list" where
  "session_pool is_camera s = (if is_camera then wsv_camera_sessions s else wsv_headset_sessions s)"

definition set_session_pool ::
    "bool \<Rightarrow> (tcp_addr \<times> ulong) list \<Rightarrow> websocket_server \<Rightarrow> websocket_server" where
  "set_session_pool is_camera p s =
     (if is_camera then s\<lparr>wsv_camera_sessions := p\<rparr> else s\<lparr>wsv_headset_sessions := p\<rparr>)"

definition set_object :: "ulong \<Rightarrow> ws_session \<Rightarrow> websocket_server \<Rightarrow> websocket_server" where
  "set_object n x s = s\<lparr>wsv_objects := (wsv_objects s)(n \<mapsto> x)\<rparr>"

definition wss_camera :: "ws_session \<Rightarrow> bool" where
  "wss_camera x \<longleftrightarrow> wss_connection_type x = CAMERA_CONNECTION"

definition is_live :: "ulong \<Rightarrow> websocket_server \<Rightarrow> bool" where
  "is_live n s = (case wsv_objects s n of None \<Rightarrow> False | Some x \<Rightarrow> wss_is_live x)"

section \<open>Closing a session\<close>

definition wsv_destroySession :: "ulong \<Rightarrow> websocket_server \<Rightarrow> websocket_server" where
  "wsv_destroySession n s = (case wsv_objects s n of
     None \<Rightarrow> s
   | Some x \<Rightarrow>
       let is_camera = wss_camera x in
       if om_find (session_pool is_camera s) (wss_addr x) = Some n
       then set_session_pool is_camera (om_erase (wss_addr x) (session_pool is_camera s)) s else s)"

definition wss_TryClose :: "bool \<Rightarrow> ulong \<Rightarrow> websocket_server \<Rightarrow> websocket_server \<times> wsv_call list" where
  "wss_TryClose internal_close n s = (case wsv_objects s n of
     None \<Rightarrow> (s, [])
   | Some x \<Rightarrow>
       if \<not> wss_is_live x then (s, [])
       else
         let s1 = set_object n (x\<lparr>wss_is_live := False\<rparr>) s;
             s2 = (if internal_close then wsv_destroySession n s1 else s1)
         in (s2, [SessionClose n]))"

text \<open>\<open>~WebsocketSession\<close>: for a live session it asks for \<open>shared_from_this\<close> when no owner is left, which
  throws out of the destructor (\<open>None\<close>: the program is terminated).\<close>

definition wss_destructor :: "ws_session \<Rightarrow> unit option" where
  "wss_destructor x = (if \<not> wss_is_live x then Some () else None)"

section \<open>The acceptor\<close>

definition wsv_acceptConnections :: "websocket_server \<Rightarrow> wsv_call list" where
  "wsv_acceptConnections s = (if wsv_is_stopped s then [] else [AcceptNext])"

definition wsv_Start :: "websocket_server \<Rightarrow> websocket_server \<times> wsv_call list" where
  "wsv_Start s =
     (if wsv_is_stopped s
      then let s1 = s\<lparr>wsv_is_stopped := False\<rparr> in (s1, wsv_acceptConnections s1)
      else (s, []))"

definition wss_Start :: "ulong \<Rightarrow> websocket_server \<Rightarrow> wsv_call list" where
  "wss_Start n s = (if is_live n s then [SessionDispatch n] else [])"

definition wsv_handleConnection ::
    "connection_type \<Rightarrow> tcp_addr \<Rightarrow> websocket_server \<Rightarrow> websocket_server \<times> wsv_call list" where
  "wsv_handleConnection connection_type addr s =
     (let n = wsv_last_session_number s + 1;
          session = \<lparr>wss_connection_type = connection_type, wss_addr = addr, wss_is_live = True,
            wss_read_buffer = []\<rparr>;
          is_camera = (connection_type = CAMERA_CONNECTION);
          session_to_remove = om_find (session_pool is_camera s) addr;
          s1 = set_session_pool is_camera (om_put addr n (session_pool is_camera s))
                 (set_object n session (s\<lparr>wsv_last_session_number := n\<rparr>));
          start = wss_Start n s1
      in case session_to_remove of
           None \<Rightarrow> (s1, start)
         | Some old \<Rightarrow> (case wss_TryClose False old s1 of (s2, cs) \<Rightarrow> (s2, start @ cs)))"

text \<open>\<open>remote\<close> is \<open>None\<close> when the peer is gone already: \<open>remote_endpoint()\<close> throws and the handler is
  left.\<close>

definition wsv_onAccept ::
    "(endpoint \<Rightarrow> connection_type) \<Rightarrow> bool \<Rightarrow> endpoint option \<Rightarrow> websocket_server \<Rightarrow>
     websocket_server \<times> wsv_call list" where
  "wsv_onAccept ctype ec remote s =
     (if wsv_is_stopped s then (s, [])
      else if ec then (s, wsv_acceptConnections s)
      else (case remote of
              None \<Rightarrow> (s, [AcceptThrew])
            | Some ep \<Rightarrow>
                if ctype ep = UNKNOWN_CONNECTION
                then (s, ShutdownSocket # wsv_acceptConnections s)
                else (case wsv_handleConnection (ctype ep) (ep_addr ep) s of
                        (s1, cs) \<Rightarrow> (s1, cs @ wsv_acceptConnections s1))))"

fun close_all :: "ulong list \<Rightarrow> websocket_server \<Rightarrow> websocket_server \<times> wsv_call list" where
  "close_all [] s = (s, [])"
| "close_all (n # ns) s = (case wss_TryClose False n s of (s1, cs) \<Rightarrow>
     (case close_all ns s1 of (s2, cs') \<Rightarrow> (s2, cs @ cs')))"

definition wsv_Stop :: "websocket_server \<Rightarrow> websocket_server \<times> wsv_call list" where
  "wsv_Stop s =
     (if wsv_is_stopped s then (s, [])
      else
        let removed_sessions = map snd (wsv_camera_sessions s) @ map snd (wsv_headset_sessions s);
            s1 = s\<lparr>wsv_is_stopped := True, wsv_camera_sessions := [], wsv_headset_sessions := []\<rparr>
        in case close_all removed_sessions s1 of (s2, cs) \<Rightarrow> (s2, CancelAcceptor # cs))"

section \<open>The handlers of a session\<close>

definition wss_onStart :: "ulong \<Rightarrow> websocket_server \<Rightarrow> wsv_call list" where
  "wss_onStart n s = (if is_live n s then [SessionAccept n] else [])"

definition wss_read :: "ulong \<Rightarrow> websocket_server \<Rightarrow> wsv_call list" where
  "wss_read n s = (if is_live n s then [SessionRead n] else [])"

definition wss_onAccept :: "ulong \<Rightarrow> bool \<Rightarrow> websocket_server \<Rightarrow> websocket_server \<times> wsv_call list" where
  "wss_onAccept n ec s =
     (if \<not> is_live n s then (s, []) else if ec then wss_TryClose True n s else (s, wss_read n s))"

definition wss_onRead ::
    "(string \<Rightarrow> 'j option) \<Rightarrow> (connection_type \<Rightarrow> tcp_addr \<Rightarrow> 'j \<Rightarrow> bool) \<Rightarrow> ulong \<Rightarrow> bool \<Rightarrow> string \<Rightarrow>
     websocket_server \<Rightarrow> websocket_server \<times> wsv_call list \<times> (connection_type \<times> tcp_addr \<times> 'j) option" where
  "wss_onRead parse post n ec bytes s = (case wsv_objects s n of
     None \<Rightarrow> (s, [], None)
   | Some x0 \<Rightarrow>
       let x = x0\<lparr>wss_read_buffer := wss_read_buffer x0 @ bytes\<rparr>; s0 = set_object n x s in
       if \<not> wss_is_live x then (s0, [], None)
       else if ec then (case wss_TryClose True n s0 of (s1, cs) \<Rightarrow> (s1, cs, None))
       else if bytes = [] then (s0, wss_read n s0, None)
       else (case parse (wss_read_buffer x) of
               None \<Rightarrow> (case wss_TryClose True n s0 of (s1, cs) \<Rightarrow> (s1, cs, None))
             | Some js \<Rightarrow>
                 let message = (wss_connection_type x, wss_addr x, js) in
                 if post (wss_connection_type x) (wss_addr x) js then
                   let s1 = set_object n
                     (x\<lparr>wss_read_buffer := drop (length bytes) (wss_read_buffer x)\<rparr>) s0
                   in (s1, wss_read n s1, Some message)
                 else (case wss_TryClose True n s0 of (s1, cs) \<Rightarrow> (s1, cs, Some message))))"

definition wss_PostMessage :: "string \<Rightarrow> ulong \<Rightarrow> websocket_server \<Rightarrow> wsv_call list" where
  "wss_PostMessage dumped n s = (if is_live n s then [SessionWrite n dumped] else [])"

definition wss_onWrite ::
    "string \<Rightarrow> ulong \<Rightarrow> bool \<Rightarrow> nat \<Rightarrow> websocket_server \<Rightarrow> websocket_server \<times> wsv_call list" where
  "wss_onWrite message n ec bytes_transferred s =
     (if \<not> is_live n s then (s, [])
      else if ec then wss_TryClose True n s
      else if length message \<noteq> bytes_transferred then wss_TryClose True n s
      else (s, []))"

section \<open>Everything that happens to the server\<close>

datatype wsv_event =
  EvStart | EvStop | EvAccept bool "endpoint option"
| EvSessionAccept ulong bool | EvSessionRead ulong bool string | EvSessionWrite string ulong bool nat

definition wsv_step ::
    "(endpoint \<Rightarrow> connection_type) \<Rightarrow> (string \<Rightarrow> 'j option) \<Rightarrow> (connection_type \<Rightarrow> tcp_addr \<Rightarrow> 'j \<Rightarrow> bool) \<Rightarrow>
     wsv_event \<Rightarrow> websocket_server \<Rightarrow> websocket_server \<times> wsv_call list" where
  "wsv_step ctype parse post e s = (case e of
     EvStart \<Rightarrow> wsv_Start s
   | EvStop \<Rightarrow> wsv_Stop s
   | EvAccept ec remote \<Rightarrow> wsv_onAccept ctype ec remote s
   | EvSessionAccept n ec \<Rightarrow> wss_onAccept n ec s
   | EvSessionRead n ec bytes \<Rightarrow> (case wss_onRead parse post n ec bytes s of (s1, cs, _) \<Rightarrow> (s1, cs))
   | EvSessionWrite m n ec k \<Rightarrow> wss_onWrite m n ec k s)"

text \<open>Runs, with the calls made so far; the counter of sessions does not wrap around.\<close>

inductive wsv_reach ::
    "(endpoint \<Rightarrow> connection_type) \<Rightarrow> (string \<Rightarrow> 'j option) \<Rightarrow> (connection_type \<Rightarrow> tcp_addr \<Rightarrow> 'j \<Rightarrow> bool) \<Rightarrow>
     websocket_server \<Rightarrow> wsv_call list \<Rightarrow> bool"
  for ctype :: "endpoint \<Rightarrow> connection_type" and parse :: "string \<Rightarrow> 'j option"
    and post :: "connection_type \<Rightarrow> tcp_addr \<Rightarrow> 'j \<Rightarrow> bool" where
  wsv_created: "wsv_reach ctype parse post WebsocketServer []"
| wsv_event: "wsv_reach ctype parse post s log \<Longrightarrow> wsv_step ctype parse post e s = (s1, cs) \<Longrightarrow>
     wsv_last_session_number s \<le> wsv_last_session_number s1 \<Longrightarrow>
     wsv_reach ctype parse post s1 (log @ cs)"

section \<open>The pools hold the live sessions\<close>

lemma pool_simps [simp]:
  "session_pool b (set_session_pool b' p s) = (if b = b' then p else session_pool b s)"
  "session_pool b (set_object n x s) = session_pool b s"
  "wsv_objects (set_session_pool b p s) = wsv_objects s"
  "wsv_objects (set_object n x s) = (wsv_objects s)(n \<mapsto> x)"
  "wsv_last_session_number (set_session_pool b p s) = wsv_last_session_number s"
  "wsv_last_session_number (set_object n x s) = wsv_last_session_number s"
  "wsv_is_stopped (set_session_pool b p s) = wsv_is_stopped s"
  "wsv_is_stopped (set_object n x s) = wsv_is_stopped s"
  "session_pool b (s\<lparr>wsv_last_session_number := n\<rparr>) = session_pool b s"
  "session_pool b (s\<lparr>wsv_is_stopped := t\<rparr>) = session_pool b s"
  by (simp_all add: session_pool_def set_session_pool_def set_object_def)

definition live_at :: "websocket_server \<Rightarrow> bool \<Rightarrow> tcp_addr \<Rightarrow> ulong \<Rightarrow> bool" where
  "live_at s b a n \<longleftrightarrow>
     (\<exists>x. wsv_objects s n = Some x \<and> wss_is_live x \<and> wss_addr x = a \<and> wss_camera x = b)"

text \<open>The log says each session closed once if it is not live and not at all if it is.\<close>

definition closed_in :: "wsv_call list \<Rightarrow> websocket_server \<Rightarrow> bool" where
  "closed_in log s \<longleftrightarrow> (\<forall>n. count_list log (SessionClose n) =
     (case wsv_objects s n of None \<Rightarrow> 0 | Some x \<Rightarrow> if wss_is_live x then 0 else 1))"

text \<open>Every pool holds the live sessions of its kind under their addresses, but for those in \<open>E\<close>, which
  were taken out and are about to be closed.\<close>

definition wsv_inv :: "ulong set \<Rightarrow> websocket_server \<Rightarrow> wsv_call list \<Rightarrow> bool" where
  "wsv_inv E s log \<longleftrightarrow>
     (\<forall>b. om_wf (session_pool b s)) \<and>
     (\<forall>b a n. om_find (session_pool b s) a = Some n \<longleftrightarrow> live_at s b a n \<and> n \<notin> E) \<and>
     (\<forall>n x. wsv_objects s n = Some x \<longrightarrow> n \<le> wsv_last_session_number s) \<and>
     closed_in log s"

lemma wsv_invD:
  assumes "wsv_inv E s log"
  shows "om_wf (session_pool b s)"
    "om_find (session_pool b s) a = Some n \<longleftrightarrow> live_at s b a n \<and> n \<notin> E"
    "wsv_objects s n = Some x \<Longrightarrow> n \<le> wsv_last_session_number s"
    "closed_in log s"
  using assms by (auto simp: wsv_inv_def)

lemma wsv_invI:
  assumes "\<And>b. om_wf (session_pool b s)"
    "\<And>b a n. om_find (session_pool b s) a = Some n \<longleftrightarrow> live_at s b a n \<and> n \<notin> E"
    "\<And>n x. wsv_objects s n = Some x \<Longrightarrow> n \<le> wsv_last_session_number s"
    "closed_in log s"
  shows "wsv_inv E s log"
  using assms unfolding wsv_inv_def by blast

lemma closed_in_quiet:
  "closed_in log s \<Longrightarrow> (\<And>n. SessionClose n \<notin> set cs) \<Longrightarrow>
   (\<And>n. map_option wss_is_live (wsv_objects s' n) = map_option wss_is_live (wsv_objects s n)) \<Longrightarrow>
   closed_in (log @ cs) s'"
  unfolding closed_in_def
proof (intro allI)
  fix n
  assume a: "\<forall>n. count_list log (SessionClose n) =
        (case wsv_objects s n of None \<Rightarrow> 0 | Some x \<Rightarrow> if wss_is_live x then 0 else 1)"
    and b: "\<And>n. SessionClose n \<notin> set cs"
    and c: "\<And>n. map_option wss_is_live (wsv_objects s' n) = map_option wss_is_live (wsv_objects s n)"
  show "count_list (log @ cs) (SessionClose n) =
        (case wsv_objects s' n of None \<Rightarrow> 0 | Some x \<Rightarrow> if wss_is_live x then 0 else 1)"
    using spec [OF a, of n] b [of n] c [of n]
    by (cases "wsv_objects s n"; cases "wsv_objects s' n") (auto simp: count_list_0_iff)
qed

lemma closed_in_close:
  assumes "closed_in log s" "wsv_objects s n = Some x" "wss_is_live x"
    "wsv_objects s' = (wsv_objects s)(n \<mapsto> x\<lparr>wss_is_live := False\<rparr>)"
  shows "closed_in (log @ [SessionClose n]) s'"
  using assms unfolding closed_in_def by auto

lemma inv_close_removed:
  assumes "wsv_inv E s log" "wss_TryClose False n s = (s', cs)" "n \<in> E"
  shows "wsv_inv (E - {n}) s' (log @ cs)"
proof (cases "is_live n s")
  case False
  then have "s' = s" "cs = []" using assms(2) by (auto simp: wss_TryClose_def is_live_def split: option.splits)
  moreover have "\<not> live_at s b a n" for b a using False by (auto simp: live_at_def is_live_def)
  ultimately show ?thesis using assms(1) by (auto simp: wsv_inv_def)
next
  case True
  then obtain x where x: "wsv_objects s n = Some x" "wss_is_live x"
    by (auto simp: is_live_def split: option.splits)
  then have r: "s' = set_object n (x\<lparr>wss_is_live := False\<rparr>) s" "cs = [SessionClose n]"
    using assms(2) by (simp_all add: wss_TryClose_def)
  have live: "live_at s' b a k \<longleftrightarrow> live_at s b a k \<and> k \<noteq> n" for b a k by (auto simp: r live_at_def)
  have closed: "closed_in (log @ cs) s'" unfolding r
    by (rule closed_in_close [OF wsv_invD(4) [OF assms(1)] x]) simp
  have same: "session_pool b s' = session_pool b s"
    "wsv_last_session_number s' = wsv_last_session_number s" for b by (simp_all add: r)
  have objs: "wsv_objects s' k = Some y \<Longrightarrow> k \<le> wsv_last_session_number s" for k y
    using wsv_invD(3) [OF assms(1), of k] x by (auto simp: r split: if_splits)
  show ?thesis
    by (rule wsv_invI) (use wsv_invD(1,2) [OF assms(1)] live closed objs assms(3) in \<open>auto simp: same\<close>)
qed

lemma inv_close_all:
  assumes "wsv_inv E s log" "close_all ns s = (s', cs)" "set ns \<subseteq> E" "E \<subseteq> set ns \<union> E'" "E' \<subseteq> E"
    "distinct ns" "set ns \<inter> E' = {}"
  shows "wsv_inv E' s' (log @ cs)"
  using assms
proof (induction ns arbitrary: E s log cs s')
  case Nil
  then have "E = E'" by auto
  with Nil show ?case by simp
next
  case (Cons n ns)
  obtain s1 cs1 where 1: "wss_TryClose False n s = (s1, cs1)" by fastforce
  obtain s2 cs2 where 2: "close_all ns s1 = (s2, cs2)" by fastforce
  have "wsv_inv (E - {n}) s1 (log @ cs1)" using Cons.prems(1,3) 1 by (intro inv_close_removed) auto
  then have "wsv_inv E' s2 ((log @ cs1) @ cs2)"
    by (rule Cons.IH [OF _ 2]) (use Cons.prems(3-7) in auto)
  with Cons.prems(2) 1 2 show ?case by simp
qed

lemma inv_close_internal:
  assumes "wsv_inv {} s log" "wss_TryClose True n s = (s', cs)"
  shows "wsv_inv {} s' (log @ cs)"
proof (cases "is_live n s")
  case False
  then have "s' = s" "cs = []" using assms(2) by (auto simp: wss_TryClose_def is_live_def split: option.splits)
  then show ?thesis using assms(1) by simp
next
  case True
  then obtain x where x: "wsv_objects s n = Some x" "wss_is_live x"
    by (auto simp: is_live_def split: option.splits)
  let ?x = "x\<lparr>wss_is_live := False\<rparr>" and ?b = "wss_camera x" and ?a = "wss_addr x"
  have find: "om_find (session_pool ?b s) ?a = Some n"
    using x by (simp add: wsv_invD(2) [OF assms(1)] live_at_def)
  have cam: "wss_camera ?x = ?b" by (simp add: wss_camera_def)
  have r: "s' = set_session_pool ?b (om_erase ?a (session_pool ?b s)) (set_object n ?x s)"
    "cs = [SessionClose n]"
    using assms(2) x find cam by (simp_all add: wss_TryClose_def wsv_destroySession_def Let_def)
  have wf: "om_wf (session_pool b s)" for b by (rule wsv_invD(1) [OF assms(1)])
  have live: "live_at s' b a k \<longleftrightarrow> live_at s b a k \<and> k \<noteq> n" for b a k by (auto simp: r live_at_def)
  have pool: "om_find (session_pool b s') a = Some k \<longleftrightarrow> live_at s b a k \<and> k \<noteq> n" for b a k
  proof (cases "b = ?b \<and> a = ?a")
    case True
    then show ?thesis using find wsv_invD(2) [OF assms(1), of b a k]
      by (auto simp: r om_find_erase wf)
  next
    case False
    moreover have "\<not> live_at s b a n" using False x by (auto simp: live_at_def)
    ultimately show ?thesis using wsv_invD(2) [OF assms(1), of b a k]
      by (auto simp: r om_find_erase wf)
  qed
  have closed: "closed_in (log @ cs) s'" unfolding r
    by (rule closed_in_close [OF wsv_invD(4) [OF assms(1)] x]) simp
  have same: "om_wf (session_pool b s')"
    "wsv_last_session_number s' = wsv_last_session_number s" for b by (simp_all add: r wf)
  have objs: "wsv_objects s' k = Some y \<Longrightarrow> k \<le> wsv_last_session_number s" for k y
    using wsv_invD(3) [OF assms(1), of k] x by (auto simp: r split: if_splits)
  show ?thesis by (rule wsv_invI) (use live closed objs pool in \<open>auto simp: same\<close>)
qed

lemma inv_quiet:
  assumes "wsv_inv E s log" "\<And>b. session_pool b s' = session_pool b s"
    "wsv_last_session_number s' = wsv_last_session_number s"
    "\<And>n. SessionClose n \<notin> set cs"
    "wsv_objects s' = wsv_objects s \<or> (\<exists>n x bs. wsv_objects s n = Some x \<and>
       wsv_objects s' = (wsv_objects s)(n \<mapsto> x\<lparr>wss_read_buffer := bs\<rparr>))"
  shows "wsv_inv E s' (log @ cs)"
proof -
  have live: "live_at s' b a k \<longleftrightarrow> live_at s b a k" for b a k
    using assms(5) by (auto simp: live_at_def wss_camera_def split: if_splits)
  have "map_option wss_is_live (wsv_objects s' n) = map_option wss_is_live (wsv_objects s n)" for n
    using assms(5) by auto
  then have "closed_in (log @ cs) s'" using assms(4) by (intro closed_in_quiet [OF wsv_invD(4) [OF assms(1)]])
  moreover have "wsv_objects s' n = Some x \<Longrightarrow> n \<le> wsv_last_session_number s" for n x
    using assms(5) wsv_invD(3) [OF assms(1)] by (auto split: if_splits)
  ultimately show ?thesis
    by (intro wsv_invI) (use wsv_invD(1,2) [OF assms(1)] assms(2,3) live in auto)
qed

lemma inv_handleConnection:
  assumes "wsv_inv {} s log" "wsv_handleConnection t addr s = (s', cs)"
    "wsv_last_session_number s \<le> wsv_last_session_number s + 1"
  shows "wsv_inv {} s' (log @ cs)"
proof -
  define n where "n = wsv_last_session_number s + 1"
  define b where "b = (t = CAMERA_CONNECTION)"
  define x where "x = \<lparr>wss_connection_type = t, wss_addr = addr, wss_is_live = True, wss_read_buffer = []\<rparr>"
  define s1 where "s1 = set_session_pool b (om_put addr n (session_pool b s))
     (set_object n x (s\<lparr>wsv_last_session_number := n\<rparr>))"
  define old where "old = om_find (session_pool b s) addr"
  have lt: "wsv_last_session_number s < n"
    using assms(3) unfolding n_def by (metis add_cancel_right_right order_le_imp_less_or_eq zero_neq_one)
  have fresh: "wsv_objects s n = None"
    using wsv_invD(3) [OF assms(1), of n] lt by (cases "wsv_objects s n") auto
  have x: "wss_camera x = b" "wss_addr x = addr" "wss_is_live x" by (simp_all add: x_def b_def wss_camera_def)
  have live: "live_at s1 b' a k \<longleftrightarrow> (if k = n then b' = b \<and> a = addr else live_at s b' a k)" for b' a k
    using x by (auto simp: s1_def live_at_def)
  have not_n: "\<not> live_at s b' a n" for b' a using fresh by (simp add: live_at_def)
  have wf: "om_wf (session_pool b' s)" for b' by (rule wsv_invD(1) [OF assms(1)])
  have pools: "om_find (session_pool b' s1) a = Some k \<longleftrightarrow> live_at s1 b' a k \<and> k \<notin> set_option old" for b' a k
  proof -
    have find: "om_find (session_pool b' s1) a =
        (if b' = b \<and> a = addr then Some n else om_find (session_pool b' s) a)"
      by (simp add: s1_def wf)
    have old_iff: "old = Some j \<longleftrightarrow> live_at s b addr j" for j
      using wsv_invD(2) [OF assms(1), of b addr j] by (simp add: old_def)
    have elsewhere: "live_at s b' a k \<Longrightarrow> old = Some k \<Longrightarrow> b' = b \<and> a = addr"
      unfolding old_iff by (auto simp: live_at_def)
    have inv: "om_find (session_pool b' s) a = Some k \<longleftrightarrow> live_at s b' a k"
      using wsv_invD(2) [OF assms(1)] by simp
    have "old \<noteq> Some n" using not_n by (simp add: old_iff)
    note facts = find live [of b' a k] old_iff [of k] this
    show ?thesis
    proof (cases "b' = b \<and> a = addr")
      case True
      then show ?thesis using facts by (cases "k = n") (simp_all add: elem_set)
    next
      case False
      then have "om_find (session_pool b' s1) a = om_find (session_pool b' s) a"
        using find by (simp only: if_not_P if_False)
      moreover have "live_at s b' a k \<Longrightarrow> old \<noteq> Some k" using elsewhere False by blast
      ultimately show ?thesis using False inv facts(2) not_n by (cases "k = n") (auto simp: elem_set)
    qed
  qed
  have "wsv_objects s1 k = Some y \<Longrightarrow> k \<le> wsv_last_session_number s1" for k y
    using wsv_invD(3) [OF assms(1), of k] lt by (auto simp: s1_def split: if_splits)
  moreover have "closed_in log s1"
    using wsv_invD(4) [OF assms(1)] fresh x by (auto simp: closed_in_def s1_def)
  ultimately have inv1: "wsv_inv (set_option old) s1 log"
    using pools wf by (simp add: wsv_inv_def s1_def)
  have start: "closed_in (log @ wss_Start n s1) s1"
    using wsv_invD(4) [OF inv1] by (intro closed_in_quiet) (auto simp: wss_Start_def)
  then have inv2: "wsv_inv (set_option old) s1 (log @ wss_Start n s1)"
    using inv1 by (simp add: wsv_inv_def)
  have def: "wsv_handleConnection t addr s = (case old of None \<Rightarrow> (s1, wss_Start n s1)
      | Some o' \<Rightarrow> (case wss_TryClose False o' s1 of (s2, cs) \<Rightarrow> (s2, wss_Start n s1 @ cs)))"
    unfolding wsv_handleConnection_def Let_def s1_def old_def x_def b_def n_def by (rule refl)
  show ?thesis
  proof (cases old)
    case None
    then show ?thesis using inv2 assms(2) def by auto
  next
    case (Some o')
    obtain s2 cs2 where c: "wss_TryClose False o' s1 = (s2, cs2)" by fastforce
    from inv_close_removed [OF inv2 c] Some c assms(2) def show ?thesis by simp
  qed
qed

lemma last_TryClose [simp]:
  "wsv_last_session_number (fst (wss_TryClose i n s)) = wsv_last_session_number s"
  by (simp add: wss_TryClose_def wsv_destroySession_def Let_def split: option.split)

lemma last_handleConnection:
  "wsv_last_session_number (fst (wsv_handleConnection t a s)) = wsv_last_session_number s + 1"
  by (simp add: wsv_handleConnection_def Let_def case_prod_beta split: option.split)

lemma closed_log_Start: "SessionClose n \<notin> set (wsv_acceptConnections s)"
  by (simp add: wsv_acceptConnections_def)

lemma inv_step:
  assumes "wsv_inv {} s log" "wsv_step ctype parse post e s = (s', cs)"
    "wsv_last_session_number s \<le> wsv_last_session_number s'"
  shows "wsv_inv {} s' (log @ cs)"
proof (cases e)
  case EvStart
  with assms show ?thesis
    by (intro inv_quiet [OF assms(1)])
       (auto simp: wsv_step_def wsv_Start_def wsv_acceptConnections_def Let_def split: if_splits)
next
  case EvStop
  show ?thesis
  proof (cases "wsv_is_stopped s")
    case True
    with assms EvStop show ?thesis by (simp add: wsv_step_def wsv_Stop_def)
  next
    case False
    let ?c = "map snd (wsv_camera_sessions s)" and ?h = "map snd (wsv_headset_sessions s)"
    define s1 where "s1 = s\<lparr>wsv_is_stopped := True, wsv_camera_sessions := [], wsv_headset_sessions := []\<rparr>"
    have pools: "wsv_camera_sessions s = session_pool True s" "wsv_headset_sessions s = session_pool False s"
      by (simp_all add: session_pool_def)
    have wf: "om_wf (session_pool b s)" for b by (rule wsv_invD(1) [OF assms(1)])
    have entry: "(a, n) \<in> set (session_pool b s) \<longleftrightarrow> live_at s b a n" for b a n
      using om_find_in_set [OF wf, of b a n] wsv_invD(2) [OF assms(1), of b a n] by simp
    have mem: "n \<in> snd ` set (session_pool b s) \<longleftrightarrow> (\<exists>a. live_at s b a n)" for b n
      by (force simp: image_iff simp flip: entry)
    have key: "a = a'" if "(a, n) \<in> set (session_pool b s)" "(a', n) \<in> set (session_pool b s)" for a a' n b
      using that unfolding entry by (auto simp: live_at_def)
    have dist: "distinct (map snd (session_pool b s))" for b
    proof -
      have "distinct (map fst (session_pool b s))"
        using om.distinct_keys [OF wf, of b] by (simp add: om_keys_def)
      then have "distinct (session_pool b s)" by (simp add: distinct_map)
      then show ?thesis using key by (auto simp: distinct_map inj_on_def)
    qed
    have "False" if "n \<in> snd ` set (session_pool True s)" "n \<in> snd ` set (session_pool False s)" for n
      using that unfolding mem by (auto simp: live_at_def)
    then have "distinct (?c @ ?h)" unfolding pools using dist by auto
    moreover have "wsv_inv (set (?c @ ?h)) s1 (log @ [CancelAcceptor])"
    proof (rule wsv_invI, goal_cases)
      case (2 b a n)
      have "\<not> (live_at s b a n \<and> n \<notin> set (?c @ ?h))" using mem unfolding pools by (cases b) auto
      then show ?case by (auto simp: s1_def session_pool_def live_at_def)
    next
      case 4
      then show ?case using wsv_invD(4) [OF assms(1)]
        by (intro closed_in_quiet) (auto simp: s1_def)
    qed (use wsv_invD(3) [OF assms(1)] in \<open>auto simp: s1_def session_pool_def\<close>)
    moreover obtain s2 cs2 where c: "close_all (?c @ ?h) s1 = (s2, cs2)" by fastforce
    ultimately have "wsv_inv {} s2 ((log @ [CancelAcceptor]) @ cs2)"
      using inv_close_all [of "set (?c @ ?h)" s1 "log @ [CancelAcceptor]" "?c @ ?h" s2 cs2 "{}"] by blast
    with c False assms(2) EvStop show ?thesis by (simp add: wsv_step_def wsv_Stop_def s1_def Let_def)
  qed
next
  case (EvAccept ec remote)
  show ?thesis
  proof (cases "wsv_is_stopped s \<or> ec \<or> remote = None \<or> ctype (the remote) = UNKNOWN_CONNECTION")
    case True
    with assms EvAccept show ?thesis
      by (intro inv_quiet [OF assms(1)])
         (auto simp: wsv_step_def wsv_onAccept_def wsv_acceptConnections_def split: if_splits option.splits)
  next
    case False
    then obtain ep where ep: "remote = Some ep" "ctype ep \<noteq> UNKNOWN_CONNECTION" by auto
    obtain s1 cs1 where h: "wsv_handleConnection (ctype ep) (ep_addr ep) s = (s1, cs1)" by fastforce
    have r: "s' = s1" "cs = cs1 @ wsv_acceptConnections s1"
      using assms(2) EvAccept False ep h by (auto simp: wsv_step_def wsv_onAccept_def)
    have "wsv_last_session_number s1 = wsv_last_session_number s + 1"
      using last_handleConnection [of "ctype ep" "ep_addr ep" s] h by simp
    then have "wsv_inv {} s1 (log @ cs1)" using assms(3) r by (intro inv_handleConnection [OF assms(1) h]) simp
    then have "wsv_inv {} s1 ((log @ cs1) @ wsv_acceptConnections s1)"
      by (rule inv_quiet) (auto simp: closed_log_Start)
    then show ?thesis using r by simp
  qed
next
  case (EvSessionAccept n ec)
  have "wsv_inv {} s (log @ [SessionRead n])" by (rule inv_quiet [OF assms(1)]) auto
  moreover have "(s', cs) = (s, []) \<or> (s', cs) = (s, [SessionRead n]) \<or> wss_TryClose True n s = (s', cs)"
    using assms(2) EvSessionAccept by (simp add: wsv_step_def wss_onAccept_def wss_read_def split: if_splits)
  ultimately show ?thesis using assms(1) inv_close_internal [OF assms(1), of n s' cs]
    by (elim disjE) simp_all
next
  case (EvSessionRead n ec bytes)
  show ?thesis
  proof (cases "wsv_objects s n")
    case None
    with assms EvSessionRead show ?thesis by (simp add: wsv_step_def wss_onRead_def)
  next
    case (Some x0)
    define x where "x = x0\<lparr>wss_read_buffer := wss_read_buffer x0 @ bytes\<rparr>"
    define s0 where "s0 = set_object n x s"
    have inv0: "wsv_inv {} s0 (log @ [])"
      by (rule inv_quiet [OF assms(1)]) (use Some in \<open>auto simp: s0_def x_def\<close>)
    have inv1: "wsv_inv {} (set_object n (x\<lparr>wss_read_buffer := bs\<rparr>) s0) (log @ [SessionRead n])" for bs
      by (rule inv_quiet [OF assms(1)]) (use Some in \<open>auto simp: s0_def x_def\<close>)
    have inv2: "wsv_inv {} s0 (log @ [SessionRead n])"
      by (rule inv_quiet [OF assms(1)]) (use Some in \<open>auto simp: s0_def x_def\<close>)
    have "wsv_step ctype parse post e s = (s0, []) \<or> wsv_step ctype parse post e s = (s0, [SessionRead n]) \<or>
      wsv_step ctype parse post e s = wss_TryClose True n s0 \<or>
      (\<exists>bs. wsv_step ctype parse post e s = (set_object n (x\<lparr>wss_read_buffer := bs\<rparr>) s0, [SessionRead n]))"
    proof -
      have read: "wss_onRead parse post n ec bytes s =
          (if \<not> wss_is_live x then (s0, [], None)
           else if ec then (case wss_TryClose True n s0 of (s1, cs) \<Rightarrow> (s1, cs, None))
           else if bytes = [] then (s0, wss_read n s0, None)
           else (case parse (wss_read_buffer x) of
                   None \<Rightarrow> (case wss_TryClose True n s0 of (s1, cs) \<Rightarrow> (s1, cs, None))
                 | Some js \<Rightarrow>
                     if post (wss_connection_type x) (wss_addr x) js then
                       (set_object n (x\<lparr>wss_read_buffer := drop (length bytes) (wss_read_buffer x)\<rparr>) s0,
                        wss_read n (set_object n (x\<lparr>wss_read_buffer := drop (length bytes) (wss_read_buffer x)\<rparr>) s0),
                        Some (wss_connection_type x, wss_addr x, js))
                     else (case wss_TryClose True n s0 of
                             (s1, cs) \<Rightarrow> (s1, cs, Some (wss_connection_type x, wss_addr x, js)))))"
        by (simp only: wss_onRead_def Let_def Some option.case x_def s0_def)
      have "is_live n s0 = wss_is_live x"
        "is_live n (set_object n (x\<lparr>wss_read_buffer := bs\<rparr>) s0) = wss_is_live x" for bs
        by (simp_all add: is_live_def s0_def)
      then show ?thesis using EvSessionRead
        by (auto simp: wsv_step_def read wss_read_def split: option.split prod.split)
    qed
    then have "(s', cs) = (s0, []) \<or> (s', cs) = (s0, [SessionRead n]) \<or> wss_TryClose True n s0 = (s', cs) \<or>
      (\<exists>bs. (s', cs) = (set_object n (x\<lparr>wss_read_buffer := bs\<rparr>) s0, [SessionRead n]))"
      unfolding assms(2) by (metis (no_types))
    then show ?thesis using inv0 inv1 inv2 inv_close_internal [OF inv0, of n s' cs]
      by (elim disjE exE) simp_all
  qed
next
  case (EvSessionWrite m n ec k)
  then have "(s', cs) = (s, []) \<or> wss_TryClose True n s = (s', cs)"
    using assms(2) by (simp add: wsv_step_def wss_onWrite_def split: if_splits)
  then show ?thesis using assms(1) inv_close_internal [OF assms(1), of n s' cs]
    by (elim disjE) simp_all
qed

lemma reach_wsv_inv: "wsv_reach ctype parse post s log \<Longrightarrow> wsv_inv {} s log"
proof (induction rule: wsv_reach.induct)
  case wsv_created
  then show ?case
    by (intro wsv_invI) (auto simp: WebsocketServer_def session_pool_def live_at_def closed_in_def)
next
  case (wsv_event s log e s1 cs)
  then show ?case by (intro inv_step)
qed

section \<open>What it means\<close>

text \<open>C10 (invariant): in every reachable state of the websocket server a pool maps an address to a session
  exactly if that session is live, has that address and is of that kind, so there is at most one live
  session per address and kind and a live session is always owned (its destructor never has to throw);
  and every session that ended was closed once, no other session ever.\<close>

theorem websocket_sessions_tracked:
  assumes "wsv_reach ctype parse post s log"
  shows "(om_find (session_pool b s) a = Some n \<longleftrightarrow>
      (\<exists>x. wsv_objects s n = Some x \<and> wss_is_live x \<and> wss_addr x = a \<and> wss_camera x = b)) \<and>
    (\<forall>x. wsv_objects s n = Some x \<longrightarrow>
       count_list log (SessionClose n) = (if wss_is_live x then 0 else 1) \<and>
       (n \<notin> snd ` set (session_pool (wss_camera x) s) \<longrightarrow> wss_destructor x = Some ()))"
proof -
  note inv = reach_wsv_inv [OF assms]
  have "wss_destructor x = Some ()"
    if "wsv_objects s n = Some x" "n \<notin> snd ` set (session_pool (wss_camera x) s)" for x
  proof (cases "wss_is_live x")
    case True
    with that(1) have "om_find (session_pool (wss_camera x) s) (wss_addr x) = Some n"
      by (simp add: wsv_invD(2) [OF inv] live_at_def)
    then have "(wss_addr x, n) \<in> set (session_pool (wss_camera x) s)"
      by (simp add: om_find_in_set wsv_invD(1) [OF inv])
    with that(2) show ?thesis by force
  qed (simp add: wss_destructor_def)
  moreover have "om_find (session_pool b s) a = Some n \<longleftrightarrow> live_at s b a n"
    using wsv_invD(2) [OF inv] by simp
  moreover have "count_list log (SessionClose n) = (if wss_is_live x then 0 else 1)"
    if "wsv_objects s n = Some x" for x
    using wsv_invD(4) [OF inv] that by (simp add: closed_in_def)
  ultimately show ?thesis by (simp add: live_at_def)
qed

text \<open>A camera and a headset connect from the same address; the headset connects again.\<close>

definition demo_type :: "endpoint \<Rightarrow> connection_type" where
  "demo_type ep = (if ep_port ep = 12111 then CAMERA_CONNECTION else HEADSET_CONNECTION)"

definition demo_accepts :: "wsv_event list" where
  "demo_accepts = [EvStart, EvAccept False (Some \<lparr>ep_addr = 7, ep_port = 12111\<rparr>),
     EvAccept False (Some \<lparr>ep_addr = 7, ep_port = 1\<rparr>), EvAccept False (Some \<lparr>ep_addr = 7, ep_port = 2\<rparr>)]"

fun wsv_run ::
    "(endpoint \<Rightarrow> connection_type) \<Rightarrow> (string \<Rightarrow> 'j option) \<Rightarrow> (connection_type \<Rightarrow> tcp_addr \<Rightarrow> 'j \<Rightarrow> bool) \<Rightarrow>
     wsv_event list \<Rightarrow> websocket_server \<times> wsv_call list \<Rightarrow> websocket_server \<times> wsv_call list" where
  "wsv_run ctype parse post [] r = r"
| "wsv_run ctype parse post (e # es) (s, log) = (case wsv_step ctype parse post e s of
     (s1, cs) \<Rightarrow> wsv_run ctype parse post es (s1, log @ cs))"

fun wsv_numbers_grow ::
    "(endpoint \<Rightarrow> connection_type) \<Rightarrow> (string \<Rightarrow> 'j option) \<Rightarrow> (connection_type \<Rightarrow> tcp_addr \<Rightarrow> 'j \<Rightarrow> bool) \<Rightarrow>
     wsv_event list \<Rightarrow> websocket_server \<Rightarrow> bool" where
  "wsv_numbers_grow ctype parse post [] s = True"
| "wsv_numbers_grow ctype parse post (e # es) s = (case wsv_step ctype parse post e s of (s1, _) \<Rightarrow>
     wsv_last_session_number s \<le> wsv_last_session_number s1 \<and> wsv_numbers_grow ctype parse post es s1)"

lemma wsv_run_reach:
  "wsv_reach ctype parse post s log \<Longrightarrow> wsv_numbers_grow ctype parse post es s \<Longrightarrow>
   wsv_run ctype parse post es (s, log) = (s', log') \<Longrightarrow> wsv_reach ctype parse post s' log'"
  by (induction es arbitrary: s log) (auto split: prod.splits intro: wsv_reach.wsv_event)

lemmas wsv_eval = demo_accepts_def demo_type_def WebsocketServer_def wsv_step_def wsv_Start_def
  wsv_acceptConnections_def wsv_onAccept_def wsv_handleConnection_def wss_Start_def is_live_def
  wss_TryClose_def session_pool_def set_session_pool_def set_object_def Let_def

theorem websocket_sessions_tracked_witness:
  "case wsv_run demo_type (\<lambda>_. None :: unit option) (\<lambda>_ _ _. True) demo_accepts (WebsocketServer, []) of
     (s, log) \<Rightarrow> om_find (session_pool True s) 7 = Some 1 \<and> count_list log (SessionClose 2) = 1"
proof -
  let ?r = "wsv_run demo_type (\<lambda>_. None :: unit option) (\<lambda>_ _ _. True) demo_accepts (WebsocketServer, [])"
  have "wsv_numbers_grow demo_type (\<lambda>_. None :: unit option) (\<lambda>_ _ _. True) demo_accepts WebsocketServer"
    by (simp add: wsv_eval)
  then have r: "wsv_reach demo_type (\<lambda>_. None :: unit option) (\<lambda>_ _ _. True) (fst ?r) (snd ?r)"
    by (rule wsv_run_reach [OF wsv_reach.wsv_created]) simp
  obtain x y where "wsv_objects (fst ?r) 1 = Some x" "wss_is_live x" "wss_addr x = 7" "wss_camera x"
    "wsv_objects (fst ?r) 2 = Some y" "\<not> wss_is_live y"
    by (simp add: wsv_eval wss_camera_def)
  with websocket_sessions_tracked [OF r, of True 7 1] websocket_sessions_tracked [OF r, of False 7 2]
  show ?thesis by (simp add: case_prod_beta)
qed

text \<open>A running acceptor asks for the next connection exactly once after every accept, failed,
  refused or taken, but for one: when the peer is gone before its endpoint was read, the handler is left
  by an exception and the server accepts nobody any more.\<close>

theorem websocket_accept_loop:
  "count_list (snd (wsv_onAccept ctype ec remote s)) AcceptNext =
     (if \<not> wsv_is_stopped s \<and> (ec \<or> remote \<noteq> None) then 1 else 0)"
proof -
  have close: "count_list (snd (wss_TryClose i n s)) AcceptNext = 0" for i n s
    by (simp add: wss_TryClose_def Let_def split: option.split)
  have stop: "wsv_is_stopped (fst (wss_TryClose i n s)) = wsv_is_stopped s" for i n s
    by (simp add: wss_TryClose_def wsv_destroySession_def Let_def split: option.split)
  show ?thesis
    by (simp add: wsv_onAccept_def wsv_handleConnection_def wsv_acceptConnections_def wss_Start_def
        case_prod_beta Let_def close stop split: option.split)
qed

text \<open>What a read of a session does. A message that parses is handed to the manager with
  the session's own kind and address; the session reads on exactly if the manager accepted it (or
  nothing was read), and in every other case it is closed and leaves its pool.\<close>

theorem websocket_read_outcomes:
  assumes "wsv_objects s n = Some x" "wss_is_live x" "wss_read_buffer x = []"
    and "om_find (session_pool (wss_camera x) s) (wss_addr x) = Some n" "om_wf (session_pool (wss_camera x) s)"
  shows "(case wss_onRead parse post n False bytes s of (s', cs, message) \<Rightarrow>
      message = (if bytes = [] then None
                 else map_option (\<lambda>js. (wss_connection_type x, wss_addr x, js)) (parse bytes)) \<and>
      (if bytes = [] \<or> (\<exists>js. parse bytes = Some js \<and> post (wss_connection_type x) (wss_addr x) js)
       then cs = [SessionRead n] \<and> wsv_objects s' n = Some x
       else cs = [SessionClose n] \<and> \<not> is_live n s' \<and>
         om_find (session_pool (wss_camera x) s') (wss_addr x) = None))"
proof -
  have buf: "wss_read_buffer (x\<lparr>wss_read_buffer := []\<rparr>) = wss_read_buffer x" using assms(3) by simp
  then have same: "x\<lparr>wss_read_buffer := []\<rparr> = x" by (cases x) simp
  have close: "wss_TryClose True n (set_object n (x\<lparr>wss_read_buffer := bytes\<rparr>) s) =
      (set_session_pool (wss_camera x) (om_erase (wss_addr x) (session_pool (wss_camera x) s))
        (set_object n (x\<lparr>wss_read_buffer := bytes, wss_is_live := False\<rparr>)
          (set_object n (x\<lparr>wss_read_buffer := bytes\<rparr>) s)), [SessionClose n])"
    using assms by (simp add: wss_TryClose_def wsv_destroySession_def wss_camera_def Let_def)
  show ?thesis using assms same
    by (cases "parse bytes")
       (auto simp: wss_onRead_def close wss_read_def is_live_def om_find_erase Let_def)
qed

theorem websocket_read_outcomes_witness:
  "\<exists>s'. wss_onRead Some (\<lambda>_ _ _. False) 1 False ''x''
     (set_session_pool True [(7, 1)] (set_object 1
       \<lparr>wss_connection_type = CAMERA_CONNECTION, wss_addr = 7, wss_is_live = True, wss_read_buffer = []\<rparr>
       WebsocketServer)) = (s', [SessionClose 1], Some (CAMERA_CONNECTION, 7, ''x''))"
  using websocket_read_outcomes [where s = "set_session_pool True [(7, 1)] (set_object 1
       \<lparr>wss_connection_type = CAMERA_CONNECTION, wss_addr = 7, wss_is_live = True, wss_read_buffer = []\<rparr>
       WebsocketServer)" and n = 1 and parse = Some and post = "\<lambda>_ _ _. False" and bytes = "''x''"
     and x = "\<lparr>wss_connection_type = CAMERA_CONNECTION, wss_addr = 7, wss_is_live = True, wss_read_buffer = []\<rparr>"]
  by (simp add: wss_camera_def om_wf_Cons case_prod_beta prod_eq_iff)

end
