(* ===== verification/Server_Streamer.thy ===== *)
theory Server_Streamer
  imports Connection_Delivery Headset_Domain Timer_Loop
begin

text \<open>
  \<open>src/internal/service/server/server_streamer.cpp\<close>: the server's service object. It classifies peers,
  hands sessions and frames to the connection manager, obeys the headsets' messages, and runs the
  camera switching thread (manual entry or timer).
\<close>

section \<open>Configuration\<close>

datatype client_assignment = CAMERA_THEN_HEADSET | IP_BOUNDS | ENDPOINT_PORT

datatype camera_switching =
  MANUAL_ENTRY | AUTOMATIC_TIMER | HEADSET_CONTROLLED | LOCATION_BASED | NO_SWITCHING

record server_config =
  get_asio_pool_size :: int
  get_tcp_server_port :: int
  get_tcp_server_timeout :: int
  get_tcp_camera_session_buffer_count :: int
  get_tcp_headset_session_buffer_count :: int
  get_tcp_server_buffer_size :: int
  get_websocket_server_port :: int
  get_websocket_server_timeout :: int
  get_server_client_assignment_strategy :: client_assignment
  get_server_camera_switching_strategy :: camera_switching
  get_server_camera_switching_automatic_timeout :: int

datatype switching_thread = ManualEntryThread | AutomaticTimerThread

record server_streamer =
  ss_conf :: server_config
  ss_started :: bool
  ss_manager :: conn_manager
  ss_allow_headset_switches :: bool
  ss_switching :: "switching_thread option"
  ss_worker :: bool
  ss_work_stop :: bool

text \<open>\<open>assignStrategies\<close>: whether headsets may switch, and the thread to run.\<close>

definition assignStrategies :: "server_config \<Rightarrow> string + bool \<times> switching_thread option" where
  "assignStrategies conf = (case get_server_camera_switching_strategy conf of
     MANUAL_ENTRY \<Rightarrow> Inr (False, Some ManualEntryThread)
   | AUTOMATIC_TIMER \<Rightarrow> Inr (False, Some AutomaticTimerThread)
   | LOCATION_BASED \<Rightarrow> Inl ''Switch strategy location_based is not yet implemented''
   | HEADSET_CONTROLLED \<Rightarrow> Inr (True, None)
   | NO_SWITCHING \<Rightarrow> Inr (False, None))"

definition ServerCreate :: "server_config \<Rightarrow> string + server_streamer" where
  "ServerCreate conf = (case assignStrategies conf of
     Inl e \<Rightarrow> Inl e
   | Inr (allow, switching) \<Rightarrow>
       Inr \<lparr>ss_conf = conf, ss_started = False, ss_manager = cm_init,
         ss_allow_headset_switches = allow, ss_switching = switching, ss_worker = False,
         ss_work_stop = True\<rparr>)"

text \<open>Starting and stopping, with the order of the calls on the parts.\<close>

datatype part_call =
  StartWorker | StartAsio | StartTcp | StartWebsocket | StopWebsocket | StopTcp | StopAsio | JoinWorker
| TryCloseSession session

definition server_streamer_Start :: "server_streamer \<Rightarrow> server_streamer \<times> part_call list" where
  "server_streamer_Start s =
     (if ss_started s then (s, [])
      else (s\<lparr>ss_work_stop := False, ss_worker := (ss_worker s \<or> ss_switching s \<noteq> None),
               ss_started := True\<rparr>,
            (if ss_switching s \<noteq> None then [StartWorker] else []) @
            [StartAsio, StartTcp, StartWebsocket]))"

definition server_streamer_Stop :: "server_streamer \<Rightarrow> server_streamer \<times> part_call list" where
  "server_streamer_Stop s =
     (if \<not> ss_started s then (s, [])
      else case cm_clear (ss_manager s) of (m, closed) \<Rightarrow>
        (s\<lparr>ss_manager := m, ss_work_stop := True, ss_worker := False, ss_started := False\<rparr>,
         map TryCloseSession closed @ (if ss_worker s then [JoinWorker] else []) @
         [StopWebsocket, StopTcp, StopAsio]))"

section \<open>Classifying peers\<close>

text \<open>An address from its four bytes.\<close>

definition address_v4 :: "nat \<Rightarrow> nat \<Rightarrow> nat \<Rightarrow> nat \<Rightarrow> tcp_addr" where
  "address_v4 a b c d = of_nat (((a * 256 + b) * 256 + c) * 256 + d)"

definition ConnectionAssignCameraThenHeadset :: "conn_manager \<Rightarrow> endpoint \<Rightarrow> connection_type" where
  "ConnectionAssignCameraThenHeadset m ep =
     (let counts = GetConnectionCounts m in
      if fst counts = 0 \<and> snd counts = 0 then CAMERA_CONNECTION
      else if snd counts = 0 then HEADSET_CONNECTION
      else UNKNOWN_CONNECTION)"

definition ConnectionAssignIpBounds :: "endpoint \<Rightarrow> connection_type" where
  "ConnectionAssignIpBounds ep =
     (let addr = ep_addr ep in
      if addr \<ge> address_v4 69 4 20 200 then CAMERA_CONNECTION
      else if addr \<ge> address_v4 69 4 20 190 then DISPLAY_CONNECTION
      else if addr \<ge> address_v4 69 4 20 100 then HEADSET_CONNECTION
      else UNKNOWN_CONNECTION)"

definition ConnectionAssignEndpointPort :: "endpoint \<Rightarrow> connection_type" where
  "ConnectionAssignEndpointPort ep =
     (let port = ep_port ep in
      if port = 11111 \<or> port = 12111 then CAMERA_CONNECTION
      else if port = 21222 \<or> port = 22222 then HEADSET_CONNECTION
      else if port = 31333 \<or> port = 32333 then DISPLAY_CONNECTION
      else UNKNOWN_CONNECTION)"

definition GetConnectionType :: "server_streamer \<Rightarrow> endpoint \<Rightarrow> connection_type" where
  "GetConnectionType s ep = (case get_server_client_assignment_strategy (ss_conf s) of
     CAMERA_THEN_HEADSET \<Rightarrow> ConnectionAssignCameraThenHeadset (ss_manager s) ep
   | IP_BOUNDS \<Rightarrow> ConnectionAssignIpBounds ep
   | ENDPOINT_PORT \<Rightarrow> ConnectionAssignEndpointPort ep)"

section \<open>Sessions, frames and messages\<close>

definition CreateCameraServerConnection ::
    "session \<Rightarrow> server_streamer \<Rightarrow> server_streamer \<times> session list \<times> ulong" where
  "CreateCameraServerConnection x s =
     (case AddReaderSession x (ss_manager s) of (m, closed, n) \<Rightarrow> (s\<lparr>ss_manager := m\<rparr>, closed, n))"

definition PostCameraServerBuffer :: "tcp_addr \<Rightarrow> 'b \<Rightarrow> server_streamer \<Rightarrow> (session \<times> 'b) list" where
  "PostCameraServerBuffer addr buffer s = PostMessage addr buffer (ss_manager s)"

definition DestroyCameraServerConnection :: "id_heap \<Rightarrow> session \<Rightarrow> server_streamer \<Rightarrow> server_streamer" where
  "DestroyCameraServerConnection ids x s =
     s\<lparr>ss_manager := RemoveReaderSession ids x (ss_manager s)\<rparr>"

definition CreateHeadsetServerConnection ::
    "session \<Rightarrow> server_streamer \<Rightarrow> (server_streamer \<times> session list \<times> ulong) option" where
  "CreateHeadsetServerConnection x s =
     map_option (\<lambda>(m, closed, n). (s\<lparr>ss_manager := m\<rparr>, closed, n)) (AddWriterSession x (ss_manager s))"

definition DestroyHeadsetServerConnection :: "id_heap \<Rightarrow> session \<Rightarrow> server_streamer \<Rightarrow> server_streamer" where
  "DestroyHeadsetServerConnection ids x s =
     s\<lparr>ss_manager := RemoveWriterSession ids x (ss_manager s)\<rparr>"

definition PostWebsocketMessage ::
    "('f \<Rightarrow> int) \<Rightarrow> connection_type \<Rightarrow> tcp_addr \<Rightarrow> 'f json \<Rightarrow> server_streamer \<Rightarrow>
     server_streamer \<times> bool" where
  "PostWebsocketMessage float_to_int ctype addr message s =
     (case TryParseMessage float_to_int message of
        None \<Rightarrow> (s, False)
      | Some HeadsetRotateCamera \<Rightarrow>
          if ctype = CAMERA_CONNECTION then (s, False)
          else (s\<lparr>ss_manager := fst (RotateWriterConnection addr (ss_manager s))\<rparr>, True)
      | Some HeadsetResetCamera \<Rightarrow>
          if ctype = CAMERA_CONNECTION then (s, False)
          else (s\<lparr>ss_manager := fst (ResetWriterConnection addr (ss_manager s))\<rparr>, True))"

section \<open>The switching threads\<close>

text \<open>One turn of the manual loop: what \<open>select\<close> and the parse of the input gave.\<close>

datatype entry = SelectTimeout | SelectError | InvalidInput | EnteredValue int

definition manual_entry_turn :: "entry \<Rightarrow> conn_manager \<Rightarrow> conn_manager \<times> bool" where
  "manual_entry_turn e m = (case e of
     SelectTimeout \<Rightarrow> (m, True)
   | SelectError \<Rightarrow> (m, False)
   | InvalidInput \<Rightarrow> (m, True)
   | EnteredValue value \<Rightarrow>
       if 200 \<le> value \<and> value \<le> 255
       then (fst (PointReaderAtWriters (address_v4 69 4 20 (nat value)) m), True)
       else (m, True))"

text \<open>The loop as a function of its turns: it ends when they do (\<open>_work_stop\<close>) or on an error.\<close>

fun CameraSwitchingManualEntry :: "entry list \<Rightarrow> conn_manager \<Rightarrow> conn_manager" where
  "CameraSwitchingManualEntry [] m = m"
| "CameraSwitchingManualEntry (e # es) m =
     (case manual_entry_turn e m of
        (m', True) \<Rightarrow> CameraSwitchingManualEntry es m' | (m', False) \<Rightarrow> m')"

text \<open>The timer loop: the first reading of the clock, then one per turn.\<close>

definition CameraSwitchingAutomaticTimer ::
    "server_config \<Rightarrow> int \<Rightarrow> int list \<Rightarrow> conn_manager \<Rightarrow> conn_manager \<times> int list" where
  "CameraSwitchingAutomaticTimer conf start nows m =
     timer_loop (\<lambda>m. fst (RotateAllConnections m))
       (get_server_camera_switching_automatic_timeout conf) nows start m"

section \<open>What the classification admits\<close>

lemma unat_address:
  assumes "d < 256"
  shows "unat (address_v4 69 4 20 d) = 1157895168 + d"
proof -
  have "address_v4 69 4 20 d = word_of_nat (1157895168 + d)" by (simp add: address_v4_def)
  moreover have "unat (word_of_nat (1157895168 + d) :: 32 word) = 1157895168 + d"
  proof -
    have "take_bit 32 (1157895168 + d) = 1157895168 + d"
      using assms by (intro take_bit_nat_eq_self) simp
    then show ?thesis by (simp only: unsigned_of_nat of_nat_id len_num0 len_bit0 len_bit1) simp
  qed
  ultimately show ?thesis by simp
qed

lemma synced_no_connection_iff:
  assumes "cm_synced m"
  shows "reader_connections m = [] \<longleftrightarrow> reader_sessions m = []"
    "writer_connections m = [] \<longleftrightarrow> reader_sessions m = [] \<or> writer_sessions m = []"
proof -
  note wf = cm_syncedD(1) [OF assms]
  show "reader_connections m = [] \<longleftrightarrow> reader_sessions m = []"
    using om_find_empty_iff [OF cm_wfD(5) [OF wf]] om_find_empty_iff [OF cm_wfD(3) [OF wf]]
      reader_conns_iff [OF wf] by auto
  show "writer_connections m = [] \<longleftrightarrow> reader_sessions m = [] \<or> writer_sessions m = []"
  proof (cases "reader_sessions m = []")
    case True
    with cm_syncedD(3) [OF assms] show ?thesis by simp
  next
    case False
    then have "(\<forall>a. om_find (writer_connections m) a = None) \<longleftrightarrow>
        (\<forall>a. om_find (writer_sessions m) a = None)"
      using cm_syncedD(2) [OF assms] wconn_registered [OF wf] by (metis option.exhaust option.simps(3))
    with False show ?thesis
      using om_find_empty_iff [OF cm_wfD(6) [OF wf]] om_find_empty_iff [OF cm_wfD(4) [OF wf]] by simp
  qed
qed

text \<open>With the assignment camera-then-headset, a consistent server takes a peer as a
  camera exactly while it has no camera, as a headset exactly while it has a camera and no screen, and
  refuses everybody else; it never takes a display.\<close>

theorem camera_then_headset_admits:
  assumes "cm_synced (ss_manager s)"
    and "get_server_client_assignment_strategy (ss_conf s) = CAMERA_THEN_HEADSET"
  shows "(GetConnectionType s ep = CAMERA_CONNECTION \<longleftrightarrow> reader_sessions (ss_manager s) = []) \<and>
    (GetConnectionType s ep = HEADSET_CONNECTION \<longleftrightarrow>
       reader_sessions (ss_manager s) \<noteq> [] \<and> writer_sessions (ss_manager s) = []) \<and>
    GetConnectionType s ep \<noteq> DISPLAY_CONNECTION"
  using assms synced_no_connection_iff [OF assms(1)]
  by (simp add: GetConnectionType_def ConnectionAssignCameraThenHeadset_def GetConnectionCounts_def)

definition demo_server :: "client_assignment \<Rightarrow> camera_switching \<Rightarrow> conn_manager \<Rightarrow> server_streamer" where
  "demo_server assign switch m =
     \<lparr>ss_conf = \<lparr>get_asio_pool_size = 4, get_tcp_server_port = 6969, get_tcp_server_timeout = 3,
        get_tcp_camera_session_buffer_count = 4, get_tcp_headset_session_buffer_count = 4,
        get_tcp_server_buffer_size = 1000, get_websocket_server_port = 8008,
        get_websocket_server_timeout = 3, get_server_client_assignment_strategy = assign,
        get_server_camera_switching_strategy = switch,
        get_server_camera_switching_automatic_timeout = 30\<rparr>,
      ss_started = True, ss_manager = m, ss_allow_headset_switches = False, ss_switching = None,
      ss_worker = False, ss_work_stop = False\<rparr>"

lemma demo_server_sel [simp]:
  "ss_manager (demo_server a w m) = m"
  "get_server_client_assignment_strategy (ss_conf (demo_server a w m)) = a"
  "get_server_camera_switching_strategy (ss_conf (demo_server a w m)) = w"
  "ss_allow_headset_switches (demo_server a w m) = False"
  by (simp_all add: demo_server_def)

lemma demo_synced: "cm_synced (cm_run demo_run cm_init)"
  using synced_run [OF cm_synced_init demo_run_ok] by blast

theorem camera_then_headset_admits_witness:
  "GetConnectionType (demo_server CAMERA_THEN_HEADSET NO_SWITCHING cm_init) ep = CAMERA_CONNECTION"
  using camera_then_headset_admits [of "demo_server CAMERA_THEN_HEADSET NO_SWITCHING cm_init" ep]
    cm_synced_init by (simp add: cm_init_def)

text \<open>With the assignment by address, \<open>69.4.20.d\<close> is a headset from 100, a display
  from 190, a camera from 200 and nobody below; every address above that network is a camera as well,
  every address below it is refused; and the addresses the manual entry points screens at are those of
  cameras.\<close>

theorem ip_bounds_classes:
  assumes "get_server_client_assignment_strategy (ss_conf s) = IP_BOUNDS"
  shows "(d < 256 \<longrightarrow> GetConnectionType s \<lparr>ep_addr = address_v4 69 4 20 d, ep_port = p\<rparr> =
      (if d < 100 then UNKNOWN_CONNECTION else if d < 190 then HEADSET_CONNECTION
       else if d < 200 then DISPLAY_CONNECTION else CAMERA_CONNECTION)) \<and>
    (ep_addr ep > address_v4 69 4 20 255 \<longrightarrow> GetConnectionType s ep = CAMERA_CONNECTION) \<and>
    (ep_addr ep < address_v4 69 4 20 0 \<longrightarrow> GetConnectionType s ep = UNKNOWN_CONNECTION) \<and>
    (200 \<le> v \<and> v \<le> 255 \<longrightarrow>
       fst (manual_entry_turn (EnteredValue v) m) =
         fst (PointReaderAtWriters (address_v4 69 4 20 (nat v)) m) \<and>
       GetConnectionType s \<lparr>ep_addr = address_v4 69 4 20 (nat v), ep_port = p\<rparr> = CAMERA_CONNECTION)"
proof -
  have type: "GetConnectionType s ep = ConnectionAssignIpBounds ep" for ep
    using assms by (simp add: GetConnectionType_def)
  have low: "GetConnectionType s \<lparr>ep_addr = address_v4 69 4 20 d, ep_port = p\<rparr> =
      (if d < 100 then UNKNOWN_CONNECTION else if d < 190 then HEADSET_CONNECTION
       else if d < 200 then DISPLAY_CONNECTION else CAMERA_CONNECTION)" if "d < 256" for d
    using that by (simp add: type ConnectionAssignIpBounds_def word_le_nat_alt unat_address)
  moreover have "GetConnectionType s ep = CAMERA_CONNECTION" if "ep_addr ep > address_v4 69 4 20 255"
    using that by (simp add: type ConnectionAssignIpBounds_def word_le_nat_alt word_less_nat_alt unat_address)
  moreover have "GetConnectionType s ep = UNKNOWN_CONNECTION" if "ep_addr ep < address_v4 69 4 20 0"
    using that by (simp add: type ConnectionAssignIpBounds_def word_le_nat_alt word_less_nat_alt unat_address)
  moreover have "fst (manual_entry_turn (EnteredValue v) m) =
         fst (PointReaderAtWriters (address_v4 69 4 20 (nat v)) m) \<and>
       GetConnectionType s \<lparr>ep_addr = address_v4 69 4 20 (nat v), ep_port = p\<rparr> = CAMERA_CONNECTION"
    if "200 \<le> v \<and> v \<le> 255"
    using that low [of "nat v"] by (auto simp: manual_entry_turn_def)
  ultimately show ?thesis by blast
qed

theorem ip_bounds_classes_witness:
  "GetConnectionType (demo_server IP_BOUNDS MANUAL_ENTRY cm_init)
     \<lparr>ep_addr = address_v4 69 4 20 195, ep_port = 4000\<rparr> = DISPLAY_CONNECTION"
  using ip_bounds_classes [of "demo_server IP_BOUNDS MANUAL_ENTRY cm_init" 195 4000] by simp

section \<open>What messages do\<close>

lemma message_moves_screen:
  assumes "cm_synced (ss_manager s)"
  shows "(case PostWebsocketMessage fi ctype addr js s of (s', ok) \<Rightarrow>
      cm_synced (ss_manager s') \<and>
      router_of (ss_manager s') =
        (case TryParseMessage fi js of
           Some HeadsetRotateCamera \<Rightarrow>
             if ctype = CAMERA_CONNECTION then router_of (ss_manager s)
             else router_step ids (Rotate addr) (router_of (ss_manager s))
         | Some HeadsetResetCamera \<Rightarrow>
             if ctype = CAMERA_CONNECTION then router_of (ss_manager s)
             else router_step ids (Reset addr) (router_of (ss_manager s))
         | None \<Rightarrow> router_of (ss_manager s)) \<and>
      (ok \<longleftrightarrow> TryParseMessage fi js \<noteq> None \<and> ctype \<noteq> CAMERA_CONNECTION))"
proof -
  have "cm_synced (fst (RotateWriterConnection addr (ss_manager s)))"
    using synced_step [of "ss_manager s" ids "Rotate addr"] assms by simp
  moreover have "cm_synced (fst (ResetWriterConnection addr (ss_manager s)))"
    using synced_step [of "ss_manager s" ids "Reset addr"] assms by simp
  ultimately show ?thesis
    using assms refine_Rotate [OF assms, of addr ids] refine_Reset [OF assms, of addr ids]
    by (simp add: PostWebsocketMessage_def del: router_step.simps
        split: option.split domain_message.split)
qed

text \<open>A rotate or reset message of a screen moves that screen as the router
  specification says, whatever the configured switching strategy: nothing reads
  \<open>_allow_headset_switches\<close>. The message is refused, and nothing moves, exactly when it does not parse
  or comes from a camera.\<close>

theorem websocket_message_moves_screen:
  assumes "cm_synced (ss_manager s)"
  shows "(case PostWebsocketMessage fi ctype addr js s of (s', ok) \<Rightarrow>
      cm_synced (ss_manager s') \<and>
      router_of (ss_manager s') =
        (case TryParseMessage fi js of
           Some HeadsetRotateCamera \<Rightarrow>
             if ctype = CAMERA_CONNECTION then router_of (ss_manager s)
             else router_step ids (Rotate addr) (router_of (ss_manager s))
         | Some HeadsetResetCamera \<Rightarrow>
             if ctype = CAMERA_CONNECTION then router_of (ss_manager s)
             else router_step ids (Reset addr) (router_of (ss_manager s))
         | None \<Rightarrow> router_of (ss_manager s)) \<and>
      (ok \<longleftrightarrow> TryParseMessage fi js \<noteq> None \<and> ctype \<noteq> CAMERA_CONNECTION))"
  by (rule message_moves_screen [OF assms])

theorem websocket_message_moves_screen_witness:
  "feed (router_of (ss_manager (fst (PostWebsocketMessage (\<lambda>_::unit. 0) HEADSET_CONNECTION 200
      (GetMessage HeadsetRotateCamera) (demo_server ENDPOINT_PORT NO_SWITCHING (cm_run demo_run cm_init))))))
    200 = Some 100"
proof -
  let ?s = "demo_server ENDPOINT_PORT NO_SWITCHING (cm_run demo_run cm_init)"
  have parse: "TryParseMessage (\<lambda>_::unit. 0) (GetMessage HeadsetRotateCamera) = Some HeadsetRotateCamera"
    by (simp add: TryParseMessage_def GetMessage_def json_at_def json_get_int_def MessageType_def
        to_int32_def)
  have "router_of (ss_manager (fst (PostWebsocketMessage (\<lambda>_::unit. 0) HEADSET_CONNECTION 200
      (GetMessage HeadsetRotateCamera) ?s))) = router_step demo_ids (Rotate 200) (router_of (ss_manager ?s))"
    using websocket_message_moves_screen [where s = ?s and fi = "\<lambda>_::unit. 0" and
        ctype = HEADSET_CONNECTION and addr = 200 and js = "GetMessage HeadsetRotateCamera" and
        ids = demo_ids] demo_synced
    by (simp add: parse split: prod.splits del: router_step.simps)
  then show ?thesis by (simp add: demo_defs cm_defs next_camera_def)
qed

section \<open>Switching by the clock\<close>

text \<open>The timer thread, started with a positive timeout, rotates all connections exactly
  once for each time it acts; the times are the timeout apart at least, counted from the start; and
  after every turn less than the timeout has passed since the last one, so no rotation is overdue.\<close>

theorem automatic_timer_rotates:
  assumes "0 < get_server_camera_switching_automatic_timeout conf" (is "0 < ?t")
    and "CameraSwitchingAutomaticTimer conf start nows m = (m', ts)"
  shows "m' = ((\<lambda>m. fst (RotateAllConnections m)) ^^ length ts) m \<and> spaced ?t (start # ts) \<and>
    (nows \<noteq> [] \<longrightarrow> last nows - last (start # ts) < ?t * 1000000000)"
  using timer_loop_facts [where act = "\<lambda>m. fst (RotateAllConnections m)" and t = ?t and nows = nows
      and last_timer = start and s = m] assms
  by (cases "ts = []") (simp_all add: CameraSwitchingAutomaticTimer_def)

theorem automatic_timer_rotates_witness:
  "spaced 30 (0 # snd (CameraSwitchingAutomaticTimer
      (ss_conf (demo_server ENDPOINT_PORT AUTOMATIC_TIMER cm_init)) 0
      [1000000000, 30500000000, 61000000000] cm_init))"
  using automatic_timer_rotates [of "ss_conf (demo_server ENDPOINT_PORT AUTOMATIC_TIMER cm_init)" 0
      "[1000000000, 30500000000, 61000000000]" cm_init,
      OF _ prod.collapse [symmetric]] by (simp add: demo_server_def)

section \<open>Starting and stopping\<close>

text \<open>A server is created for every switching strategy but the location based one;
  starting it starts the switching thread of the strategy, if it has one, before the servers; stopping
  it empties the manager, closes every registered session once before the thread is joined and the
  servers stopped; and both do nothing when there is nothing to do.\<close>

theorem server_streamer_life:
  "(case ServerCreate conf of
      Inl e \<Rightarrow> get_server_camera_switching_strategy conf = LOCATION_BASED
    | Inr s \<Rightarrow>
        get_server_camera_switching_strategy conf \<noteq> LOCATION_BASED \<and>
        snd (server_streamer_Start s) =
          (if get_server_camera_switching_strategy conf \<in> {MANUAL_ENTRY, AUTOMATIC_TIMER}
           then [StartWorker] else []) @ [StartAsio, StartTcp, StartWebsocket] \<and>
        server_streamer_Stop s = (s, []) \<and>
        server_streamer_Start (fst (server_streamer_Start s)) = (fst (server_streamer_Start s), []) \<and>
        (\<forall>m. let r = server_streamer_Stop ((fst (server_streamer_Start s))\<lparr>ss_manager := m\<rparr>) in
           router_of (ss_manager (fst r)) = no_router \<and>
           \<not> ss_started (fst r) \<and> \<not> ss_worker (fst r) \<and> ss_work_stop (fst r) \<and>
           snd r = map TryCloseSession (map snd (reader_sessions m) @ map snd (writer_sessions m)) @
             (if ss_switching s \<noteq> None then [JoinWorker] else []) @ [StopWebsocket, StopTcp, StopAsio]))"
proof -
  have empty: "router_of (fst (cm_clear m)) = no_router" for m
    by (auto simp: cm_clear_def no_router_def intro!: router_eqI)
  show ?thesis
    by (cases "get_server_camera_switching_strategy conf")
       (simp_all add: ServerCreate_def assignStrategies_def server_streamer_Start_def
         server_streamer_Stop_def empty [unfolded cm_clear_def, simplified] cm_clear_def Let_def)
qed

end
