(* ===== verification/App_Config.thy ===== *)
theory App_Config
  imports Headset_Streamer Display_Streamer Camera_Streamer Server_Streamer
begin

text \<open>
  The four programs of \<open>src/application/\<close>: which file they read their configuration from and how they
  make the configuration of their service of it. Reading the file and parsing JSON are the library's.
  The conversion of a floating point number to \<open>int\<close> is a parameter.
\<close>

section \<open>The file\<close>

datatype app_type = AppCamera | AppHeadset | AppServer | AppDisplay

text \<open>\<open>argument\<close> is the first argument of the program, \<open>exists_file\<close> the file system below the directory of
  the configurations.\<close>

definition config_name :: "app_type \<Rightarrow> string option \<Rightarrow> string list" where
  "config_name app argument =
     (let (dir, name) = (case app of AppCamera \<Rightarrow> ([''camera''], ''camera.'') | AppHeadset \<Rightarrow> ([], ''headset.'')
        | AppServer \<Rightarrow> ([], ''server.'') | AppDisplay \<Rightarrow> ([], ''display.''))
      in dir @ [name @ (case argument of Some a \<Rightarrow> a | None \<Rightarrow> ''default'') @ ''.json''])"

definition get_json_config ::
    "(string list \<Rightarrow> 'f json option) \<Rightarrow> app_type \<Rightarrow> string option \<Rightarrow> string + 'f json" where
  "get_json_config files app argument = (case files (config_name app argument) of
     None \<Rightarrow> Inl ''Couldn't find config file at path'' | Some j \<Rightarrow> Inr j)"

section \<open>Values\<close>

text \<open>\<open>config.value(key, default)\<close>: the default for a missing key, an exception for a value of another type
  or for a configuration that is not an object.\<close>

definition json_value :: "('f json \<Rightarrow> 'a option) \<Rightarrow> string \<Rightarrow> 'a \<Rightarrow> 'f json \<Rightarrow> string + 'a" where
  "json_value get key default_value j = (case j of
     JObject kvs \<Rightarrow> (case map_of kvs key of
       None \<Rightarrow> Inr default_value
     | Some v \<Rightarrow> (case get v of None \<Rightarrow> Inl ''type_error'' | Some x \<Rightarrow> Inr x))
   | _ \<Rightarrow> Inl ''type_error'')"

definition get_string :: "'f json \<Rightarrow> string option" where
  "get_string v = (case v of JString s \<Rightarrow> Some s | _ \<Rightarrow> None)"

definition get_bool :: "'f json \<Rightarrow> bool option" where
  "get_bool v = (case v of JBool b \<Rightarrow> Some b | _ \<Rightarrow> None)"

definition get_int :: "('f \<Rightarrow> int) \<Rightarrow> 'f json \<Rightarrow> int option" where
  "get_int float_to_int v = (case v of
     JInt i \<Rightarrow> Some (to_int32 i) | JFloat f \<Rightarrow> Some (float_to_int f) | JBool b \<Rightarrow> Some (of_bool b) | _ \<Rightarrow> None)"

text \<open>An exception leaves \<open>main\<close>.\<close>

definition or_throw :: "'e + 'a \<Rightarrow> ('a \<Rightarrow> 'e + 'b) \<Rightarrow> 'e + 'b" where
  "or_throw r f = (case r of Inl e \<Rightarrow> Inl e | Inr x \<Rightarrow> f x)"

definition to_decoder_type :: "string \<Rightarrow> string + decoder_type" where
  "to_decoder_type t = (if t = ''SW'' then Inr DecoderSw else if t = ''NONE'' then Inr DecoderNone
     else Inl (''Unknown decoder type: '' @ t))"

definition to_encoder_type :: "string \<Rightarrow> string + encoder_type" where
  "to_encoder_type t = (if t = ''SW'' then Inr EncoderSw else if t = ''NONE'' then Inr EncoderNone
     else Inl (''Unknown encoder type: '' @ t))"

definition to_graphics_type :: "string \<Rightarrow> string + graphics_type" where
  "to_graphics_type t = (if t = ''HEADSET'' then Inr GraphicsHeadset
     else if t = ''DISPLAY'' then Inr GraphicsDisplay
     else if t = ''NONE'' then Inr GraphicsNone
     else Inl (''Unknown graphics type: '' @ t))"

definition to_gpio_type :: "string \<Rightarrow> string + gpio_type" where
  "to_gpio_type t = (if t = ''PIGPIO'' then Inr GpioPigpio else if t = ''NONE'' then Inr GpioNone
     else Inl (''Unknown gpio type: '' @ t))"

definition to_camera_type :: "string \<Rightarrow> string + camera_type" where
  "to_camera_type t = (if t = ''LIBCAMERA'' then Inr CameraLibcamera
     else if t = ''FAKE'' then Inr CameraFake
     else if t = ''STRING'' then Inr CameraString
     else Inl (''Unknown camera type: '' @ t))"

definition to_client_assignment_strategy :: "string \<Rightarrow> string + client_assignment" where
  "to_client_assignment_strategy t =
     (if t = ''CAMERA_THEN_HEADSET'' then Inr CAMERA_THEN_HEADSET
      else if t = ''IP_BOUNDS'' then Inr IP_BOUNDS
      else if t = ''ENDPOINT_PORT'' then Inr ENDPOINT_PORT
      else Inl (''Unknown ClientAssignmentStrategy: '' @ t))"

definition to_camera_switching_strategy :: "string \<Rightarrow> string + camera_switching" where
  "to_camera_switching_strategy t =
     (if t = ''MANUAL_ENTRY'' then Inr MANUAL_ENTRY
      else if t = ''AUTOMATIC_TIMER'' then Inr AUTOMATIC_TIMER
      else if t = ''HEADSET_CONTROLLED'' then Inr HEADSET_CONTROLLED
      else if t = ''NONE'' then Inr NO_SWITCHING
      else Inl (''Unknown CameraSwitchingStrategy: '' @ t))"

section \<open>The configurations\<close>

text \<open>The arguments in the order they are written; C++ leaves the order of their evaluation open, which
  only decides between the exceptions.\<close>

definition headset_main_config :: "('f \<Rightarrow> int) \<Rightarrow> 'f json \<Rightarrow> string + headset_config" where
  "headset_main_config fi j =
     or_throw (json_value get_string ''serverHost'' ''69.4.20.10'' j) (\<lambda>host.
     or_throw (json_value (get_int fi) ''serverPort'' 6969 j) (\<lambda>port.
     or_throw (json_value (get_int fi) ''clientTimeoutOnRead'' 3 j) (\<lambda>timeout.
     or_throw (json_value get_bool ''clientUseFixedPort'' False j) (\<lambda>fixed.
     or_throw (json_value get_string ''websocketServerHost'' ''69.4.20.10'' j) (\<lambda>whost.
     or_throw (json_value (get_int fi) ''websocketServerPort'' 8008 j) (\<lambda>wport.
     or_throw (json_value (get_int fi) ''imageWidth'' 1536 j) (\<lambda>w.
     or_throw (json_value (get_int fi) ''imageHeight'' 864 j) (\<lambda>h.
     or_throw (json_value (get_int fi) ''tcpReadBuffers'' 4 j) (\<lambda>reads.
     or_throw (json_value (get_int fi) ''decoderBuffersDownstream'' 4 j) (\<lambda>downstream.
     or_throw (or_throw (json_value get_string ''decoderType'' ''SW'' j) to_decoder_type) (\<lambda>dec.
     or_throw (or_throw (json_value get_string ''graphicsType'' ''GLFW'' j) to_graphics_type) (\<lambda>gfx.
     or_throw (or_throw (json_value get_string ''gpioType'' ''PIGPIO'' j) to_gpio_type) (\<lambda>gpio.
       Inr \<lparr>hc_tcp_server_host = host, hc_tcp_server_port = port, hc_tcp_client_timeout_on_read = timeout,
         hc_tcp_client_use_fixed_port = fixed, hc_tcp_read_buffers = reads,
         hc_websocket_server_host = whost, hc_websocket_server_port = wport, hc_decoder_type = dec,
         hc_decoder_buffers_downstream = nat downstream, hc_image_width_height = (nat w, nat h),
         hc_graphics_type = gfx, hc_gpio_type = gpio\<rparr>)))))))))))))"

definition display_main_config :: "('f \<Rightarrow> int) \<Rightarrow> 'f json \<Rightarrow> string + display_config" where
  "display_main_config fi j =
     or_throw (json_value get_string ''serverHost'' ''69.4.20.10'' j) (\<lambda>host.
     or_throw (json_value (get_int fi) ''serverPort'' 6969 j) (\<lambda>port.
     or_throw (json_value (get_int fi) ''clientTimeoutOnRead'' 3 j) (\<lambda>timeout.
     or_throw (json_value get_bool ''clientUseFixedPort'' False j) (\<lambda>fixed.
     or_throw (json_value get_string ''websocketServerHost'' ''69.4.20.10'' j) (\<lambda>whost.
     or_throw (json_value (get_int fi) ''websocketServerPort'' 8008 j) (\<lambda>wport.
     or_throw (json_value (get_int fi) ''imageWidth'' 1536 j) (\<lambda>w.
     or_throw (json_value (get_int fi) ''imageHeight'' 864 j) (\<lambda>h.
     or_throw (json_value (get_int fi) ''tcpReadBuffers'' 4 j) (\<lambda>reads.
     or_throw (json_value (get_int fi) ''decoderBuffersDownstream'' 4 j) (\<lambda>downstream.
     or_throw (or_throw (json_value get_string ''decoderType'' ''SW'' j) to_decoder_type) (\<lambda>dec.
     or_throw (or_throw (json_value get_string ''graphicsType'' ''DISPLAY'' j) to_graphics_type) (\<lambda>gfx.
     or_throw (json_value (get_int fi) ''displayRotateTimeout'' 10 j) (\<lambda>rotate.
       Inr \<lparr>dc_tcp_server_host = host, dc_tcp_server_port = port, dc_tcp_client_timeout_on_read = timeout,
         dc_tcp_client_use_fixed_port = fixed, dc_tcp_read_buffers = reads,
         dc_websocket_server_host = whost, dc_websocket_server_port = wport, dc_decoder_type = dec,
         dc_decoder_buffers_downstream = nat downstream, dc_image_width_height = (nat w, nat h),
         dc_graphics_type = gfx, dc_switch_automatic_timeout = rotate\<rparr>)))))))))))))"

text \<open>The two floating point settings of a camera are not kept.\<close>

definition camera_main_config :: "('f \<Rightarrow> int) \<Rightarrow> 'f json \<Rightarrow> string + camera_config" where
  "camera_main_config fi j =
     or_throw (json_value get_string ''serverHost'' ''69.4.20.10'' j) (\<lambda>host.
     or_throw (json_value (get_int fi) ''serverPort'' 6969 j) (\<lambda>port.
     or_throw (json_value get_bool ''clientUseFixedPort'' False j) (\<lambda>fixed.
     or_throw (or_throw (json_value get_string ''cameraType'' ''LIBCAMERA'' j) to_camera_type) (\<lambda>cam.
     or_throw (json_value (get_int fi) ''imageWidth'' 1536 j) (\<lambda>w.
     or_throw (json_value (get_int fi) ''imageHeight'' 864 j) (\<lambda>h.
     or_throw (or_throw (json_value get_string ''encoderType'' ''SW'' j) to_encoder_type) (\<lambda>enc.
     or_throw (json_value (get_int fi) ''encoderBuffersDownstream'' 4 j) (\<lambda>downstream.
       Inr \<lparr>cc_tcp_server_host = host, cc_tcp_server_port = port, cc_tcp_client_use_fixed_port = fixed,
         cc_camera_type = cam, cc_camera_width_height = (nat w, nat h), cc_encoder_type = enc,
         cc_encoder_buffers_downstream = nat downstream\<rparr>))))))))"

definition server_main_config :: "('f \<Rightarrow> int) \<Rightarrow> 'f json \<Rightarrow> string + server_config" where
  "server_main_config fi j =
     or_throw (json_value (get_int fi) ''tcpPoolSize'' 6 j) (\<lambda>threads.
     or_throw (json_value (get_int fi) ''serverPort'' 6969 j) (\<lambda>port.
     or_throw (json_value (get_int fi) ''serverTimeoutOnRead'' 3 j) (\<lambda>timeout.
     or_throw (json_value (get_int fi) ''cameraBuffersCount'' 8 j) (\<lambda>cameras.
     or_throw (json_value (get_int fi) ''headsetBuffersCount'' 5 j) (\<lambda>headsets.
     or_throw (json_value (get_int fi) ''cameraBufferSize'' 1990656 j) (\<lambda>buffer.
     or_throw (json_value (get_int fi) ''websocketPort'' 8008 j) (\<lambda>wport.
     or_throw (json_value (get_int fi) ''websocketTimeout'' 6 j) (\<lambda>wtimeout.
     or_throw (or_throw (json_value get_string ''serverClientAssignmentStrategy'' ''IP_BOUNDS'' j)
       to_client_assignment_strategy) (\<lambda>assign.
     or_throw (or_throw (json_value get_string ''serverCameraSwitchingStrategy'' ''HEADSET_CONTROLLED'' j)
       to_camera_switching_strategy) (\<lambda>switch.
     or_throw (json_value (get_int fi) ''serverCameraSwitchingAutomaticTimeout'' 45 j) (\<lambda>automatic.
       Inr \<lparr>get_asio_pool_size = threads, get_tcp_server_port = port, get_tcp_server_timeout = timeout,
         get_tcp_camera_session_buffer_count = cameras, get_tcp_headset_session_buffer_count = headsets,
         get_tcp_server_buffer_size = buffer, get_websocket_server_port = wport,
         get_websocket_server_timeout = wtimeout, get_server_client_assignment_strategy = assign,
         get_server_camera_switching_strategy = switch,
         get_server_camera_switching_automatic_timeout = automatic\<rparr>)))))))))))"

section \<open>What the programs accept\<close>

lemma or_throw_Inr: "or_throw r f = Inr y \<longleftrightarrow> (\<exists>x. r = Inr x \<and> f x = Inr y)"
  by (cases r) (auto simp: or_throw_def)

text \<open>The default of the headset's graphics is a name the program does not know: a
  configuration without \<open>graphicsType\<close> never starts a headset, whatever else it says. The other three
  programs start from an empty configuration, the display's and the camera's frames agreeing in size,
  and the server's buffers holding exactly one frame of it. No configuration makes the server switch by
  location, so that it is always created.\<close>

theorem defaults_of_the_programs:
  "(map_of kvs ''graphicsType'' = None \<longrightarrow> (\<exists>e. headset_main_config fi (JObject kvs) = Inl e)) \<and>
   (\<exists>d c s. display_main_config fi (JObject []) = Inr d \<and> camera_main_config fi (JObject []) = Inr c \<and>
      server_main_config fi (JObject []) = Inr s \<and>
      dc_image_width_height d = cc_camera_width_height c \<and>
      get_tcp_server_buffer_size s = dc_tcp_client_read_buffer_size d) \<and>
   (server_main_config fi j = Inr conf \<longrightarrow> (\<exists>server. ServerCreate conf = Inr server))"
proof -
  have "\<exists>e. headset_main_config fi (JObject kvs) = Inl e" if "map_of kvs ''graphicsType'' = None"
  proof -
    have "or_throw (json_value get_string ''graphicsType'' ''GLFW'' (JObject kvs)) to_graphics_type =
        Inl ''Unknown graphics type: GLFW''"
      using that by (simp add: json_value_def or_throw_def to_graphics_type_def)
    then have "headset_main_config fi (JObject kvs) \<noteq> Inr c" for c
      by (simp add: headset_main_config_def or_throw_Inr)
    then show ?thesis by (cases "headset_main_config fi (JObject kvs)") auto
  qed
  moreover have "\<exists>d c s. display_main_config fi (JObject []) = Inr d \<and> camera_main_config fi (JObject []) = Inr c \<and>
      server_main_config fi (JObject []) = Inr s \<and>
      dc_image_width_height d = cc_camera_width_height c \<and>
      get_tcp_server_buffer_size s = dc_tcp_client_read_buffer_size d"
    by (simp add: display_main_config_def camera_main_config_def server_main_config_def or_throw_def
        json_value_def to_decoder_type_def to_graphics_type_def to_camera_type_def to_encoder_type_def
        to_client_assignment_strategy_def to_camera_switching_strategy_def
        dc_tcp_client_read_buffer_size_def frame_size_def)
  moreover have "\<exists>server. ServerCreate conf = Inr server" if "server_main_config fi j = Inr conf"
  proof -
    from that have "get_server_camera_switching_strategy conf \<noteq> LOCATION_BASED"
      by (auto simp: server_main_config_def or_throw_Inr to_camera_switching_strategy_def split: if_splits)
    then show ?thesis
      by (cases "get_server_camera_switching_strategy conf") (simp_all add: ServerCreate_def assignStrategies_def)
  qed
  ultimately show ?thesis by blast
qed

theorem defaults_of_the_programs_witness:
  "\<exists>e. headset_main_config (\<lambda>_ :: unit. 0) (JObject [(''gpioType'', JString ''NONE'')]) = Inl e"
  using conjunct1 [OF defaults_of_the_programs [where kvs = "[(''gpioType'', JString ''NONE'')]"]] by simp

end
