(* ===== verification/System.thy ===== *)
theory System
  imports Headset_Life Display_Streamer Camera_Streamer Websocket_Life Websocket_Server Server_Streamer
    Connection_Delivery Libcamera_Camera App_Config
begin

text \<open>
  The programs together: a camera's frame on its way to a screen, a button press on its way to the routes
  of the server, and the ports by which the server knows its peers.
\<close>

section \<open>From the camera to the screen\<close>

text \<open>C2 (functional): the way of a frame. A camera with an idle encoder and a free buffer posts one image
  to the server; the server, in a consistent state, writes that image to every screen its routes feed
  from the camera; and a running headset of the same frame size that receives it draws the texture of
  its first free buffer, whose memory holds the rows the JPEG library decoded, at the places the camera
  had them: if the library lost nothing, the camera's frame. The buffer is free again afterwards.\<close>

theorem frame_reaches_screen:
  assumes camera: "cs_encoder cam = SwEncoderPart e" "\<not> enc_work_stop e" "enc_work_queue e = []"
      "enc_downstream e \<noteq> []"
    and server: "cm_synced (ss_manager ss)" "om_find (writer_sessions (ss_manager ss)) (sess_addr x) = Some x"
      "om_find (writer_connections (ss_manager ss)) (sess_addr x) = Some camera_addr"
    and decoder: "hs_decoder hs = SwDecoderPart d" "\<not> dec_work_stop d" "dec_work_queue d = []"
      "dec_downstream d = b # bs" "dec_width d = enc_width e" "dec_height d = enc_height e"
    and graphics: "hs_graphics hs = HeadsetPart g" "hg_is_ready g" "hg_state g = RUNNING"
      "hg_last_state g = RUNNING" "hg_is_display g" "\<And>fd t. hg_buffers g fd = Some t \<Longrightarrow> egl_fd t = fd"
    and sizes: "even (enc_width e)" "16 dvd enc_height e"
      "length frame = frame_size (enc_width e) (enc_height e)"
      "length (db_memory b) = frame_size (enc_width e) (enc_height e)"
    and jpeg: "header (compress (load_rows (enc_width e) (encoder_rows (enc_width e) (enc_height e)) frame))"
      "decompress (compress (load_rows (enc_width e) (encoder_rows (enc_width e) (enc_height e)) frame)) = Some rows"
  shows "\<exists>image hs1 t mem.
    cs_tcp (fst (camera_encode compress (camera_frame frame cam))) = client_Post image (cs_tcp cam) \<and>
    (x, image) \<in> set (PostCameraServerBuffer camera_addr image ss) \<and>
    PostHeadsetClientBuffer image hs = Some hs1 \<and>
    snd (headset_draw imported (fst (headset_decode header decompress hs1))) = Some (ImageTexture t) \<and>
    egl_fd t = db_fd b \<and>
    last (pool_of (fst (headset_draw imported (fst (headset_decode header decompress hs1))))) =
      b\<lparr>db_memory := mem\<rparr> \<and>
    mem = store_rows (enc_width e) (decoder_rows (enc_width e) (enc_height e)) rows (db_memory b) \<and>
    (rows = load_rows (enc_width e) (encoder_rows (enc_width e) (enc_height e)) frame \<longrightarrow> mem = frame)"
proof -
  define image where
    "image = compress (load_rows (enc_width e) (encoder_rows (enc_width e) (enc_height e)) frame)"
  define mem where
    "mem = store_rows (enc_width e) (decoder_rows (enc_width e) (enc_height e)) rows (db_memory b)"
  from camera_frame_posted [OF camera, of compress frame]
  have posted: "cs_tcp (fst (camera_encode compress (camera_frame frame cam))) = client_Post image (cs_tcp cam)"
    by (auto simp: image_def)
  have sent: "(x, image) \<in> set (PostCameraServerBuffer camera_addr image ss)"
    using post_message_screens [OF server(1), of camera_addr image] server(2,3)
    by (simp add: PostCameraServerBuffer_def)
  obtain hs1 t where drawn: "PostHeadsetClientBuffer image hs = Some hs1"
    "snd (headset_draw imported (fst (headset_decode header decompress hs1))) = Some (ImageTexture t)"
    "egl_fd t = db_fd b"
    "pool_of (fst (headset_draw imported (fst (headset_decode header decompress hs1)))) =
      bs @ hg_image_queue g @ [b\<lparr>db_memory := mem\<rparr>]"
    using frame_is_drawn [OF decoder(1-4), of header image decompress rows g imported] graphics decoder(5,6) jpeg
    unfolding image_def [symmetric] mem_def by auto
  have "rows = load_rows (enc_width e) (encoder_rows (enc_width e) (enc_height e)) frame \<longrightarrow> mem = frame"
    using codec_layout [OF sizes] by (simp add: mem_def)
  with posted sent drawn show ?thesis unfolding mem_def [symmetric] by auto
qed

definition demo_camera_streamer :: camera_streamer where
  "demo_camera_streamer = \<lparr>cs_is_started = True, cs_asio = asio_create 1, cs_tcp = hs_tcp demo_headset,
     cs_encoder = SwEncoderPart (StartEncoder (SwEncoder (\<lambda>_. 0) 2 16 2)), cs_camera = FakeCamera\<rparr>"

definition demo_running_headset :: headset_streamer where
  "demo_running_headset = demo_headset\<lparr>hs_decoder := SwDecoderPart (StartDecoder (demo_decoder 2)),
     hs_ws := (hs_ws demo_headset)\<lparr>wc_is_stopped := False, wc_ws := True\<rparr>,
     hs_state := (hs_state demo_headset)\<lparr>hd_state := RUNNING\<rparr>,
     hs_graphics := HeadsetPart (HeadsetGraphics\<lparr>hg_is_ready := True, hg_is_display := True,
       hg_state := RUNNING, hg_last_state := RUNNING\<rparr>)\<rparr>"

definition demo_routes :: server_streamer where
  "demo_routes = demo_server ENDPOINT_PORT NO_SWITCHING (cm_run demo_run cm_init)"

lemma demo_routes_facts:
  "cm_synced (ss_manager demo_routes)" "om_find (writer_sessions (ss_manager demo_routes)) 201 = Some scr2"
  "om_find (writer_connections (ss_manager demo_routes)) 201 = Some 100" "sess_addr scr2 = 201"
  using demo_synced by (simp_all add: demo_routes_def demo_server_def demo_defs cm_defs)

theorem frame_reaches_screen_witness:
  "\<exists>image hs1 (t :: egl_buffer). (scr2, image) \<in> set (PostCameraServerBuffer 100 image demo_routes) \<and>
    PostHeadsetClientBuffer image demo_running_headset = Some hs1 \<and>
    last (pool_of (fst (headset_draw (\<lambda>_. True) (fst (headset_decode (\<lambda>_. True)
      (\<lambda>_. Some (load_rows 2 (encoder_rows 2 16) (replicate 48 5))) hs1))))) =
      \<lparr>db_index = 0, db_fd = 0, db_memory = replicate 48 5\<rparr> \<and> egl_fd t = 0"
proof -
  let ?e = "StartEncoder (SwEncoder (\<lambda>_. 0) 2 16 2)"
  let ?b = "\<lparr>db_index = 0, db_fd = 0, db_memory = replicate 48 0\<rparr>"
  let ?g = "HeadsetGraphics\<lparr>hg_is_ready := True, hg_is_display := True, hg_state := RUNNING,
     hg_last_state := RUNNING\<rparr>"
  have e: "cs_encoder demo_camera_streamer = SwEncoderPart ?e" "\<not> enc_work_stop ?e" "enc_work_queue ?e = []"
    "enc_downstream ?e \<noteq> []" "enc_width ?e = 2" "enc_height ?e = 16"
    by (simp_all add: demo_camera_streamer_def StartEncoder_def SwEncoder_def upt_rec)
  have d: "hs_decoder demo_running_headset = SwDecoderPart (StartDecoder (demo_decoder 2))"
    "\<not> dec_work_stop (StartDecoder (demo_decoder 2))" "dec_work_queue (StartDecoder (demo_decoder 2)) = []"
    "dec_downstream (StartDecoder (demo_decoder 2)) = ?b #
       [\<lparr>db_index = 1, db_fd = 1, db_memory = replicate 48 0\<rparr>]"
    "dec_width (StartDecoder (demo_decoder 2)) = enc_width ?e"
    "dec_height (StartDecoder (demo_decoder 2)) = enc_height ?e"
    by (simp_all add: demo_running_headset_def demo_decoder_def StartDecoder_def StartEncoder_def SwEncoder_def upt_rec)
  have g: "hs_graphics demo_running_headset = HeadsetPart ?g" "hg_is_ready ?g" "hg_state ?g = RUNNING"
    "hg_last_state ?g = RUNNING" "hg_is_display ?g" "\<And>fd t. hg_buffers ?g fd = Some t \<Longrightarrow> egl_fd t = fd"
    by (simp_all add: demo_running_headset_def HeadsetGraphics_def)
  have z: "even (enc_width ?e)" "16 dvd enc_height ?e"
    "length (replicate 48 5 :: byte list) = frame_size (enc_width ?e) (enc_height ?e)"
    "length (db_memory ?b) = frame_size (enc_width ?e) (enc_height ?e)"
    by (simp_all add: e frame_size_def)
  have x: "om_find (writer_sessions (ss_manager demo_routes)) (sess_addr scr2) = Some scr2"
    "om_find (writer_connections (ss_manager demo_routes)) (sess_addr scr2) = Some 100"
    using demo_routes_facts by simp_all
  let ?rows = "load_rows 2 (encoder_rows 2 16) (replicate 48 5)"
  let ?pool = "\<lambda>hs1. pool_of (fst (headset_draw (\<lambda>_. True)
      (fst (headset_decode (\<lambda>_. True) (\<lambda>_. Some ?rows) hs1))))"
  note w = frame_reaches_screen [where compress = "\<lambda>_. [7]" and header = "\<lambda>_. True" and imported = "\<lambda>_. True"
      and frame = "replicate 48 5" and rows = ?rows and decompress = "\<lambda>_. Some ?rows",
      OF e(1-4) demo_routes_facts(1) x d g z TrueI refl, unfolded e(5,6)]
  obtain image hs1 and t :: egl_buffer and mem where r: "(scr2, image) \<in> set (PostCameraServerBuffer 100 image demo_routes)"
      "PostHeadsetClientBuffer image demo_running_headset = Some hs1" "egl_fd t = db_fd ?b"
      "last (?pool hs1) = ?b\<lparr>db_memory := mem\<rparr>" "?rows = ?rows \<longrightarrow> mem = replicate 48 5"
    using w by blast
  then show ?thesis by (intro exI [of _ image] exI [of _ hs1] exI [of _ t]) simp
qed

section \<open>From the button to the routes\<close>

lemma parse_own_message: "TryParseMessage fi (GetMessage m) = Some m"
  by (cases m) (simp_all add: TryParseMessage_def GetMessage_def json_at_def json_get_int_def
      MessageType_def to_int32_def)

text \<open>C4 (functional): the way of a button press. On a running headset whose websocket is idle, a push is
  one message on the websocket; when the server's session of that headset reads it, the message is
  accepted, the session reads on, and the screen of that address moves to the next camera of the routes.
  A hold does the same with the first camera, and puts the headset back into its ready state.\<close>

theorem button_moves_camera:
  assumes headset: "hd_state (hs_state s) = RUNNING" "\<not> wc_is_stopped (hs_ws s)" "wc_ws (hs_ws s)"
      "wc_send_queue (hs_ws s) = []"
    and json: "\<And>m. parse (dump (GetMessage m)) = Some (GetMessage m)" "\<And>m. dump (GetMessage m) \<noteq> []"
    and session: "wsv_objects v n = Some x" "wss_is_live x" "wss_connection_type x = HEADSET_CONNECTION"
      "wss_read_buffer x = []"
    and server: "cm_synced (ss_manager ss)"
    and action: "action \<in> {SINGLE_PUSH, SINGLE_HOLD}"
  shows "let message = (if action = SINGLE_HOLD then HeadsetResetCamera else HeadsetRotateCamera);
      payload = dump (GetMessage message); pressed = headset_button dump bind_ok action s;
      received = wss_onRead parse (\<lambda>t a js. snd (PostWebsocketMessage fi t a js ss)) n False payload v
    in snd pressed = [PostWrite payload] \<and>
      snd (wc_write payload (hs_ws (fst pressed))) = [AsyncWrite (wc_session (hs_ws s)) payload] \<and>
      snd received = ([SessionRead n], Some (HEADSET_CONNECTION, wss_addr x, GetMessage message)) \<and>
      router_of (ss_manager (fst (PostWebsocketMessage fi HEADSET_CONNECTION (wss_addr x) (GetMessage message) ss))) =
        router_step ids (if action = SINGLE_HOLD then Reset (wss_addr x) else Rotate (wss_addr x))
          (router_of (ss_manager ss)) \<and>
      hd_state (hs_state (fst pressed)) = (if action = SINGLE_HOLD then READY else RUNNING)"
proof -
  define message where "message = (if action = SINGLE_HOLD then HeadsetResetCamera else HeadsetRotateCamera)"
  define payload where "payload = dump (GetMessage message)"
  define pressed where "pressed = headset_button dump bind_ok action s"
  have button: "snd pressed = [PostWrite payload]" "hs_ws (fst pressed) = hs_ws s"
    "hd_state (hs_state (fst pressed)) = (if action = SINGLE_HOLD then READY else RUNNING)"
    using headset(1,2) action
    by (auto simp: pressed_def payload_def message_def headset_button_def doStateChange_def
        handleStateChange_def PostState_def GetState_def PostWebsocketClientMessage_def Let_def)
  have written: "snd (wc_write payload (hs_ws (fst pressed))) = [AsyncWrite (wc_session (hs_ws s)) payload]"
    using headset by (simp add: button(2) wc_write_def wc_doWrite_def wc_stale_def Let_def)
  have moved: "snd (PostWebsocketMessage fi HEADSET_CONNECTION (wss_addr x) (GetMessage message) ss)"
    "router_of (ss_manager (fst (PostWebsocketMessage fi HEADSET_CONNECTION (wss_addr x) (GetMessage message) ss))) =
        router_step ids (if action = SINGLE_HOLD then Reset (wss_addr x) else Rotate (wss_addr x))
          (router_of (ss_manager ss))"
    using message_moves_screen [OF server, where fi = fi and ctype = HEADSET_CONNECTION
        and addr = "wss_addr x" and js = "GetMessage message" and ids = ids]
    by (auto simp: parse_own_message message_def split: prod.splits)
  have "snd (wss_onRead parse (\<lambda>t a js. snd (PostWebsocketMessage fi t a js ss)) n False payload v) =
      ([SessionRead n], Some (HEADSET_CONNECTION, wss_addr x, GetMessage message))"
    using session json moved(1)
    by (simp add: wss_onRead_def payload_def wss_read_def is_live_def set_object_def Let_def)
  with button written moved show ?thesis
    unfolding Let_def message_def [symmetric] payload_def [symmetric] pressed_def [symmetric] by blast
qed

theorem button_moves_camera_witness:
  "feed (router_of (ss_manager (fst (PostWebsocketMessage (\<lambda>_ :: unit. 0) HEADSET_CONNECTION 201
      (GetMessage HeadsetRotateCamera) demo_routes)))) 201 = Some 101"
proof -
  let ?dump = "\<lambda>j :: unit json. if j = GetMessage HeadsetRotateCamera then ''0'' else ''1''"
  let ?parse = "\<lambda>b. Some (GetMessage (if b = ''0'' then HeadsetRotateCamera else HeadsetResetCamera) :: unit json)"
  let ?x = "\<lparr>wss_connection_type = HEADSET_CONNECTION, wss_addr = 201, wss_is_live = True, wss_read_buffer = []\<rparr>"
  let ?v = "WebsocketServer\<lparr>wsv_objects := [1 \<mapsto> ?x]\<rparr>"
  have h: "hd_state (hs_state demo_running_headset) = RUNNING" "\<not> wc_is_stopped (hs_ws demo_running_headset)"
    "wc_ws (hs_ws demo_running_headset)" "wc_send_queue (hs_ws demo_running_headset) = []"
    by (simp_all add: demo_running_headset_def demo_headset_parts WebsocketClient_def)
  have j: "?parse (?dump (GetMessage m)) = Some (GetMessage m)" "?dump (GetMessage m) \<noteq> []" for m
    by (cases m; simp add: GetMessage_def MessageType_def)+
  have x: "wsv_objects ?v 1 = Some ?x" "wss_is_live ?x" "wss_connection_type ?x = HEADSET_CONNECTION"
    "wss_read_buffer ?x = []" by simp_all
  have "router_of (ss_manager (fst (PostWebsocketMessage (\<lambda>_ :: unit. 0) HEADSET_CONNECTION 201
      (GetMessage HeadsetRotateCamera) demo_routes))) = router_step demo_ids (Rotate 201) (router_of (ss_manager demo_routes))"
    using button_moves_camera [where parse = ?parse and dump = ?dump and action = SINGLE_PUSH and ids = demo_ids
        and fi = "\<lambda>_. 0" and bind_ok = True, OF h j x demo_routes_facts(1)]
    by (simp add: Let_def del: router_step.simps)
  then show ?thesis by (simp add: demo_routes_def demo_server_def demo_defs cm_defs next_camera_def)
qed

section \<open>Who the server takes a peer for\<close>

text \<open>The clients' fixed ports are those the server knows: with the assignment by port, both
  connections of a client that uses fixed ports are taken for what it is, and every other port is refused.
  With the assignment camera-then-headset, once a camera and a screen are registered, the websocket of
  that screen is refused: its socket is shut down, and no session is made of it.\<close>

theorem peers_are_classified:
  assumes "t \<noteq> UNKNOWN_CONNECTION"
  shows "(get_server_client_assignment_strategy (ss_conf s) = ENDPOINT_PORT \<longrightarrow>
      GetConnectionType s \<lparr>ep_addr = a, ep_port = fixed_port t\<rparr> = t \<and>
      GetConnectionType s \<lparr>ep_addr = a, ep_port = ucast (websocket_port t)\<rparr> = t \<and>
      (GetConnectionType s \<lparr>ep_addr = a, ep_port = p\<rparr> \<noteq> UNKNOWN_CONNECTION \<longleftrightarrow>
        (\<exists>t'. t' \<noteq> UNKNOWN_CONNECTION \<and> (p = fixed_port t' \<or> p = ucast (websocket_port t'))))) \<and>
    (get_server_client_assignment_strategy (ss_conf s) = CAMERA_THEN_HEADSET \<longrightarrow>
      cm_synced (ss_manager s) \<longrightarrow> reader_sessions (ss_manager s) \<noteq> [] \<longrightarrow>
      writer_sessions (ss_manager s) \<noteq> [] \<longrightarrow> \<not> wsv_is_stopped v \<longrightarrow>
      wsv_onAccept (GetConnectionType s) False (Some ep) v = (v, [ShutdownSocket, AcceptNext]))"
proof -
  have ports: "GetConnectionType s \<lparr>ep_addr = a, ep_port = fixed_port t\<rparr> = t"
    "GetConnectionType s \<lparr>ep_addr = a, ep_port = ucast (websocket_port t)\<rparr> = t"
    if "get_server_client_assignment_strategy (ss_conf s) = ENDPOINT_PORT"
    using that assms
    by (cases t; simp add: GetConnectionType_def ConnectionAssignEndpointPort_def fixed_port_def
        websocket_port_def Let_def)+
  have others: "GetConnectionType s \<lparr>ep_addr = a, ep_port = p\<rparr> \<noteq> UNKNOWN_CONNECTION \<longleftrightarrow>
      (\<exists>t'. t' \<noteq> UNKNOWN_CONNECTION \<and> (p = fixed_port t' \<or> p = ucast (websocket_port t')))"
    if "get_server_client_assignment_strategy (ss_conf s) = ENDPOINT_PORT"
  proof -
    have all: "(\<exists>t'. t' \<noteq> UNKNOWN_CONNECTION \<and> P t') \<longleftrightarrow>
        P CAMERA_CONNECTION \<or> P HEADSET_CONNECTION \<or> P DISPLAY_CONNECTION" for P
      by (metis connection_type.exhaust connection_type.distinct(5,9,11))
    show ?thesis
      unfolding all using that
      by (auto simp: GetConnectionType_def ConnectionAssignEndpointPort_def fixed_port_def
          websocket_port_def Let_def)
  qed
  have "wsv_onAccept (GetConnectionType s) False (Some ep) v = (v, [ShutdownSocket, AcceptNext])"
    if "get_server_client_assignment_strategy (ss_conf s) = CAMERA_THEN_HEADSET"
      "cm_synced (ss_manager s)" "reader_sessions (ss_manager s) \<noteq> []"
      "writer_sessions (ss_manager s) \<noteq> []" "\<not> wsv_is_stopped v"
    using that synced_no_connection_iff [OF that(2)]
    by (simp add: wsv_onAccept_def wsv_acceptConnections_def GetConnectionType_def
        ConnectionAssignCameraThenHeadset_def GetConnectionCounts_def)
  with ports others show ?thesis by blast
qed

theorem peers_are_classified_witness:
  "GetConnectionType demo_routes \<lparr>ep_addr = 7, ep_port = ucast (websocket_port DISPLAY_CONNECTION)\<rparr> =
     DISPLAY_CONNECTION"
  using peers_are_classified [of DISPLAY_CONNECTION demo_routes 7]
  by (simp add: demo_routes_def demo_server_def)

end
