(* ===== verification/Ownership.thy ===== *)
theory Ownership
  imports Prelude
begin

text \<open>
  What \<open>Unset\<close> of the four services is for. The parts of a service are held by \<open>shared_ptr\<close> fields, and
  most of them hold the service in turn, as their manager or in the callback they were made with; \<open>Unset\<close>
  resets fields to break these cycles. A state is the list of owning pointers, by owner and owned part;
  a part dies when nothing owns it and its own pointers go with it.
\<close>

section \<open>Reference counting\<close>

datatype part =
    MainFunction | Service | AsioPart | TcpClientPart | WebsocketClientPart | GraphicsPart | DecoderPart
  | EncoderPart | CameraPart | GpioPart | TcpServerPart | WebsocketServerPart | SessionPart nat

type_synonym owners = "(part \<times> part) list"

text \<open>Parts nobody owns are destroyed, until there are none. The pointers of \<open>main\<close> are local variables.\<close>

definition unowned :: "owners \<Rightarrow> part list" where
  "unowned h = filter (\<lambda>a. a \<noteq> MainFunction \<and> a \<notin> snd ` set h) (map fst h)"

lemma unowned_Cons: "unowned h = a # as \<Longrightarrow> a \<noteq> MainFunction \<and> a \<notin> snd ` set h \<and> a \<in> fst ` set h"
proof -
  assume "unowned h = a # as"
  then have "a \<in> set (unowned h)" by simp
  then show ?thesis by (auto simp: unowned_def)
qed

lemma filter_owner_less: "a \<in> fst ` set h \<Longrightarrow> length (filter (\<lambda>(x, y). x \<noteq> a) h) < length h"
  by (auto intro!: length_filter_less)

function release :: "owners \<Rightarrow> owners" where
  "release h = (case unowned h of [] \<Rightarrow> h | a # _ \<Rightarrow> release (filter (\<lambda>(x, y). x \<noteq> a) h))"
  by pat_completeness auto

termination
  by (relation "measure length") (auto dest!: unowned_Cons intro!: filter_owner_less)

declare release.simps [simp del]

text \<open>\<open>reset()\<close> of a field of the service, and the end of \<open>main\<close>.\<close>

definition reset_field :: "part \<Rightarrow> owners \<Rightarrow> owners" where
  "reset_field p h = release (removeAll (Service, p) h)"

definition leave_main :: "owners \<Rightarrow> owners" where
  "leave_main h = release (removeAll (MainFunction, Service) h)"

section \<open>What is left\<close>

lemma release_induct [case_names Done Drop]:
  assumes "\<And>h. unowned h = [] \<Longrightarrow> P h"
    and "\<And>h a. a \<noteq> MainFunction \<Longrightarrow> a \<notin> snd ` set h \<Longrightarrow> P (filter (\<lambda>(x, y). x \<noteq> a) h) \<Longrightarrow>
      release h = release (filter (\<lambda>(x, y). x \<noteq> a) h) \<Longrightarrow> P h"
  shows "P h"
proof (induction h rule: release.induct)
  case (1 h)
  show ?case
  proof (cases "unowned h")
    case (Cons a as)
    have "release h = release (filter (\<lambda>(x, y). x \<noteq> a) h)" using Cons by (subst release.simps) simp
    with unowned_Cons [OF Cons] show ?thesis using assms(2) [of a h] 1 [OF Cons] by blast
  qed (rule assms(1))
qed

lemma release_subset: "set (release h) \<subseteq> set h"
proof (induction h rule: release_induct)
  case (Done h)
  then show ?case by (subst release.simps) simp
qed auto

lemma release_owned:
  assumes "(a, b) \<in> set (release h)" "a \<noteq> MainFunction"
  shows "\<exists>c. (c, a) \<in> set (release h)"
  using assms(1)
proof (induction h rule: release_induct)
  case (Done h)
  then have "release h = h" by (subst release.simps) simp
  with Done assms(2) have "a \<in> set (map fst h)" by force
  moreover have "a \<notin> set (unowned h)" using Done by simp
  ultimately have "a \<in> snd ` set h" using assms(2) by (auto simp: unowned_def)
  then show ?case using \<open>release h = h\<close> by force
qed simp

text \<open>Parts that own each other in a circle stay, whatever else is destroyed.\<close>

lemma release_keeps_cycles:
  assumes "\<forall>b \<in> S. \<exists>a \<in> S. (a, b) \<in> set h" "a \<in> S" "(a, b) \<in> set h"
  shows "(a, b) \<in> set (release h)"
  using assms
proof (induction h rule: release_induct)
  case (Done h)
  then show ?case by (subst release.simps) simp
next
  case (Drop h c)
  have "c \<notin> S" using Drop.hyps(2) Drop.prems(1) by force
  then have "\<forall>b \<in> S. \<exists>a \<in> S. (a, b) \<in> set (filter (\<lambda>(x, y). x \<noteq> c) h)" using Drop.prems(1) by force
  with Drop \<open>c \<notin> S\<close> show ?case by auto
qed

text \<open>Without circles, and without \<open>main\<close>, nothing stays.\<close>

lemma release_ranked:
  fixes rank :: "part \<Rightarrow> nat"
  assumes "\<forall>(a, b) \<in> set h. a \<noteq> MainFunction \<and> rank a < rank b"
  shows "release h = []"
proof (rule ccontr)
  assume "release h \<noteq> []"
  then obtain e where "e \<in> set (release h)" by (cases "release h") auto
  then have "\<exists>a. a \<in> fst ` set (release h)" by auto
  then obtain a where a: "a \<in> fst ` set (release h)" "\<And>c. c \<in> fst ` set (release h) \<Longrightarrow> rank a \<le> rank c"
    using ex_has_least_nat [of "\<lambda>a. a \<in> fst ` set (release h)" _ rank] by blast
  then obtain b where b: "(a, b) \<in> set (release h)" by auto
  with assms release_subset [of h] have "a \<noteq> MainFunction" by fastforce
  with release_owned [OF b] obtain c where c: "(c, a) \<in> set (release h)" by blast
  with assms release_subset [of h] have "rank c < rank a" by fastforce
  with a(2) [of c] c show False by force
qed

section \<open>The services\<close>

text \<open>After a stop: the fields of the service, the pointers back, and \<open>pending\<close>, the pointers that handlers
  still waiting in the context and buffers still on their way have.\<close>

definition headset_owners :: owners where
  "headset_owners = [(MainFunction, Service), (Service, AsioPart), (Service, TcpClientPart),
     (Service, WebsocketClientPart), (Service, GraphicsPart), (Service, DecoderPart), (Service, GpioPart),
     (TcpClientPart, Service), (WebsocketClientPart, Service), (DecoderPart, Service), (GpioPart, Service)]"

definition headset_Unset :: "owners \<Rightarrow> owners" where
  "headset_Unset h = reset_field GpioPart (reset_field DecoderPart (reset_field GraphicsPart (reset_field AsioPart
     (reset_field WebsocketClientPart (reset_field TcpClientPart h)))))"

definition display_owners :: owners where
  "display_owners = [(MainFunction, Service), (Service, AsioPart), (Service, TcpClientPart),
     (Service, WebsocketClientPart), (Service, GraphicsPart), (Service, DecoderPart),
     (TcpClientPart, Service), (WebsocketClientPart, Service), (DecoderPart, Service)]"

definition display_Unset :: "owners \<Rightarrow> owners" where
  "display_Unset h = reset_field DecoderPart (reset_field GraphicsPart (reset_field AsioPart
     (reset_field WebsocketClientPart (reset_field TcpClientPart h))))"

definition camera_owners :: owners where
  "camera_owners = [(MainFunction, Service), (Service, CameraPart), (Service, EncoderPart), (Service, AsioPart),
     (Service, TcpClientPart), (TcpClientPart, Service), (EncoderPart, Service), (CameraPart, Service)]"

definition camera_Unset :: "owners \<Rightarrow> owners" where
  "camera_Unset h = reset_field CameraPart (reset_field AsioPart (reset_field TcpClientPart h))"

definition server_owners :: owners where
  "server_owners = [(MainFunction, Service), (Service, AsioPart), (Service, TcpServerPart), (Service, WebsocketServerPart),
     (TcpServerPart, Service), (WebsocketServerPart, Service)]"

definition server_Unset :: "owners \<Rightarrow> owners" where
  "server_Unset h = reset_field AsioPart (reset_field TcpServerPart (reset_field WebsocketServerPart h))"

text \<open>Handlers hold clients, servers and sessions; images shown hold the decoder, images being sent the encoder,
  whose own queue of camera frames its stop has emptied; a websocket session holds its server.\<close>

fun pending_edge :: "part \<times> part \<Rightarrow> bool" where
  "pending_edge (AsioPart, b) \<longleftrightarrow> (case b of TcpClientPart \<Rightarrow> True | WebsocketClientPart \<Rightarrow> True | TcpServerPart \<Rightarrow> True
     | WebsocketServerPart \<Rightarrow> True | SessionPart _ \<Rightarrow> True | _ \<Rightarrow> False)"
| "pending_edge (GraphicsPart, b) \<longleftrightarrow> b = DecoderPart"
| "pending_edge (TcpClientPart, b) \<longleftrightarrow> b = EncoderPart"
| "pending_edge (SessionPart i, b) \<longleftrightarrow> b = WebsocketServerPart"
| "pending_edge _ \<longleftrightarrow> False"

fun part_rank :: "part \<Rightarrow> nat" where
  "part_rank AsioPart = 0"
| "part_rank GraphicsPart = 0"
| "part_rank (SessionPart i) = 1"
| "part_rank TcpClientPart = 1"
| "part_rank EncoderPart = 2"
| "part_rank Service = 4"
| "part_rank _ = 3"

lemma pending_edge_rank: "pending_edge (a, b) \<Longrightarrow> a \<noteq> MainFunction \<and> a \<noteq> Service \<and> part_rank a < part_rank b"
  by (cases a) (auto split: part.splits)

lemma pending_edge_ends:
  "pending_edge (a, b) \<Longrightarrow> (a = AsioPart \<or> a = GraphicsPart \<and> b = DecoderPart \<or> a = TcpClientPart \<and> b = EncoderPart \<or>
     (\<exists>i. a = SessionPart i)) \<and> b \<notin> {AsioPart, GraphicsPart, CameraPart, Service, MainFunction} \<and>
     (b \<in> {TcpClientPart, WebsocketClientPart} \<union> range SessionPart \<longrightarrow> a = AsioPart)"
  by (cases a) (auto split: part.splits)

section \<open>Unset breaks the circles, but one\<close>

lemma reset_field_subset: "set (reset_field p h) \<subseteq> set h - {(Service, p)}"
  using release_subset [of "removeAll (Service, p) h"] by (auto simp: reset_field_def)

lemma leave_main_empty:
  assumes "set h \<subseteq> E \<union> set pending" "list_all pending_edge pending"
    and "\<forall>(a, b) \<in> E. a = MainFunction \<and> b = Service \<or> a \<noteq> MainFunction \<and> part_rank a < part_rank b"
  shows "leave_main h = []"
  unfolding leave_main_def
proof (rule release_ranked [where rank = part_rank], clarify)
  fix a b
  assume e: "(a, b) \<in> set (removeAll (MainFunction, Service) h)"
  then consider "(a, b) \<in> E" | "pending_edge (a, b)" using assms(1,2) by (auto simp: list_all_iff)
  then show "a \<noteq> MainFunction \<and> part_rank a < part_rank b"
    using e assms(3) pending_edge_rank by cases auto
qed

text \<open>The pointers back to the service.\<close>

definition back_edges :: "(part \<times> part) set" where
  "back_edges = {(MainFunction, Service), (TcpClientPart, Service), (WebsocketClientPart, Service),
     (DecoderPart, Service), (GpioPart, Service), (TcpServerPart, Service), (WebsocketServerPart, Service)}"

lemma pending_not_service: "list_all pending_edge pending \<Longrightarrow> (Service, p) \<notin> set pending"
  by (auto simp: list_all_iff)

lemma unset_frees:
  assumes "list_all pending_edge pending"
  shows "leave_main (headset_Unset (headset_owners @ pending)) = []"
    "leave_main (display_Unset (display_owners @ pending)) = []"
    "leave_main (server_Unset (server_owners @ pending)) = []"
proof -
  note sub = subset_trans [OF reset_field_subset Diff_mono [OF _ subset_refl]]
  have "set (headset_Unset (headset_owners @ pending)) \<subseteq> back_edges \<union> set pending"
    unfolding headset_Unset_def by (rule subset_trans [OF sub [OF sub [OF sub [OF sub [OF sub [OF reset_field_subset]]]]]])
      (auto simp: headset_owners_def back_edges_def)
  moreover have "set (display_Unset (display_owners @ pending)) \<subseteq> back_edges \<union> set pending"
    unfolding display_Unset_def by (rule subset_trans [OF sub [OF sub [OF sub [OF sub [OF reset_field_subset]]]]])
      (auto simp: display_owners_def back_edges_def)
  moreover have "set (server_Unset (server_owners @ pending)) \<subseteq> back_edges \<union> set pending"
    unfolding server_Unset_def by (rule subset_trans [OF sub [OF sub [OF reset_field_subset]]])
      (auto simp: server_owners_def back_edges_def)
  ultimately show "leave_main (headset_Unset (headset_owners @ pending)) = []"
    "leave_main (display_Unset (display_owners @ pending)) = []"
    "leave_main (server_Unset (server_owners @ pending)) = []"
    using leave_main_empty [OF _ assms, of _ back_edges] by (simp_all add: back_edges_def)
qed

text \<open>C24 (safety): when a headset, a display or a server returns from \<open>main\<close> after its \<open>Unset\<close>, every part of it
  is destroyed, whatever handlers and images were still on their way; without the \<open>Unset\<close> the service and
  the client or server that points back to it would stay for ever.\<close>

theorem unset_destroys_every_part:
  assumes "list_all pending_edge pending"
  shows "leave_main (headset_Unset (headset_owners @ pending)) = [] \<and>
    leave_main (display_Unset (display_owners @ pending)) = [] \<and>
    leave_main (server_Unset (server_owners @ pending)) = [] \<and>
    (Service, TcpClientPart) \<in> set (leave_main (headset_owners @ pending)) \<and>
    (Service, TcpClientPart) \<in> set (leave_main (display_owners @ pending)) \<and>
    (Service, TcpServerPart) \<in> set (leave_main (server_owners @ pending))"
proof -
  have "(Service, p) \<in> set (leave_main h)" if "(Service, p) \<in> set h" "(p, Service) \<in> set h" "p \<noteq> MainFunction" for p h
    unfolding leave_main_def by (rule release_keeps_cycles [of "{Service, p}"]) (use that in auto)
  then show ?thesis
    using unset_frees [OF assms] by (simp add: headset_owners_def display_owners_def server_owners_def)
qed

theorem unset_destroys_every_part_witness:
  "leave_main (headset_Unset (headset_owners @ [(AsioPart, TcpClientPart), (GraphicsPart, DecoderPart)])) = []"
  using unset_destroys_every_part [of "[(AsioPart, TcpClientPart), (GraphicsPart, DecoderPart)]"] by simp

text \<open>The service and the encoder, which own each other.\<close>

definition encoder_cycle :: "(part \<times> part) set" where
  "encoder_cycle = {(Service, EncoderPart), (EncoderPart, Service)}"

lemma encoder_cycle_kept: "encoder_cycle \<subseteq> set h \<Longrightarrow> e \<notin> encoder_cycle \<Longrightarrow> encoder_cycle \<subseteq> set (release (removeAll e h))"
  using release_keeps_cycles [of "{Service, EncoderPart}" "removeAll e h"] by (auto simp: encoder_cycle_def)

lemma encoder_cycle_reset: "encoder_cycle \<subseteq> set h \<Longrightarrow> p \<noteq> EncoderPart \<Longrightarrow> encoder_cycle \<subseteq> set (reset_field p h)"
  unfolding reset_field_def by (rule encoder_cycle_kept) (simp_all add: encoder_cycle_def)

text \<open>The camera's \<open>Unset\<close> forgets the encoder, whose callback owns the service: when \<open>main\<close> returns
  these two stay, and own each other, while everything else is destroyed.\<close>

theorem camera_unset_leaves_encoder:
  assumes "list_all pending_edge pending"
  shows "set (leave_main (camera_Unset (camera_owners @ pending))) = encoder_cycle"
proof
  let ?h = "camera_Unset (camera_owners @ pending)"
  have "encoder_cycle \<subseteq> set ?h"
    unfolding camera_Unset_def by (intro encoder_cycle_reset) (simp_all add: camera_owners_def encoder_cycle_def)
  then show "encoder_cycle \<subseteq> set (leave_main ?h)"
    unfolding leave_main_def by (rule encoder_cycle_kept) (simp add: encoder_cycle_def)
  note sub = subset_trans [OF reset_field_subset Diff_mono [OF _ subset_refl]]
  have "set ?h \<subseteq> {(MainFunction, Service), (Service, EncoderPart), (TcpClientPart, Service), (EncoderPart, Service),
      (CameraPart, Service)} \<union> set pending"
    unfolding camera_Unset_def
    by (rule subset_trans [OF sub [OF sub [OF reset_field_subset]]])
       (auto simp: camera_owners_def)
  then have all: "(a, b) \<in> {(Service, EncoderPart), (TcpClientPart, Service), (EncoderPart, Service), (CameraPart, Service)} \<or>
      pending_edge (a, b)" if "(a, b) \<in> set (leave_main ?h)" for a b
    using that release_subset [of "removeAll (MainFunction, Service) ?h"] assms
    by (auto simp: leave_main_def list_all_iff)
  have owned: "\<exists>c. (c, a) \<in> set (leave_main ?h)" if "(a, b) \<in> set (leave_main ?h)" for a b
    using release_owned that all [OF that] by (fastforce simp: leave_main_def)
  have root: "(a, b) \<notin> set (leave_main ?h)" if "a \<in> {AsioPart, GraphicsPart, CameraPart}" for a b
    using owned [of a b] all [of _ a] pending_edge_ends [of _ a] that by blast
  have inner: "(a, b) \<notin> set (leave_main ?h)" if "a \<in> {TcpClientPart} \<union> range SessionPart" for a b
  proof
    assume "(a, b) \<in> set (leave_main ?h)"
    with owned obtain c where c: "(c, a) \<in> set (leave_main ?h)" by blast
    with all [OF c] pending_edge_ends [of c a] that have "c = AsioPart" by auto
    with c root [of c a] show False by simp
  qed
  show "set (leave_main ?h) \<subseteq> encoder_cycle"
  proof
    fix e
    assume "e \<in> set (leave_main ?h)"
    moreover obtain a b where "e = (a, b)" by (cases e)
    ultimately show "e \<in> encoder_cycle"
      unfolding encoder_cycle_def using all [of a b] pending_edge_ends [of a b] root [of a b] inner [of a b] by blast
  qed
qed

theorem camera_unset_leaves_encoder_witness:
  "(Service, EncoderPart) \<in> set (leave_main (camera_Unset (camera_owners @ [(TcpClientPart, EncoderPart)])))"
  using camera_unset_leaves_encoder [of "[(TcpClientPart, EncoderPart)]"] by (simp add: encoder_cycle_def)

end
