(* ===== verification/Runtime.thy ===== *)
theory Runtime
  imports App_Config Headset_Life Ownership
begin

text \<open>
  \<open>src/application/runtime.cpp\<close> and the \<open>main\<close> functions of the four programs: the file that tells the system
  (\<open>src/system/restart-system.service\<close>) that a program ended as it should, the wait for a signal, and the
  way from the configuration through the life of the service to the end of \<open>main\<close>. What signals arrive and
  whether the file can be written is the environment.
\<close>

section \<open>Waiting for a signal\<close>

datatype signal = SIGINT | SIGTERM | SIGHUP

text \<open>The handler sets \<open>exit\<close>, the other only prints.\<close>

definition signal_handler :: "signal \<Rightarrow> bool \<Rightarrow> bool" where
  "signal_handler sig exit = (case sig of SIGINT \<Rightarrow> True | SIGTERM \<Rightarrow> True | SIGHUP \<Rightarrow> exit)"

text \<open>The loop looks at \<open>exit\<close> once a second. \<open>None\<close>: it is still waiting after the seconds given, each with
  the signals that arrived in it; otherwise the number of seconds slept.\<close>

fun wait_loop :: "bool \<Rightarrow> signal list list \<Rightarrow> nat option" where
  "wait_loop exit seconds =
     (if exit then Some 0
      else case seconds of
          [] \<Rightarrow> None
        | sigs # rest \<Rightarrow> map_option Suc (wait_loop (fold signal_handler sigs exit) rest))"

definition WaitForShutdown :: "signal list list \<Rightarrow> nat option" where
  "WaitForShutdown seconds = wait_loop False seconds"

declare wait_loop.simps [simp del]

section \<open>The file\<close>

definition RemoveSuccessFile :: "bool \<Rightarrow> bool" where
  "RemoveSuccessFile stop_file = False"

definition CreateSuccessFile :: "bool \<Rightarrow> bool \<Rightarrow> bool" where
  "CreateSuccessFile writable stop_file = (stop_file \<or> writable)"

section \<open>A program\<close>

text \<open>How a program stands: an exception has left \<open>main\<close>, a signal that arrived before the handlers were
  installed has ended it, it still waits, stopping never returns, or \<open>main\<close> has returned.\<close>

datatype 's program_end = Threw string | KilledEarly | StillWaiting 's | StopHangs 's | Returned 's

text \<open>\<open>main\<close> over the operations of its service: \<open>live\<close> is what happens to the service between its start and
  its stop, \<open>early\<close> the signals before the wait, \<open>seconds\<close> those during it.\<close>

definition run_main ::
    "string + 'c \<Rightarrow> ('c \<Rightarrow> string + 's) \<Rightarrow> ('s \<Rightarrow> string + 's) \<Rightarrow> ('s \<Rightarrow> 's) \<Rightarrow> ('s \<Rightarrow> 's option) \<Rightarrow> ('s \<Rightarrow> 's) \<Rightarrow>
     signal list \<Rightarrow> signal list list \<Rightarrow> bool \<Rightarrow> bool \<Rightarrow> bool \<times> 's program_end" where
  "run_main config create start live stop unset early seconds writable stop_file =
     (let stop_file = RemoveSuccessFile stop_file in
      case or_throw config (\<lambda>c. or_throw (create c) start) of
        Inl e \<Rightarrow> (stop_file, Threw e)
      | Inr s \<Rightarrow>
          if early \<noteq> [] then (stop_file, KilledEarly)
          else (case WaitForShutdown seconds of
              None \<Rightarrow> (stop_file, StillWaiting (live s))
            | Some _ \<Rightarrow> (case stop (live s) of
                  None \<Rightarrow> (stop_file, StopHangs (live s))
                | Some s1 \<Rightarrow> (CreateSuccessFile writable stop_file, Returned (unset s1)))))"

lemma wait_loop_ends: "wait_loop exit seconds \<noteq> None \<longleftrightarrow> exit \<or> (\<exists>sigs \<in> set seconds. SIGINT \<in> set sigs \<or> SIGTERM \<in> set sigs)"
proof (induction exit seconds rule: wait_loop.induct)
  case (1 exit seconds)
  have "fold signal_handler sigs e \<longleftrightarrow> e \<or> SIGINT \<in> set sigs \<or> SIGTERM \<in> set sigs" for sigs e
    by (induction sigs arbitrary: e) (auto simp: signal_handler_def split: signal.splits)
  with 1 show ?case by (cases seconds) (auto simp: wait_loop.simps [of exit])
qed

lemma wait_ends: "WaitForShutdown seconds \<noteq> None \<longleftrightarrow> (\<exists>sigs \<in> set seconds. SIGINT \<in> set sigs \<or> SIGTERM \<in> set sigs)"
  unfolding WaitForShutdown_def wait_loop_ends by simp


section \<open>The four programs\<close>

text \<open>The state is that of the service with its owners; \<open>pending\<close> are the pointers left in the context, \<open>es\<close>
  what happens while the service runs.\<close>

definition headset_main ::
    "(string list \<Rightarrow> 'f json option) \<Rightarrow> string option \<Rightarrow> ('f \<Rightarrow> int) \<Rightarrow> headset_environment \<Rightarrow> headset_library \<Rightarrow> owners \<Rightarrow>
     headset_event list \<Rightarrow> signal list \<Rightarrow> signal list list \<Rightarrow> bool \<Rightarrow> bool \<Rightarrow>
     bool \<times> (headset_streamer \<times> owners) program_end" where
  "headset_main files argument fi env lib pending es = run_main
     (or_throw (get_json_config files AppHeadset argument) (headset_main_config fi))
     (\<lambda>c. case headset_initialize env c of Inl e \<Rightarrow> Inl e | Inr s \<Rightarrow> Inr (s, headset_owners @ pending))
     (\<lambda>(s, h). case headset_Start (lib_bind_ok lib) s of (s1, calls) \<Rightarrow>
        if hs_is_started s1 then Inr (s1, h) else Inl ''websocket'')
     (\<lambda>(s, h). (fst (fold (headset_step lib) es (s, 0)), h))
     (\<lambda>(s, h). case headset_Stop (lib_bind_ok lib) (lib_shutdown_ok lib) s of None \<Rightarrow> None | Some s1 \<Rightarrow> Some (s1, h))
     (\<lambda>(s, h). (s, leave_main (headset_Unset h)))"

definition display_main ::
    "(string list \<Rightarrow> 'f json option) \<Rightarrow> string option \<Rightarrow> ('f \<Rightarrow> int) \<Rightarrow> headset_environment \<Rightarrow> bool \<Rightarrow> bool \<Rightarrow> owners \<Rightarrow>
     (display_streamer \<Rightarrow> display_streamer) \<Rightarrow> signal list \<Rightarrow> signal list list \<Rightarrow> bool \<Rightarrow> bool \<Rightarrow>
     bool \<times> (display_streamer \<times> owners) program_end" where
  "display_main files argument fi env bind_ok shutdown_ok pending live = run_main
     (or_throw (get_json_config files AppDisplay argument) (display_main_config fi))
     (\<lambda>c. case display_initialize env c of Inl e \<Rightarrow> Inl e | Inr s \<Rightarrow> Inr (s, display_owners @ pending))
     (\<lambda>(s, h). case display_Start bind_ok s of (s1, calls) \<Rightarrow>
        if ds_is_started s1 then Inr (s1, h) else Inl ''websocket'')
     (\<lambda>(s, h). (live s, h))
     (\<lambda>(s, h). case display_Stop shutdown_ok s of None \<Rightarrow> None | Some s1 \<Rightarrow> Some (s1, h))
     (\<lambda>(s, h). (s, leave_main (display_Unset h)))"

definition camera_main ::
    "(string list \<Rightarrow> 'f json option) \<Rightarrow> string option \<Rightarrow> ('f \<Rightarrow> int) \<Rightarrow> (nat \<Rightarrow> byte) \<Rightarrow> bool \<Rightarrow> lc_library \<Rightarrow>
     lc_fault option \<Rightarrow> owners \<Rightarrow> (camera_streamer \<Rightarrow> camera_streamer) \<Rightarrow> signal list \<Rightarrow> signal list list \<Rightarrow> bool \<Rightarrow> bool \<Rightarrow>
     bool \<times> (camera_streamer \<times> owners) program_end" where
  "camera_main files argument fi junk libcamera_built lib fault pending live = run_main
     (or_throw (get_json_config files AppCamera argument) (camera_main_config fi))
     (\<lambda>c. case camera_initialize junk libcamera_built lib c of Inl e \<Rightarrow> Inl e | Inr s \<Rightarrow> Inr (s, camera_owners @ pending))
     (\<lambda>(s, h). case camera_streamer_Start fault s of Inl e \<Rightarrow> Inl e | Inr s1 \<Rightarrow> Inr (s1, h))
     (\<lambda>(s, h). (live s, h))
     (\<lambda>(s, h). Some (camera_streamer_Stop s, h))
     (\<lambda>(s, h). (s, leave_main (camera_Unset h)))"

definition server_main ::
    "(string list \<Rightarrow> 'f json option) \<Rightarrow> string option \<Rightarrow> ('f \<Rightarrow> int) \<Rightarrow> owners \<Rightarrow>
     (server_streamer \<Rightarrow> server_streamer) \<Rightarrow> signal list \<Rightarrow> signal list list \<Rightarrow> bool \<Rightarrow> bool \<Rightarrow>
     bool \<times> (server_streamer \<times> owners) program_end" where
  "server_main files argument fi pending live = run_main
     (or_throw (get_json_config files AppServer argument) (server_main_config fi))
     (\<lambda>c. case ServerCreate c of Inl e \<Rightarrow> Inl e | Inr s \<Rightarrow> Inr (s, server_owners @ pending))
     (\<lambda>(s, h). Inr (fst (server_streamer_Start s), h))
     (\<lambda>(s, h). (live s, h))
     (\<lambda>(s, h). Some (fst (server_streamer_Stop s), h))
     (\<lambda>(s, h). (s, leave_main (server_Unset h)))"


definition demo_files :: "string list \<Rightarrow> unit json option" where
  "demo_files path = (if path = [''headset.200.json''] then Some (JObject [(''imageWidth'', JInt 2), (''imageHeight'', JInt 16),
     (''decoderBuffersDownstream'', JInt 2), (''graphicsType'', JString ''HEADSET'')]) else None)"

lemma demo_files_config:
  "or_throw (get_json_config demo_files AppHeadset (Some ''200'')) (headset_main_config (\<lambda>_. 0)) = Inr demo_config"
proof -
  have "to_int32 2 = 2" "to_int32 16 = 16" by (simp_all add: to_int32_def)
  then show ?thesis
    by (simp add: get_json_config_def config_name_def demo_files_def headset_main_config_def or_throw_def json_value_def
        get_int_def get_string_def to_decoder_type_def to_graphics_type_def to_gpio_type_def demo_config_def)
qed


text \<open>A headset whose configuration file does not name its graphics never starts, whatever else the
  file says, and never leaves the file: a system that looks for it reboots each time.\<close>

theorem headset_without_graphics_reboots:
  assumes "files (config_name AppHeadset argument) = Some (JObject kvs)" "map_of kvs ''graphicsType'' = None"
  shows "\<exists>e. headset_main files argument fi env lib pending es early seconds writable stop_file = (False, Threw e)"
proof -
  have "headset_main_config fi (JObject kvs) \<noteq> Inr c" for c
    using assms(2) by (simp add: headset_main_config_def or_throw_Inr json_value_def to_graphics_type_def)
  then obtain e where "headset_main_config fi (JObject kvs) = Inl e"
    by (cases "headset_main_config fi (JObject kvs)") auto
  with assms(1) show ?thesis
    by (simp add: headset_main_def run_main_def get_json_config_def or_throw_def RemoveSuccessFile_def)
qed

theorem headset_without_graphics_reboots_witness:
  "fst (headset_main (\<lambda>_. Some (JObject [(''gpioType'', JString ''NONE'')])) None (\<lambda>_ :: unit. 0) demo_environment demo_library
     [] [] [] [[SIGTERM]] True True) = False"
  using headset_without_graphics_reboots [where files = "\<lambda>_. Some (JObject [(''gpioType'', JString ''NONE'')])" and argument = None
      and kvs = "[(''gpioType'', JString ''NONE'')]" and fi = "\<lambda>_ :: unit. 0" and env = demo_environment and lib = demo_library
      and pending = "[]" and es = "[]" and early = "[]" and seconds = "[[SIGTERM]]" and writable = True and stop_file = True]
  by auto

end
