(* ===== verification/Ascii_Header.thy ===== *)
theory Ascii_Header
  imports Prelude
begin

text \<open>
  The first part of \<open>src/internal/infrastructure/tcp/tcp_utils.hpp\<close>: the header of sixteen characters
  (\<open>TcpWriterMessage\<close>, \<open>TcpReaderMessage\<close>) that the binary header of \<open>Packet_Header\<close> replaced and that
  nothing uses any more. The length of the body is printed right aligned in decimal and
  read by \<open>atoi\<close>; \<open>None\<close> is behaviour the language leaves undefined.
\<close>

section \<open>Printing and reading the length\<close>

definition header_length :: nat where "header_length = 16"
definition max_body_length :: "64 word" where "max_body_length = 786432"

definition digit_char :: "nat \<Rightarrow> char" where "digit_char d = char_of (48 + d)"
definition is_digit :: "char \<Rightarrow> bool" where "is_digit c \<longleftrightarrow> 48 \<le> (of_char c :: nat) \<and> (of_char c :: nat) \<le> 57"
definition is_space :: "char \<Rightarrow> bool" where
  "is_space c \<longleftrightarrow> (of_char c :: nat) = 32 \<or> 9 \<le> (of_char c :: nat) \<and> (of_char c :: nat) \<le> 13"

fun decimal :: "nat \<Rightarrow> string" where
  "decimal n = (if n < 10 then [digit_char n] else decimal (n div 10) @ [digit_char (n mod 10)])"

declare decimal.simps [simp del]

text \<open>\<open>sprintf\<close> with the format \<open>%16d\<close>.\<close>

definition print_16d :: "int \<Rightarrow> string" where
  "print_16d i = (let s = (if i < 0 then CHR ''-'' # decimal (nat (- i)) else decimal (nat i))
     in replicate (16 - length s) CHR '' '' @ s)"

text \<open>The size is cast to \<open>int\<close> first.\<close>

definition encodeHeader :: "64 word \<Rightarrow> string" where
  "encodeHeader body_size = take header_length (print_16d (sint (ucast body_size :: 32 word)))"

text \<open>\<open>atoi\<close>: spaces, a sign, then as many digits as there are; a value out of the range of \<open>int\<close> is undefined.\<close>

fun digits_value :: "nat \<Rightarrow> string \<Rightarrow> nat" where
  "digits_value acc [] = acc"
| "digits_value acc (c # cs) = (if is_digit c then digits_value (10 * acc + (of_char c - 48)) cs else acc)"

fun signed_value :: "string \<Rightarrow> int" where
  "signed_value [] = 0"
| "signed_value (c # cs) =
     (if c = CHR ''-'' then - int (digits_value 0 cs)
      else if c = CHR ''+'' then int (digits_value 0 cs) else int (digits_value 0 (c # cs)))"

definition atoi :: "string \<Rightarrow> (32 word) option" where
  "atoi s = (let i = signed_value (dropWhile is_space s)
     in if - (2 ^ 31) \<le> i \<and> i < 2 ^ 31 then Some (word_of_int i) else None)"

text \<open>\<open>strncat\<close> stops at a zero byte; the conversion of a negative \<open>int\<close> to \<open>size_t\<close> wraps. The result is the
  new \<open>_body_length\<close> and what is returned.\<close>

definition DecodeHeader :: "string \<Rightarrow> (64 word \<times> bool) option" where
  "DecodeHeader data = (case atoi (takeWhile (\<lambda>c. c \<noteq> CHR 0x00) (take header_length data)) of
     None \<Rightarrow> None
   | Some i \<Rightarrow> let body_length = (scast i :: 64 word) in
       if body_length > max_body_length then Some (0, False) else Some (body_length, True))"

section \<open>What is printed is read\<close>

lemma digit_char_facts:
  "d < 10 \<Longrightarrow> is_digit (digit_char d)" "d < 10 \<Longrightarrow> (of_char (digit_char d) :: nat) = 48 + d"
  "d < 10 \<Longrightarrow> \<not> is_space (digit_char d)" "d < 10 \<Longrightarrow> digit_char d \<noteq> CHR 0x00"
  "d < 10 \<Longrightarrow> digit_char d \<noteq> CHR ''-''" "d < 10 \<Longrightarrow> digit_char d \<noteq> CHR ''+''"
proof -
  assume d: "d < 10"
  show c: "(of_char (digit_char d) :: nat) = 48 + d" using d by (simp add: digit_char_def)
  show "is_digit (digit_char d)" "\<not> is_space (digit_char d)" using c d by (simp_all add: is_digit_def is_space_def)
  show "digit_char d \<noteq> CHR 0x00" "digit_char d \<noteq> CHR ''-''" "digit_char d \<noteq> CHR ''+''"
    using c d by (auto dest!: arg_cong [of _ _ "of_char :: char \<Rightarrow> nat"])
qed

lemma decimal_digits: "\<forall>c \<in> set (decimal n). \<exists>d < 10. c = digit_char d"
proof (induction n rule: decimal.induct)
  case (1 n)
  have "n mod 10 < 10" by simp
  with 1 show ?case by (subst decimal.simps) (auto simp del: mod_less_divisor)
qed

lemma decimal_chars: "c \<in> set (decimal n) \<Longrightarrow> is_digit c \<and> \<not> is_space c \<and> c \<noteq> CHR 0x00"
proof -
  assume "c \<in> set (decimal n)"
  then obtain d where "c = digit_char d" "d < 10" using decimal_digits [of n] by blast
  with digit_char_facts [of d] show ?thesis by simp
qed

lemma decimal_not_Nil: "decimal n \<noteq> []"
  by (subst decimal.simps) simp

lemma digits_value_append: "\<forall>c \<in> set xs. is_digit c \<Longrightarrow> digits_value acc (xs @ ys) = digits_value (digits_value acc xs) ys"
  by (induction xs arbitrary: acc) auto

lemma digits_value_decimal: "digits_value 0 (decimal n) = n"
proof (induction n rule: decimal.induct)
  case (1 n)
  show ?case
  proof (cases "n < 10")
    case True
    then show ?thesis by (subst decimal.simps) (simp add: digit_char_facts)
  next
    case False
    have "\<forall>c \<in> set (decimal (n div 10)). is_digit c"
      by (simp add: decimal_chars)
    then have "digits_value 0 (decimal (n div 10) @ [digit_char (n mod 10)]) =
        digits_value (n div 10) [digit_char (n mod 10)]"
      using 1 [OF False] by (simp only: digits_value_append)
    also have "\<dots> = 10 * (n div 10) + n mod 10" by (simp add: digit_char_facts)
    also have "\<dots> = n" by simp
    finally show ?thesis using False decimal.simps [of n] by (simp only: if_False)
  qed
qed

lemma decimal_length: "n < 10 ^ Suc k \<Longrightarrow> length (decimal n) \<le> Suc k"
proof (induction k arbitrary: n)
  case 0
  then show ?case by (subst decimal.simps) simp
next
  case (Suc k)
  have "n div 10 < 10 ^ Suc k" using Suc.prems by (simp add: less_mult_imp_div_less)
  with Suc.IH show ?case by (subst decimal.simps) simp
qed

lemma signed_value_printed:
  "signed_value (if i < 0 then CHR ''-'' # decimal (nat (- i)) else decimal (nat i)) = i"
proof (cases "i < 0")
  case False
  obtain c cs where c: "decimal (nat i) = c # cs" using decimal_not_Nil by (cases "decimal (nat i)") auto
  then obtain d where "c = digit_char d" "d < 10" using decimal_digits [of "nat i"] by auto
  with digit_char_facts [of d] have "signed_value (c # cs) = int (digits_value 0 (c # cs))" by simp
  with c False show ?thesis by (simp only: digits_value_decimal [of "nat i", unfolded c] if_False)
qed (simp add: digits_value_decimal)

text \<open>The characters of a printed number: sixteen, none of them zero, and reading them gives the number.\<close>

lemma print_16d_facts:
  assumes "- (2 ^ 31) \<le> i" "i < 2 ^ 31"
  shows "length (print_16d i) = 16" "CHR 0x00 \<notin> set (print_16d i)"
    "signed_value (dropWhile is_space (print_16d i)) = i"
proof -
  let ?s = "if i < 0 then CHR ''-'' # decimal (nat (- i)) else decimal (nat i)"
  have "nat (- i) < 10 ^ Suc 9" "nat i < 10 ^ Suc 9" using assms by auto
  from this [THEN decimal_length] have len: "length ?s \<le> 16" by auto
  then show "length (print_16d i) = 16" by (simp add: print_16d_def Let_def)
  have chars: "c \<in> set ?s \<Longrightarrow> \<not> is_space c \<and> c \<noteq> CHR 0x00" for c
    using decimal_chars by (cases "i < 0") (auto simp: is_space_def)
  from chars [of "CHR 0x00"] show "CHR 0x00 \<notin> set (print_16d i)"
    by (simp add: print_16d_def Let_def del: if_split) (auto split: if_splits)
  have "?s \<noteq> []" using decimal_not_Nil by auto
  then have "\<not> is_space (hd ?s)" using chars hd_in_set by blast
  with \<open>?s \<noteq> []\<close> have stay: "dropWhile is_space ?s = ?s" by (metis dropWhile_eq_self_iff)
  have "dropWhile is_space (replicate n CHR '' '' @ ?s) = dropWhile is_space ?s" for n
    by (induction n) (simp_all add: is_space_def)
  with stay have "dropWhile is_space (print_16d i) = ?s" by (simp add: print_16d_def Let_def)
  then show "signed_value (dropWhile is_space (print_16d i)) = i" using signed_value_printed by simp
qed

lemma decode_encoded:
  "DecodeHeader (encodeHeader n) =
     (let l = (scast (ucast n :: 32 word) :: 64 word) in Some (if l > max_body_length then (0, False) else (l, True)))"
proof -
  let ?i = "sint (ucast n :: 32 word)"
  have r: "- (2 ^ 31) \<le> ?i" "?i < 2 ^ 31" using sint_ge [of "ucast n :: 32 word"] sint_lt [of "ucast n :: 32 word"] by simp_all
  note p = print_16d_facts [OF r]
  have e: "encodeHeader n = print_16d ?i" using p(1) by (simp add: encodeHeader_def header_length_def)
  have t: "takeWhile (\<lambda>c. c \<noteq> CHR 0x00) (take header_length (encodeHeader n)) = print_16d ?i"
    using p(1,2) unfolding e by (simp add: header_length_def takeWhile_eq_all_conv) blast
  have "atoi (print_16d ?i) = Some (ucast n)" using r p(3) by (simp add: atoi_def Let_def)
  then show ?thesis by (simp add: DecodeHeader_def t Let_def)
qed

text \<open>The length a writer puts in its header is the length the reader gets, for every body
  of at most 768 KB; a longer one, up to 4 GB, is refused with a length of zero, also when its size became
  negative in the cast to \<open>int\<close>; the header always has its sixteen characters.\<close>

theorem ascii_header_roundtrip:
  assumes "n < 2 ^ 32"
  shows "length (encodeHeader n) = header_length \<and>
    DecodeHeader (encodeHeader n) = Some (if n \<le> max_body_length then (n, True) else (0, False))"
proof -
  have n: "uint n < 4294967296" "0 \<le> uint n" using assms by (simp_all add: word_less_def)
  let ?k = "if uint n < 2147483648 then uint n else uint n - 4294967296"
  have "sint (ucast n :: 32 word) = (uint n + 2147483648) mod 4294967296 - 2147483648"
    using n by (simp add: sint_uint uint_up_ucast unsigned_ucast_eq signed_take_bit_eq_take_bit_shift take_bit_eq_mod
        mod_add_left_eq)
  also have "\<dots> = ?k"
  proof (cases "uint n < 2147483648")
    case False
    have "(uint n + 2147483648) mod 4294967296 = (uint n + 2147483648 - 4294967296) mod 4294967296"
      by (rule minus_mod_self2 [symmetric])
    also have "\<dots> = uint n - 2147483648" using n False by (subst mod_pos_pos_trivial) simp_all
    finally show ?thesis using False by simp
  qed (use n in simp)
  finally have l: "(scast (ucast n :: 32 word) :: 64 word) = word_of_int ?k" by (simp only: scast_eq)
  have "length (encodeHeader n) = header_length"
    using print_16d_facts(1) [of "sint (ucast n :: 32 word)"] sint_ge [of "ucast n :: 32 word"]
      sint_lt [of "ucast n :: 32 word"] by (simp_all add: encodeHeader_def header_length_def)
  moreover have "(let l = word_of_int ?k :: 64 word in if l > max_body_length then (0, False) else (l, True)) =
      (if n \<le> max_body_length then (n, True) else (0, False))"
  proof (cases "uint n < 2147483648")
    case True
    then show ?thesis by (auto simp: Let_def not_less)
  next
    case False
    then have "\<not> n \<le> max_body_length" by (simp add: word_le_def max_body_length_def)
    moreover have "uint (word_of_int ?k :: 64 word) = uint n + 18446744069414584320"
    proof -
      have "?k mod 18446744073709551616 = (?k + 18446744073709551616) mod 18446744073709551616" by simp
      also have "\<dots> = ?k + 18446744073709551616" using False n by (subst mod_pos_pos_trivial) simp_all
      finally have "?k mod 18446744073709551616 = uint n + 18446744069414584320" using False by simp
      then show ?thesis by (simp only: uint_word_of_int) simp
    qed
    then have "(word_of_int ?k :: 64 word) > max_body_length"
      by (simp only: word_less_def max_body_length_def uint_numeral) (simp add: add_pos_nonneg)
    ultimately show ?thesis by (simp only: Let_def if_True if_False)
  qed
  ultimately show ?thesis by (simp only: decode_encoded l Let_def)
qed

theorem ascii_header_roundtrip_witness:
  "DecodeHeader (encodeHeader 786432) = Some (786432, True) \<and> DecodeHeader (encodeHeader 3000000000) = Some (0, False)"
  using ascii_header_roundtrip [of 786432] ascii_header_roundtrip [of 3000000000] by (simp add: max_body_length_def)

end
