(* ===== verification/Serial_Bms.thy ===== *)
theory Serial_Bms
  imports Ascii_Header Worker
begin

text \<open>
  \<open>src/internal/infrastructure/bms\<close>: the reader of the battery management system. A thread opens the
  serial port, collects what it reads, and reports the charge once the collected text parses. The regular
  expressions of \<open>std::regex\<close> the parser uses are modelled with the order in which ECMAScript tries
  them; the serial port is the environment. The subdirectory is not part of the build at this commit.
\<close>

section \<open>Regular expressions\<close>

datatype rx = Cls "char list" | Cat rx rx | Alt rx rx | Opt rx | Star "char list"

fun star_rests :: "char list \<Rightarrow> string \<Rightarrow> string list" where
  "star_rests cs [] = [[]]"
| "star_rests cs (c # s) = (if c \<in> set cs then star_rests cs s else []) @ [c # s]"

lemma star_rests_Nil [simp]: "star_rests [] s = [s]"
  by (cases s) simp_all

text \<open>What may be left of a string after the expression, the way preferred first.\<close>

fun rx_rests :: "rx \<Rightarrow> string \<Rightarrow> string list" where
  "rx_rests (Cls cs) s = (case s of [] \<Rightarrow> [] | c # s' \<Rightarrow> if c \<in> set cs then [s'] else [])"
| "rx_rests (Cat r1 r2) s = concat (map (rx_rests r2) (rx_rests r1 s))"
| "rx_rests (Alt r1 r2) s = rx_rests r1 s @ rx_rests r2 s"
| "rx_rests (Opt r) s = rx_rests r s @ [s]"
| "rx_rests (Star cs) s = star_rests cs s"

fun rx_lit :: "string \<Rightarrow> rx" where
  "rx_lit [] = Star []"
| "rx_lit (c # cs) = Cat (Cls [c]) (rx_lit cs)"

text \<open>An expression that ends with a group: what the group took, and the rest.\<close>

definition rx_group :: "rx \<Rightarrow> rx \<Rightarrow> string \<Rightarrow> (string \<times> string) option" where
  "rx_group pre grp s =
     (case [(take (length p - length r) p, r). p \<leftarrow> rx_rests pre s, r \<leftarrow> rx_rests grp p] of
        [] \<Rightarrow> None | m # _ \<Rightarrow> Some m)"

lemma star_rests_length: "r \<in> set (star_rests cs s) \<Longrightarrow> length r \<le> length s"
  by (induction cs s rule: star_rests.induct) (auto split: if_splits)

lemma rx_rests_length: "r \<in> set (rx_rests e s) \<Longrightarrow> length r \<le> length s"
proof (induction e arbitrary: r s)
  case (Cat e1 e2)
  then show ?case by (fastforce intro: le_trans)
qed (auto simp: star_rests_length split: list.splits if_splits)

lemma rx_group_Some:
  assumes "rx_group pre grp s = Some (cap, rest)"
  shows "\<exists>p \<in> set (rx_rests pre s). rest \<in> set (rx_rests grp p)"
proof -
  let ?l = "[(take (length p - length r) p, r). p \<leftarrow> rx_rests pre s, r \<leftarrow> rx_rests grp p]"
  obtain ms where "?l = (cap, rest) # ms" using assms by (auto simp: rx_group_def split: list.splits)
  then have "(cap, rest) \<in> set ?l" by (simp only: list.set_intros)
  then show ?thesis by auto
qed

lemma rx_group_length: "rx_group pre grp s = Some (cap, rest) \<Longrightarrow> length rest \<le> length s"
  by (meson rx_group_Some rx_rests_length le_trans)

text \<open>\<open>sregex_iterator\<close>: the groups of all the matches, each search going on behind the last match. Both
  expressions start with a literal character.\<close>

function rx_all :: "char \<Rightarrow> rx \<Rightarrow> rx \<Rightarrow> string \<Rightarrow> string list" where
  "rx_all c pre grp [] = []"
| "rx_all c pre grp (x # s) =
     (if x = c
      then case rx_group pre grp s of
          Some (cap, rest) \<Rightarrow> cap # rx_all c pre grp rest
        | None \<Rightarrow> rx_all c pre grp s
      else rx_all c pre grp s)"
  by pat_completeness auto
termination
  by (relation "measure (\<lambda>(c, pre, grp, s). length s)") (auto dest!: rx_group_length)

section \<open>Parsing a report\<close>

record bms_message =
  battery_level :: int
  bms_is_plugged_in :: bool
  bms_wants_shutdown :: bool

definition space_chars :: "char list" where
  "space_chars = [CHR '' '', CHR 0x09, CHR 0x0A, CHR 0x0B, CHR 0x0C, CHR 0x0D]"

definition vin_group :: rx where "vin_group = Alt (rx_lit ''NG'') (rx_lit ''GOOD'')"
definition vin_before :: rx where "vin_before = Cat (rx_lit ''in'') (Star space_chars)"
definition batcap_group :: rx where
  "batcap_group = Alt (rx_lit ''100'') (Cat (Opt (Cls ''123456789'')) (Cls ''0123456789''))"
definition batcap_before :: rx where "batcap_before = Cat (rx_lit ''ATCAP'') (Star space_chars)"

definition vin_matches :: "string \<Rightarrow> string list" where
  "vin_matches = rx_all CHR ''V'' vin_before vin_group"
definition batcap_matches :: "string \<Rightarrow> string list" where
  "batcap_matches = rx_all CHR ''B'' batcap_before batcap_group"

fun contains :: "string \<Rightarrow> string \<Rightarrow> bool" where
  "contains pat [] = (pat = [])"
| "contains pat (c # s) = (take (length pat) (c # s) = pat \<or> contains pat s)"

definition version_clause :: string where "version_clause = ''SmartUPS V3.2P''"

text \<open>\<open>None\<close> is \<open>{ false, msg }\<close>. The match of the loops that counts is the last one.\<close>

definition tryParseResponse :: "int \<Rightarrow> string \<Rightarrow> bms_message option" where
  "tryParseResponse threshold input =
     (if length (filter (\<lambda>c. c = CHR ''$'') input) < 2 then None
      else if \<not> contains version_clause input then None
      else if vin_matches input = [] then None
      else if batcap_matches input = [] then None
      else let level = signed_value (last (batcap_matches input)) in
        Some \<lparr>battery_level = level, bms_is_plugged_in = (last (vin_matches input) = ''GOOD''),
          bms_wants_shutdown = (level \<le> threshold)\<rparr>)"

section \<open>The reading thread\<close>

datatype bms_type = BMS_SERIAL | BMS_NONE

text \<open>\<open>bms_port\<close>: the port is open and \<open>readAndReport\<close> runs; \<open>bms_reported\<close> is what the callback got.\<close>

record serial_bms =
  bms_threshold :: int
  bms_work_stop :: bool
  bms_work_thread :: bool
  bms_port :: bool
  bms_read_buffer :: string
  bms_reported :: "bms_message list"

definition SerialBms :: "int \<Rightarrow> serial_bms" where
  "SerialBms threshold = \<lparr>bms_threshold = threshold, bms_work_stop = True, bms_work_thread = False,
     bms_port = False, bms_read_buffer = [], bms_reported = []\<rparr>"

definition bms_Start :: "serial_bms \<Rightarrow> serial_bms" where
  "bms_Start s = (if \<not> bms_work_stop s then s else s\<lparr>bms_work_stop := False, bms_work_thread := True\<rparr>)"

text \<open>The thread sees the flag at the head of its loops and closes the port on the way out.\<close>

definition bms_Stop :: "serial_bms \<Rightarrow> serial_bms" where
  "bms_Stop s = (if bms_work_stop s then s
     else s\<lparr>bms_work_stop := True, bms_work_thread := False, bms_port := False\<rparr>)"

interpretation bms_thread: work_thread bms_Start bms_Stop bms_work_stop bms_work_thread
  by unfold_locales (auto simp: bms_Start_def bms_Stop_def)

text \<open>One turn of the loop of \<open>run\<close> up to the port: opening works or throws.\<close>

definition bms_open :: "bool \<Rightarrow> serial_bms \<Rightarrow> serial_bms" where
  "bms_open works s = (if bms_work_stop s \<or> bms_port s then s else s\<lparr>bms_port := works\<rparr>)"

text \<open>One turn of the loop of \<open>readAndReport\<close>; returning from it, or an exception of the port, closes it.\<close>

definition readAndReport :: "string \<Rightarrow> serial_bms \<Rightarrow> serial_bms" where
  "readAndReport tmp s = (if bms_work_stop s \<or> \<not> bms_port s then s
     else if tmp = [] then s
     else let s1 = s\<lparr>bms_read_buffer := bms_read_buffer s @ tmp\<rparr> in
       if length (bms_read_buffer s1) < 100 then s1
       else case tryParseResponse (bms_threshold s1) (bms_read_buffer s1) of
           None \<Rightarrow> s1\<lparr>bms_port := False\<rparr>
         | Some msg \<Rightarrow> s1\<lparr>bms_reported := bms_reported s1 @ [msg], bms_read_buffer := []\<rparr>)"

definition bms_read_throws :: "serial_bms \<Rightarrow> serial_bms" where
  "bms_read_throws s = s\<lparr>bms_port := False\<rparr>"

datatype bms_event = BmsStart | BmsStop | BmsOpen bool | BmsData string | BmsThrow

fun bms_step :: "bms_event \<Rightarrow> serial_bms \<Rightarrow> serial_bms" where
  "bms_step BmsStart s = bms_Start s"
| "bms_step BmsStop s = bms_Stop s"
| "bms_step (BmsOpen works) s = bms_open works s"
| "bms_step (BmsData tmp) s = readAndReport tmp s"
| "bms_step BmsThrow s = bms_read_throws s"

text \<open>The factory, for a build with the serial reader or without, and the null reader.\<close>

datatype bms = SerialBms_part serial_bms | NullBms

definition Bms_Create :: "bool \<Rightarrow> bms_type \<Rightarrow> int \<Rightarrow> bms option" where
  "Bms_Create serial_built t threshold = (case t of
     BMS_SERIAL \<Rightarrow> if serial_built then Some (SerialBms_part (SerialBms threshold)) else None
   | BMS_NONE \<Rightarrow> Some NullBms)"

section \<open>A match does not cross a character it cannot contain\<close>

fun rx_chars :: "rx \<Rightarrow> char set" where
  "rx_chars (Cls cs) = set cs"
| "rx_chars (Cat r1 r2) = rx_chars r1 \<union> rx_chars r2"
| "rx_chars (Alt r1 r2) = rx_chars r1 \<union> rx_chars r2"
| "rx_chars (Opt r) = rx_chars r"
| "rx_chars (Star cs) = set cs"

lemma star_stays_left:
  assumes "c \<notin> set cs" "r \<in> set (star_rests cs (g @ c # s))"
  shows "\<exists>g'. r = g' @ c # s \<and> length g' \<le> length g"
  using assms(2)
proof (induction g)
  case (Cons x g)
  then show ?case by (fastforce split: if_splits intro: exI [of _ "x # g"] le_SucI)
qed (use assms(1) in simp)

lemma rx_stays_left:
  assumes "c \<notin> rx_chars e" "r \<in> set (rx_rests e (g @ c # s))"
  shows "\<exists>g'. r = g' @ c # s \<and> length g' \<le> length g"
  using assms
proof (induction e arbitrary: r g)
  case (Cls cs)
  then show ?case by (cases g) (auto split: if_splits)
next
  case (Cat e1 e2)
  then obtain q where q: "q \<in> set (rx_rests e1 (g @ c # s))" "r \<in> set (rx_rests e2 q)" by auto
  with Cat.IH(1) [OF _ q(1)] Cat.prems(1) obtain g1 where g1: "q = g1 @ c # s" "length g1 \<le> length g" by auto
  with Cat.IH(2) [of r g1] Cat.prems(1) q(2) show ?case by fastforce
next
  case (Star cs)
  then show ?case by (simp add: star_stays_left)
next
  case (Opt e)
  then show ?case by auto
qed auto

lemma group_stays_left:
  assumes "c \<notin> rx_chars pre" "c \<notin> rx_chars grp" "rx_group pre grp (g @ c # s) = Some (cap, rest)"
  shows "\<exists>g'. rest = g' @ c # s \<and> length g' \<le> length g"
proof -
  obtain p where p: "p \<in> set (rx_rests pre (g @ c # s))" "rest \<in> set (rx_rests grp p)"
    using rx_group_Some [OF assms(3)] by blast
  obtain g1 where "p = g1 @ c # s" "length g1 \<le> length g" using rx_stays_left [OF assms(1) p(1)] by blast
  with rx_stays_left [OF assms(2), of rest g1 s] p(2) show ?thesis by fastforce
qed

text \<open>So the matches from the last occurrence of the first character on are the last matches.\<close>

lemma rx_all_last:
  assumes "c \<notin> rx_chars pre" "c \<notin> rx_chars grp"
  shows "\<exists>ms. rx_all c pre grp (g @ c # s) = ms @ rx_all c pre grp (c # s)"
proof (induction g rule: length_induct)
  case (1 g)
  show ?case
  proof (cases g)
    case (Cons x g1)
    have ih: "\<exists>ms. rx_all c pre grp (h @ c # s) = ms @ rx_all c pre grp (c # s)" if "length h \<le> length g1" for h
      using 1 that Cons by simp
    show ?thesis
    proof (cases "rx_group pre grp (g1 @ c # s)")
      case None
      with Cons ih [of g1] show ?thesis by (auto simp del: rx_all.simps(2) simp: rx_all.simps(2) [of c pre grp x])
    next
      case (Some m)
      obtain cap rest where m: "m = (cap, rest)" by (cases m)
      then obtain g' where g': "rest = g' @ c # s" "length g' \<le> length g1"
        using group_stays_left [OF assms] Some by blast
      obtain ms where "rx_all c pre grp rest = ms @ rx_all c pre grp (c # s)" using ih [of g'] g' by auto
      moreover obtain ms1 where "rx_all c pre grp (g1 @ c # s) = ms1 @ rx_all c pre grp (c # s)" using ih [of g1] by auto
      ultimately have "rx_all c pre grp (g @ c # s) =
          (if x = c then cap # ms else ms1) @ rx_all c pre grp (c # s)"
        using Some m Cons by (simp only: append_Cons rx_all.simps(2) [of c pre grp x] option.case prod.case if_True if_False split: if_split) simp
      then show ?thesis by blast
    qed
  qed simp
qed

lemma rx_all_skip: "c \<notin> set g \<Longrightarrow> rx_all c pre grp (g @ s) = rx_all c pre grp s"
  by (induction g) auto

section \<open>The last report counts\<close>

text \<open>The part of the text a UPS sends that the parser looks at.\<close>

definition bms_report :: "bool \<Rightarrow> nat \<Rightarrow> string" where
  "bms_report plugged n = ''SmartUPS V3.2P,Vin '' @ (if plugged then ''GOOD'' else ''NG'') @ '',BATCAP '' @ decimal n"

lemma digit_chars: "d < 10 \<Longrightarrow> digit_char d \<in> set ''0123456789'' \<and> digit_char d \<notin> set ''VB$'' \<and>
    (0 < d \<longrightarrow> digit_char d \<in> set ''123456789'') \<and> digit_char d \<notin> set space_chars"
proof -
  have "list_all (\<lambda>d. digit_char d \<in> set ''0123456789'' \<and> digit_char d \<notin> set ''VB$'' \<and>
      (0 < d \<longrightarrow> digit_char d \<in> set ''123456789'') \<and> digit_char d \<notin> set space_chars) [0..<10]" by code_simp
  then show "d < 10 \<Longrightarrow> ?thesis" by (simp only: list_all_iff set_upt atLeastLessThan_iff) simp
qed

lemmas rx_eval = rx_group_def vin_before_def vin_group_def batcap_before_def batcap_group_def space_chars_def

lemma vin_here:
  assumes "vin_matches rest = []"
  shows "vin_matches (CHR ''V'' # ''in '' @ (if plugged then ''GOOD'' else ''NG'') @ rest) =
    [if plugged then ''GOOD'' else ''NG'']"
  using assms by (cases plugged) (simp_all add: vin_matches_def rx_eval)

lemma decimal_cases:
  assumes "n \<le> 100"
  shows "n = 100 \<and> decimal n = ''100'' \<or> n < 10 \<and> decimal n = [digit_char n] \<or>
    10 \<le> n \<and> n < 100 \<and> decimal n = [digit_char (n div 10), digit_char (n mod 10)]"
proof -
  have "decimal 100 = ''100''" by code_simp
  moreover have "decimal n = [digit_char n]" if "n < 10" using that by (simp add: decimal.simps)
  moreover have "decimal n = [digit_char (n div 10), digit_char (n mod 10)]" if "10 \<le> n" "n < 100"
  proof -
    have "n div 10 < 10" using that by linarith
    with that show ?thesis by (simp add: decimal.simps [of n] decimal.simps [of "n div 10"])
  qed
  ultimately show ?thesis using assms by (cases "n = 100"; cases "n < 10") auto
qed

lemma batcap_here:
  assumes "n \<le> 100" "batcap_matches rest = []"
  shows "batcap_matches (CHR ''B'' # ''ATCAP '' @ decimal n @ CHR '','' # rest) = [decimal n]"
proof -
  note none = assms(2) [unfolded batcap_matches_def rx_eval]
  consider "n = 100" "decimal n = ''100''" | "n < 10" "decimal n = [digit_char n]"
    | "10 \<le> n" "n < 100" "decimal n = [digit_char (n div 10), digit_char (n mod 10)]"
    using decimal_cases [OF assms(1)] by blast
  then show ?thesis
  proof cases
    case 1
    with none show ?thesis by (simp add: batcap_matches_def rx_eval)
  next
    case 2
    with none digit_chars [of n] show ?thesis
      by (simp add: batcap_matches_def rx_eval)
  next
    case 3
    with none digit_chars [of "n div 10"] digit_chars [of "n mod 10"] show ?thesis
      by (simp add: batcap_matches_def rx_eval)
  qed
qed

lemma contains_append: "contains pat (g @ pat @ rest)"
proof (induction g)
  case Nil
  have "take (length pat) (pat @ rest) = pat" by simp
  then show ?case by (cases "pat @ rest") simp_all
qed auto

lemma contains_mono: "contains pat s \<Longrightarrow> contains pat (s @ t)"
proof (induction pat s rule: contains.induct)
  case (2 pat c s)
  then show ?case
  proof (cases "take (length pat) (c # s) = pat")
    case True
    then have "length pat \<le> length (c # s)" by (metis length_take min.cobounded1)
    with True have "take (length pat) (c # s @ t) = pat" by (cases pat) simp_all
    then show ?thesis by simp
  qed auto
qed (cases t; simp)

lemma decimal_signed_value: "signed_value (decimal n) = int n"
  using signed_value_printed [of "int n"] by simp

lemma decimal_no_letters: "CHR ''V'' \<notin> set (decimal n) \<and> CHR ''B'' \<notin> set (decimal n)"
  using decimal_digits [of n] digit_chars by fastforce

lemma bms_report_parsed:
  assumes "n \<le> 100" "vin_matches rest = []" "batcap_matches rest = []"
    "2 \<le> length (filter (\<lambda>c. c = CHR ''$'') (g @ rest))"
  shows "tryParseResponse threshold (g @ bms_report plugged n @ CHR '','' # rest) =
    Some \<lparr>battery_level = int n, bms_is_plugged_in = plugged, bms_wants_shutdown = (int n \<le> threshold)\<rparr>"
proof -
  let ?v = "if plugged then ''GOOD'' else ''NG''"
  let ?in = "g @ bms_report plugged n @ CHR '','' # rest"
  have v: "?in = (g @ ''SmartUPS V3.2P,'') @ CHR ''V'' # ''in '' @ ?v @ '',BATCAP '' @ decimal n @ CHR '','' # rest"
    by (simp add: bms_report_def)
  have "vin_matches (CHR ''V'' # ''in '' @ ?v @ '',BATCAP '' @ decimal n @ CHR '','' # rest) = [?v]"
    using assms(2) decimal_no_letters rx_all_skip [of "CHR ''V''" "'',BATCAP '' @ decimal n @ '',''"]
    by (intro vin_here) (simp add: vin_matches_def)
  moreover have "CHR ''V'' \<notin> rx_chars vin_before" "CHR ''V'' \<notin> rx_chars vin_group" by (simp_all add: rx_eval)
  from rx_all_last [OF this] obtain vs where "vin_matches ?in = vs @
      vin_matches (CHR ''V'' # ''in '' @ ?v @ '',BATCAP '' @ decimal n @ CHR '','' # rest)"
    unfolding v vin_matches_def by blast
  ultimately have vin: "vin_matches ?in = vs @ [?v]" by simp
  have b: "?in = (g @ ''SmartUPS V3.2P,Vin '' @ ?v @ '','') @ CHR ''B'' # ''ATCAP '' @ decimal n @ CHR '','' # rest"
    by (simp add: bms_report_def)
  have "CHR ''B'' \<notin> rx_chars batcap_before" "CHR ''B'' \<notin> rx_chars batcap_group" by (simp_all add: rx_eval)
  from rx_all_last [OF this] obtain bs where "batcap_matches ?in = bs @
      batcap_matches (CHR ''B'' # ''ATCAP '' @ decimal n @ CHR '','' # rest)"
    unfolding b batcap_matches_def by blast
  then have bat: "batcap_matches ?in = bs @ [decimal n]" by (simp only: batcap_here [OF assms(1,3)])
  have "contains version_clause ?in"
    using contains_append [of version_clause g] by (simp add: bms_report_def version_clause_def)
  moreover have "length (filter (\<lambda>c. c = CHR ''$'') (g @ rest)) \<le> length (filter (\<lambda>c. c = CHR ''$'') ?in)" by simp
  ultimately show ?thesis
    using assms(4) vin bat by (simp add: tryParseResponse_def Let_def decimal_signed_value)
qed

section \<open>The thread\<close>

lemma digit_value_range:
  "c \<in> set ''0123456789'' \<Longrightarrow> is_digit c \<and> (of_char c :: nat) - 48 \<le> 9 \<and> c \<noteq> CHR ''-'' \<and> c \<noteq> CHR ''+''"
  by (auto simp: is_digit_def)

lemma batcap_taken:
  assumes "r \<in> set (rx_rests batcap_group p)"
  shows "0 \<le> signed_value (take (length p - length r) p) \<and> signed_value (take (length p - length r) p) \<le> 100"
proof -
  consider s where "p = CHR ''1'' # CHR ''0'' # CHR ''0'' # s" "r = s"
    | c s where "p = c # s" "c \<in> set ''0123456789''" "r = s"
    | c d s where "p = c # d # s" "c \<in> set ''123456789''" "d \<in> set ''0123456789''" "r = s"
    using assms by (auto simp: batcap_group_def split: list.splits if_splits)
  then show ?thesis
  proof cases
    case 1
    then show ?thesis by (simp add: is_digit_def)
  next
    case 2
    with digit_value_range [of c] show ?thesis by simp
  next
    case 3
    then have "c \<in> set ''0123456789''" by auto
    with 3 digit_value_range [of c] digit_value_range [of d] show ?thesis by simp
  qed
qed

lemma rx_all_taken: "cap \<in> set (rx_all c pre grp s) \<Longrightarrow> \<exists>p. \<exists>r \<in> set (rx_rests grp p). cap = take (length p - length r) p"
proof (induction c pre grp s rule: rx_all.induct)
  case (2 c pre grp x s)
  show ?case
  proof (cases "x = c \<and> (\<exists>rest. rx_group pre grp s = Some (cap, rest))")
    case True
    then obtain rest where "rx_group pre grp s = Some (cap, rest)" by blast
    then obtain ms where "[(take (length p - length r) p, r). p \<leftarrow> rx_rests pre s, r \<leftarrow> rx_rests grp p] = (cap, rest) # ms"
      by (auto simp: rx_group_def split: list.splits)
    then have "(cap, rest) \<in> set [(take (length p - length r) p, r). p \<leftarrow> rx_rests pre s, r \<leftarrow> rx_rests grp p]"
      by (simp only: list.set_intros)
    then show ?thesis by auto
  qed (use 2 in \<open>auto split: if_splits option.splits\<close>)
qed simp

definition bms_message_ok :: "int \<Rightarrow> bms_message \<Rightarrow> bool" where
  "bms_message_ok threshold m \<longleftrightarrow> 0 \<le> battery_level m \<and> battery_level m \<le> 100 \<and>
     (bms_wants_shutdown m \<longleftrightarrow> battery_level m \<le> threshold)"

lemma parsed_message_ok: "tryParseResponse threshold input = Some m \<Longrightarrow> bms_message_ok threshold m"
proof -
  assume "tryParseResponse threshold input = Some m"
  moreover from this have "batcap_matches input \<noteq> []" by (auto simp: tryParseResponse_def split: if_splits)
  then have "last (batcap_matches input) \<in> set (batcap_matches input)" by simp
  from rx_all_taken [OF this [unfolded batcap_matches_def]] batcap_taken
  have "0 \<le> signed_value (last (batcap_matches input)) \<and> signed_value (last (batcap_matches input)) \<le> 100"
    by (metis batcap_matches_def)
  ultimately show ?thesis by (auto simp: tryParseResponse_def bms_message_ok_def Let_def split: if_splits)
qed

definition bms_ok :: "int \<Rightarrow> serial_bms \<Rightarrow> bool" where
  "bms_ok threshold s \<longleftrightarrow> bms_threshold s = threshold \<and> (bms_work_thread s \<longleftrightarrow> \<not> bms_work_stop s) \<and>
     (bms_port s \<longrightarrow> bms_work_thread s) \<and> list_all (bms_message_ok threshold) (bms_reported s)"

lemma bms_ok_step: "bms_ok threshold s \<Longrightarrow> bms_ok threshold (bms_step e s)"
  by (cases e) (auto simp: bms_ok_def bms_Start_def bms_Stop_def bms_open_def readAndReport_def bms_read_throws_def
      parsed_message_ok Let_def split: option.splits)

lemma bms_ok_run: "bms_ok threshold s \<Longrightarrow> bms_ok threshold (fold bms_step es s)"
  by (induction es arbitrary: s) (simp_all add: bms_ok_step)

text \<open>C31 (functional): a running reader with the port open that receives the rest of a report, after whatever
  it has collected before, calls back exactly once, with the charge and the state of the supply of that
  last report, and forgets what it had collected; whatever happened to it since it was made, every
  message it has called back with has a charge between 0 and 100 and asks for the shutdown exactly from
  the threshold down.\<close>

theorem bms_last_report_counts:
  assumes s: "s = fold bms_step es (SerialBms threshold)" and "bms_port s"
    and received: "bms_read_buffer s @ tmp = g @ bms_report plugged n @ CHR '','' # rest" "tmp \<noteq> []"
      "100 \<le> length (bms_read_buffer s @ tmp)"
    and "n \<le> 100" "vin_matches rest = []" "batcap_matches rest = []"
      "2 \<le> length (filter (\<lambda>c. c = CHR ''$'') (g @ rest))"
  shows "let s' = readAndReport tmp s; m = \<lparr>battery_level = int n, bms_is_plugged_in = plugged,
        bms_wants_shutdown = (int n \<le> threshold)\<rparr> in
      bms_reported s' = bms_reported s @ [m] \<and> bms_read_buffer s' = [] \<and> bms_port s' \<and>
      list_all (bms_message_ok threshold) (bms_reported s')"
proof -
  have "bms_ok threshold (SerialBms threshold)" by (simp add: bms_ok_def SerialBms_def)
  then have ok: "bms_ok threshold s" unfolding s by (rule bms_ok_run)
  then have running: "\<not> bms_work_stop s" "bms_threshold s = threshold" using \<open>bms_port s\<close> by (auto simp: bms_ok_def)
  have "bms_ok threshold (readAndReport tmp s)" using bms_ok_step [OF ok, of "BmsData tmp"] by simp
  moreover have "tryParseResponse threshold (bms_read_buffer s @ tmp) =
      Some \<lparr>battery_level = int n, bms_is_plugged_in = plugged, bms_wants_shutdown = (int n \<le> threshold)\<rparr>"
    unfolding received(1) by (rule bms_report_parsed) fact+
  ultimately show ?thesis
    using running received(2,3) \<open>bms_port s\<close> by (simp add: readAndReport_def Let_def bms_ok_def)
qed

text \<open>A garbled first half, then a whole report.\<close>

definition demo_noise :: string where
  "demo_noise = ''Vin NG,BATCAP 7 $ ............................................................ $ ''"

theorem bms_last_report_counts_witness:
  "bms_reported (readAndReport (bms_report True 42 @ '',Vout 5190 $'')
      (fold bms_step [BmsStart, BmsOpen True, BmsData demo_noise] (SerialBms 20))) =
    [\<lparr>battery_level = 42, bms_is_plugged_in = True, bms_wants_shutdown = False\<rparr>]"
proof -
  let ?s = "fold bms_step [BmsStart, BmsOpen True, BmsData demo_noise] (SerialBms 20)"
  have s: "bms_port ?s" "bms_read_buffer ?s = demo_noise" "bms_reported ?s = []"
    by (simp_all add: bms_Start_def bms_open_def readAndReport_def SerialBms_def demo_noise_def Let_def)
  have rest: "vin_matches ''Vout 5190 $'' = []" "batcap_matches ''Vout 5190 $'' = []" by code_simp+
  have "length (decimal 42) = 2" by code_simp
  then have "100 \<le> length (demo_noise @ bms_report True 42 @ '',Vout 5190 $'')" by (simp add: demo_noise_def bms_report_def)
  moreover have "2 \<le> length (filter (\<lambda>c. c = CHR ''$'') (demo_noise @ ''Vout 5190 $''))" by (simp add: demo_noise_def)
  ultimately show ?thesis
    using bms_last_report_counts [where es = "[BmsStart, BmsOpen True, BmsData demo_noise]" and threshold = 20
        and s = ?s and tmp = "bms_report True 42 @ '',Vout 5190 $''" and g = demo_noise and plugged = True
        and n = 42 and rest = "''Vout 5190 $''", OF refl s(1)] s(2,3) rest
    by (simp add: Let_def del: fold.simps bms_step.simps append.simps)
qed

text \<open>What has been collected is not dropped when it does not parse. A reader of another version
  of the UPS keeps every byte it was ever sent, reopening the port after each part, and reports nothing.\<close>

theorem unknown_version_grows:
  assumes "\<not> bms_work_stop s" "bms_port s" "\<not> contains version_clause (bms_read_buffer s @ concat ds)"
  shows "let s' = fold bms_step (concat (map (\<lambda>d. [BmsData d, BmsOpen True]) ds)) s in
    bms_read_buffer s' = bms_read_buffer s @ concat ds \<and> bms_reported s' = bms_reported s \<and> bms_port s'"
  using assms
proof (induction ds arbitrary: s)
  case (Cons d ds)
  let ?s = "bms_step (BmsOpen True) (bms_step (BmsData d) s)"
  have "\<not> contains version_clause (bms_read_buffer s @ d)"
  proof
    assume "contains version_clause (bms_read_buffer s @ d)"
    then have "contains version_clause ((bms_read_buffer s @ d) @ concat ds)"
      by (rule contains_mono)
    with Cons.prems(3) show False by simp
  qed
  then have "bms_read_buffer ?s = bms_read_buffer s @ d \<and> bms_reported ?s = bms_reported s \<and> bms_port ?s \<and> \<not> bms_work_stop ?s"
    using Cons.prems(1,2) by (simp add: readAndReport_def bms_open_def tryParseResponse_def Let_def)
  with Cons.IH [of ?s] Cons.prems(3) show ?case by (simp add: Let_def)
qed simp

theorem unknown_version_grows_witness:
  "bms_read_buffer (fold bms_step [BmsData ''SmartUPS V4'', BmsOpen True, BmsData ''.0'', BmsOpen True]
      (bms_step (BmsOpen True) (bms_step BmsStart (SerialBms 20)))) = ''SmartUPS V4.0''"
  using unknown_version_grows [of "bms_step (BmsOpen True) (bms_step BmsStart (SerialBms 20))" "[''SmartUPS V4'', ''.0'']"]
  by (simp add: bms_Start_def bms_open_def SerialBms_def Let_def version_clause_def)

end
