(* ===== verification/Location.thy ===== *)
theory Location
  imports Serial_Bms
begin

text \<open>
  \<open>EnumerateSerialPorts\<close> of \<open>infrastructure/location/location.cpp\<close>: the devices that are serial ports by name and
  can be opened. The directory, as \<open>readdir\<close> lists it, and the files that \<open>open\<close> succeeds for are the input.
\<close>

section \<open>The ports\<close>

definition dir_name :: string where "dir_name = ''/dev''"

definition serial_name :: "string \<Rightarrow> bool" where
  "serial_name entry \<longleftrightarrow> contains ''ttyS'' entry \<or> contains ''ttyUSB'' entry \<or> contains ''ttyACM'' entry"

text \<open>\<open>None\<close> is a directory that cannot be opened.\<close>

definition EnumerateSerialPorts :: "string list option \<Rightarrow> (string \<Rightarrow> bool) \<Rightarrow> string list" where
  "EnumerateSerialPorts dir opens = (case dir of None \<Rightarrow> []
     | Some entries \<Rightarrow> filter opens (map (\<lambda>entry. dir_name @ ''/'' @ entry) (filter serial_name entries)))"

section \<open>What is found\<close>

lemma contains_iff: "contains word xs \<longleftrightarrow> (\<exists>before behind. xs = before @ word @ behind)"
proof (induction xs)
  case (Cons c xs)
  have "(\<exists>before behind. c # xs = before @ word @ behind) \<longleftrightarrow>
      (\<exists>behind. c # xs = word @ behind) \<or> (\<exists>before behind. xs = before @ word @ behind)"
    by (metis append_Cons append_Nil list.exhaust list.inject)
  moreover have "(\<exists>behind. c # xs = word @ behind) \<longleftrightarrow> take (length word) (c # xs) = word"
    by (metis append_eq_conv_conj append_take_drop_id)
  ultimately show ?case using Cons by simp
qed simp

text \<open>The ports are those of the directory with a serial name that open, each with its path, in the order of
  the directory.\<close>

lemma ports_found:
  "port \<in> set (EnumerateSerialPorts dir opens) \<longleftrightarrow>
     (\<exists>entries entry. dir = Some entries \<and> entry \<in> set entries \<and> serial_name entry \<and> port = dir_name @ ''/'' @ entry \<and> opens port)"
  by (cases dir) (auto simp: EnumerateSerialPorts_def)

lemma ports_distinct:
  assumes "distinct entries"
  shows "distinct (EnumerateSerialPorts (Some entries) opens)"
  using assms by (simp add: EnumerateSerialPorts_def distinct_map inj_on_def)

text \<open>A name is taken for a serial one wherever the word stands in it, such as that of a lock.\<close>

lemma locks_are_serial: "serial_name ''LCK..ttyS0''"
  by (simp add: serial_name_def)

end
