(* ===== verification/Frame_Relay.thy ===== *)
theory Frame_Relay
  imports Tcp_Links Connection_Delivery Server_Streamer
begin

text \<open>
  The frames' whole way over the network: the connections of all cameras and of one screen of \<open>Tcp_Links\<close>,
  joined by \<open>PostCameraServerBuffer\<close> of the server. Every buffer the session of a camera hands on is written
  to the screen if the connection manager has the screen on that camera, while the routes may change at any
  time. The connections stay up; what happens when one goes down is the subject of \<open>Tcp_Lifecycle\<close>.
\<close>

section \<open>The server between the connections\<close>

text \<open>\<open>rl_written\<close> records what the server writes to the screen, each frame with its camera.\<close>

record relay =
  rl_cameras :: "tcp_addr \<Rightarrow> (tcp_client, camera_end) link"
  rl_server :: server_streamer
  rl_screen :: "(headset_session, client_end) link"
  rl_written :: "(tcp_addr \<times> byte list) list"

definition link_got :: "('s, 'r \<times> tcp_buffer list \<times> 'x) link \<Rightarrow> byte list list" where
  "link_got l = map buffer_bytes (fst (snd (receiver l)))"

definition server_writes :: "session \<Rightarrow> tcp_addr \<Rightarrow> server_streamer \<Rightarrow> byte list \<Rightarrow> byte list list" where
  "server_writes x c ss f = map snd (filter (\<lambda>(w, _). w = x) (PostCameraServerBuffer c f ss))"

datatype relay_event = CameraSide tcp_addr link_event | ScreenSide link_event | Routing id_heap cm_event

text \<open>The buffers posted by one event of a camera's connection are written at once: the session calls the
  manager from its completion handler.\<close>

fun relay_step :: "session \<Rightarrow> relay_event \<Rightarrow> relay \<Rightarrow> relay" where
  "relay_step x (CameraSide c e) r =
     (let l = rl_cameras r c; l' = camera_connection [e] l;
          fs = concat (map (server_writes x c (rl_server r)) (drop (length (link_got l)) (link_got l')))
      in r\<lparr>rl_cameras := (rl_cameras r)(c := l'), rl_screen := headset_connection (map Submit fs) (rl_screen r),
           rl_written := rl_written r @ map (Pair c) fs\<rparr>)"
| "relay_step x (ScreenSide e) r =
     (case e of Submit f \<Rightarrow> r | _ \<Rightarrow> r\<lparr>rl_screen := headset_connection [e] (rl_screen r)\<rparr>)"
| "relay_step x (Routing ids e) r =
     r\<lparr>rl_server := (rl_server r)\<lparr>ss_manager := cm_step ids e (ss_manager (rl_server r))\<rparr>\<rparr>"

definition relay_run :: "session \<Rightarrow> relay_event list \<Rightarrow> relay \<Rightarrow> relay" where
  "relay_run x = fold (relay_step x)"

text \<open>The cameras post what fits every buffer on the way, and the manager's events are those of the
  refinement.\<close>

fun relay_event_ok :: "nat \<Rightarrow> relay_event \<Rightarrow> relay \<Rightarrow> bool" where
  "relay_event_ok cap (CameraSide c e) r \<longleftrightarrow> list_all (frame_fits cap) (submits [e])"
| "relay_event_ok cap (ScreenSide e) r \<longleftrightarrow> True"
| "relay_event_ok cap (Routing ids e) r \<longleftrightarrow> event_ok ids e (ss_manager (rl_server r))"

fun relay_run_ok :: "nat \<Rightarrow> session \<Rightarrow> relay_event list \<Rightarrow> relay \<Rightarrow> bool" where
  "relay_run_ok cap x [] r \<longleftrightarrow> True"
| "relay_run_ok cap x (e # es) r \<longleftrightarrow> relay_event_ok cap e r \<and> relay_run_ok cap x es (relay_step x e r)"

lemma relay_run_okI: "(\<And>e r. e \<in> set es \<Longrightarrow> relay_event_ok cap e r) \<Longrightarrow> relay_run_ok cap x es r"
  by (induction es arbitrary: r) simp_all

definition posted_by :: "tcp_addr \<Rightarrow> relay_event list \<Rightarrow> byte list list" where
  "posted_by c es = concat (map (\<lambda>e. case e of CameraSide d (Submit f) \<Rightarrow> if d = c then [f] else [] | _ \<Rightarrow> []) es)"

definition written_from :: "tcp_addr \<Rightarrow> (tcp_addr \<times> byte list) list \<Rightarrow> byte list list" where
  "written_from c ws = map snd (filter (\<lambda>(d, _). d = c) ws)"

section \<open>One event\<close>

lemma written_from_append [simp]: "written_from c (ws @ vs) = written_from c ws @ written_from c vs"
  by (simp add: written_from_def)

lemma written_from_Pair [simp]: "written_from c (map (Pair d) fs) = (if c = d then fs else [])"
  by (auto simp: written_from_def comp_def filter_map)

lemma relay_run_simps [simp]:
  "relay_run x [] r = r" "relay_run x (e # es) r = relay_run x es (relay_step x e r)"
  "relay_run x (es @ es') r = relay_run x es' (relay_run x es r)"
  by (simp_all add: relay_run_def)

lemma link_got_camera: "link_got l = in_out (camera_view (receiver l))"
  by (cases "receiver l") (auto simp: link_got_def camera_view_def)

lemma link_got_reader: "link_got l = in_out (reader_view (receiver l))"
  by (cases "receiver l") (auto simp: link_got_def reader_view_def)

lemma camera_recv_grows: "camera_recv chunk s = Some s' \<Longrightarrow> \<exists>new. fst (snd s') = fst (snd s) @ new"
  by (cases s) (auto simp: camera_recv_def)

lemma camera_release_keeps: "fst (snd (camera_release s)) = fst (snd s)"
  by (cases s) (auto simp: camera_release_def split: list.splits)

lemma link_got_grows: "\<exists>new. link_got (camera_connection [e] l) = link_got l @ new"
proof (cases e)
  case (Deliver k)
  show ?thesis
    using camera_recv_grows [of "take k (wire l)" "receiver l"]
    by (auto simp: Deliver camera_connection_def link_step_def link_got_def split: option.splits)
qed (auto simp: camera_connection_def link_step_def link_got_def camera_release_keeps)

lemma screen_accepts:
  "\<exists>new. accepted (headset_connection (map Submit fs) l) = accepted l @ new \<and> subseq new fs"
proof (induction fs arbitrary: l)
  case (Cons f fs)
  let ?l = "headset_connection [Submit f] l"
  from Cons [of ?l] obtain new where
    "accepted (headset_connection (map Submit fs) ?l) = accepted ?l @ new" "subseq new fs" by blast
  then show ?case
    by (auto simp: headset_connection_def link_step_def)
qed (simp add: headset_connection_def)

lemma written_once:
  assumes "distinct (map fst L)" "list_all (\<lambda>p. snd p = f) L"
  shows "map snd (filter (\<lambda>(w, _). w = x) L) = (if x \<in> fst ` set L then [f] else [])"
  using assms
proof (induction L)
  case (Cons p L)
  obtain w b where p: "p = (w, b)" by (cases p)
  have "map snd (filter (\<lambda>(w, _). w = x) L) = (if x \<in> fst ` set L then [f] else [])"
    by (rule Cons.IH) (use Cons.prems in simp_all)
  with Cons.prems show ?case by (auto simp: p)
qed simp

lemma server_writes_once:
  assumes "cm_synced (ss_manager ss)"
  shows "server_writes x c ss f =
    (if om_find (writer_sessions (ss_manager ss)) (sess_addr x) = Some x \<and>
        om_find (writer_connections (ss_manager ss)) (sess_addr x) = Some c then [f] else [])"
proof -
  note s = post_message_screens [OF assms, of c f]
  have "list_all (\<lambda>p. snd p = f) (PostMessage c f (ss_manager ss))" using s by (auto simp: list_all_iff)
  from written_once [OF conjunct1 [OF s] this, of x] show ?thesis
    using s by (auto simp: server_writes_def PostCameraServerBuffer_def image_iff)
qed

lemma server_writes_subseq:
  assumes "cm_synced (ss_manager ss)"
  shows "subseq (concat (map (server_writes x c ss) fs)) fs"
  by (induction fs) (auto simp: server_writes_once [OF assms])

section \<open>What crosses the server\<close>

text \<open>The connections keep their own promises, what the screen's session accepted was written, and what was
  written for a camera is what its session handed on, both in order and with gaps only.\<close>

definition relay_ok :: "nat \<Rightarrow> nat \<Rightarrow> nat \<Rightarrow> relay \<Rightarrow> bool" where
  "relay_ok n n' n'' r \<longleftrightarrow> cm_synced (ss_manager (rl_server r)) \<and>
     (\<forall>c. camera_link.linked n (rl_cameras r c) \<and>
       list_all (frame_fits (min n (min n' n''))) (accepted (rl_cameras r c)) \<and>
       subseq (written_from c (rl_written r)) (link_got (rl_cameras r c))) \<and>
     headset_link.linked n' n'' (rl_screen r) \<and> subseq (accepted (rl_screen r)) (map snd (rl_written r))"

lemma frame_fits_min: "frame_fits (min cap cap') f \<longleftrightarrow> frame_fits cap f \<and> frame_fits cap' f"
  by (auto simp: frame_fits_def)

lemma camera_got_accepted: "camera_link.linked n l \<Longrightarrow> subseq (link_got l) (accepted l)"
  using camera_link.linked_prefix(2) by (simp add: link_got_camera)

lemma list_all_subseq: "subseq xs ys \<Longrightarrow> list_all P ys \<Longrightarrow> list_all P xs"
  by (auto simp: list_all_iff dest: list_emb_set)

lemma relay_ok_step:
  assumes "relay_ok n n' n'' r" "relay_event_ok (min n (min n' n'')) e r"
  shows "relay_ok n n' n'' (relay_step x e r)"
proof (cases e)
  case (CameraSide c e')
  define l where "l = rl_cameras r c"
  define l' where "l' = camera_connection [e'] l"
  define fs where "fs = concat (map (server_writes x c (rl_server r)) (drop (length (link_got l)) (link_got l')))"
  have fits: "list_all (frame_fits (min n (min n' n''))) (submits [e'])" using assms(2) CameraSide by simp
  have ok: "cm_synced (ss_manager (rl_server r))" "camera_link.linked n l"
    "list_all (frame_fits (min n (min n' n''))) (accepted l)" "headset_link.linked n' n'' (rl_screen r)"
    "subseq (accepted (rl_screen r)) (map snd (rl_written r))" "subseq (written_from c (rl_written r)) (link_got l)"
    using assms(1) by (auto simp: relay_ok_def l_def)
  have l': "camera_link.linked n l'"
    unfolding l'_def camera_connection_run using fits
    by (intro camera_link.linked_run ok) (auto simp: list_all_iff frame_fits_min)
  have acc: "list_all (frame_fits (min n (min n' n''))) (accepted l')"
    using ok(3) fits unfolding l'_def camera_connection_def accepted_all by simp
  obtain new where new: "link_got l' = link_got l @ new" using link_got_grows unfolding l'_def by blast
  have fs: "subseq fs new" unfolding fs_def using server_writes_subseq [OF ok(1)] by (simp add: new)
  have "list_all (frame_fits (min n (min n' n''))) (link_got l')"
    using camera_got_accepted [OF l'] acc by (rule list_all_subseq)
  then have "list_all (frame_fits (min n (min n' n''))) fs" using fs by (auto simp: new intro: list_all_subseq)
  then have "list_all (frame_fits (min n' n'')) (submits (map Submit fs))"
    by (induction fs) (auto simp: frame_fits_min)
  then have screen: "headset_link.linked n' n'' (headset_connection (map Submit fs) (rl_screen r))"
    unfolding headset_connection_run by (intro headset_link.linked_run ok)
  obtain got where got: "accepted (headset_connection (map Submit fs) (rl_screen r)) = accepted (rl_screen r) @ got"
    "subseq got fs" using screen_accepts by blast
  have step: "relay_step x e r = r\<lparr>rl_cameras := (rl_cameras r)(c := l'),
      rl_screen := headset_connection (map Submit fs) (rl_screen r), rl_written := rl_written r @ map (Pair c) fs\<rparr>"
    by (simp add: CameraSide Let_def l_def l'_def fs_def)
  show ?thesis
    using assms(1) ok l' acc screen got list_emb_append_mono [OF ok(6) fs] list_emb_append_mono [OF ok(5) got(2)]
    by (auto simp: relay_ok_def step new comp_def)
next
  case (ScreenSide e')
  have "headset_link.linked n' n'' (headset_connection [e'] (rl_screen r))" if "submits [e'] = []"
    unfolding headset_connection_run using assms(1) that
    by (intro headset_link.linked_run) (simp_all add: relay_ok_def)
  moreover have "accepted (headset_connection [e'] (rl_screen r)) = accepted (rl_screen r)" if "submits [e'] = []"
    using that by (cases e') (auto simp: headset_connection_def link_step_def split: option.splits)
  ultimately show ?thesis using assms(1) by (cases e') (auto simp: ScreenSide relay_ok_def)
next
  case (Routing ids m)
  then show ?thesis using assms synced_step [of "ss_manager (rl_server r)" ids m] by (simp add: relay_ok_def)
qed

lemma relay_ok_run:
  "relay_ok n n' n'' r \<Longrightarrow> relay_run_ok (min n (min n' n'')) x es r \<Longrightarrow> relay_ok n n' n'' (relay_run x es r)"
  by (induction es arbitrary: r) (auto dest: relay_ok_step)

text \<open>What the cameras' clients take is what the cameras post.\<close>

lemma camera_accepts_step:
  "accepted (rl_cameras (relay_step x e r) c) = accepted (rl_cameras r c) @ posted_by c [e]"
proof (cases e)
  case (CameraSide d e')
  then show ?thesis
    using accepted_all [of client_out_view client_Post client_sent camera_view camera_recv camera_release "[e']" "rl_cameras r d"]
    by (cases e') (auto simp: posted_by_def Let_def camera_connection_def)
next
  case (ScreenSide e')
  then show ?thesis by (cases e') (auto simp: posted_by_def)
qed (simp add: posted_by_def)

lemma posted_by_Cons: "posted_by c (e # es) = posted_by c [e] @ posted_by c es"
  by (simp add: posted_by_def)

lemma camera_accepts: "accepted (rl_cameras (relay_run x es r) c) = accepted (rl_cameras r c) @ posted_by c es"
proof (induction es arbitrary: r)
  case (Cons e es)
  then show ?case by (simp add: camera_accepts_step posted_by_Cons [of c e es])
qed (simp add: posted_by_def)

lemma subseq_map_snd: "subseq xs (map snd ys) \<Longrightarrow> \<exists>zs. xs = map snd zs \<and> subseq zs ys"
  by (auto simp: subseq_conv_nths nths_map)

section \<open>From the cameras to the screen\<close>

text \<open>All connections new: the cameras with their clients and sessions, the screen with its session and client.\<close>

definition relay_up ::
    "(tcp_addr \<Rightarrow> tcp_client) \<Rightarrow> (tcp_addr \<Rightarrow> camera_end) \<Rightarrow> headset_session \<Rightarrow> tcp_client \<Rightarrow> server_streamer \<Rightarrow> relay" where
  "relay_up cams ends out scr ss = \<lparr>rl_cameras = (\<lambda>c. link_up (cams c) (ends c)), rl_server = ss,
     rl_screen = link_up out (scr, [], []), rl_written = []\<rparr>"

lemma screen_link_up:
  assumes "reading_client junk ctype fixed m sz'' = Inr scr" "ctype \<noteq> CAMERA_CONNECTION"
  shows "headset_link.linked (nat sz') (nat sz'') (link_up (fresh_headset_end junk' addr i k sz') (scr, [], []))"
  using fresh_headset_end_ok [where sz = sz' and junk = junk' and addr = addr and i = i and n = k]
    reading_client_ok [OF assms]
  by (intro headset_link.linkedI [of _ _ _ "[]" "[]"])
     (simp_all add: link_up_def out_wf_idle, simp add: out_remaining_def out_idle_def)

lemma relay_up_ok:
  assumes "\<And>c. client_live (cams c) \<and> tc_queue (cams c) = []" "cm_synced (ss_manager ss)"
    and "reading_client junk ctype fixed m sz'' = Inr scr" "ctype \<noteq> CAMERA_CONNECTION"
  shows "relay_ok (nat sz) (nat sz') (nat sz'') (relay_up cams (\<lambda>c. fresh_camera_end junk c (i c) n sz)
    (fresh_headset_end junk addr j k sz') scr ss)"
  using assms camera_link_up [of "cams _"] screen_link_up [OF assms(3,4)] fresh_camera_end_ok(3)
  by (auto simp: relay_ok_def relay_up_def link_got_camera, auto simp: link_up_def written_from_def)

text \<open>C1 (safety): the way of all frames. Any number of cameras connected to the server, a screen connected
  to it, whatever frames that fit the buffers on the way the cameras post, however the network cuts writes
  and reads, whenever buffers are given back and however the routes of the server change meanwhile: no
  connection goes wrong, the screen gets frames of the cameras only, byte for byte, and among them those of
  each camera in the order it posted them and none twice.\<close>

theorem frames_cross_the_server:
  assumes "\<And>c. client_live (cams c) \<and> tc_queue (cams c) = []" "cm_synced (ss_manager ss)"
    and "reading_client junk ctype fixed m sz'' = Inr scr" "ctype \<noteq> CAMERA_CONNECTION"
    and run: "relay_run_ok (min (nat sz) (min (nat sz') (nat sz''))) x es
      (relay_up cams (\<lambda>c. fresh_camera_end junk c (i c) n sz) (fresh_headset_end junk addr j k sz') scr ss)"
  shows "let r = relay_run x es
        (relay_up cams (\<lambda>c. fresh_camera_end junk c (i c) n sz) (fresh_headset_end junk addr j k sz') scr ss) in
    (\<forall>c. \<not> broken (rl_cameras r c)) \<and> \<not> broken (rl_screen r) \<and>
    (\<exists>got. link_got (rl_screen r) = map snd got \<and> (\<forall>c. subseq (written_from c got) (posted_by c es)))"
proof -
  define u where "u = relay_up cams (\<lambda>c. fresh_camera_end junk c (i c) n sz) (fresh_headset_end junk addr j k sz') scr ss"
  define r where "r = relay_run x es u"
  have ok: "relay_ok (nat sz) (nat sz') (nat sz'') r"
    unfolding r_def u_def by (rule relay_ok_run [OF relay_up_ok [OF assms(1-4)] run])
  have "subseq (link_got (rl_screen r)) (accepted (rl_screen r))" "subseq (accepted (rl_screen r)) (map snd (rl_written r))"
    using ok headset_link.linked_prefix(2) by (auto simp: relay_ok_def link_got_reader)
  then have "subseq (link_got (rl_screen r)) (map snd (rl_written r))" by (rule subseq_order.trans)
  then obtain got where got: "link_got (rl_screen r) = map snd got" "subseq got (rl_written r)"
    by (metis subseq_map_snd)
  have "subseq (written_from c got) (posted_by c es)" for c
  proof -
    have "subseq (written_from c got) (written_from c (rl_written r))"
      using got(2) by (simp add: written_from_def subseq_map subseq_filter)
    moreover have "subseq (written_from c (rl_written r)) (link_got (rl_cameras r c))"
        "subseq (link_got (rl_cameras r c)) (accepted (rl_cameras r c))"
      using ok camera_got_accepted by (auto simp: relay_ok_def)
    moreover have "accepted (rl_cameras r c) = posted_by c es"
      unfolding r_def camera_accepts by (simp add: u_def relay_up_def link_up_def)
    ultimately show ?thesis by (metis subseq_order.trans)
  qed
  moreover have "\<not> broken (rl_cameras r c)" "\<not> broken (rl_screen r)" for c
    using ok camera_link.linked_prefix(1) [of "nat sz" "rl_cameras r c"] headset_link.linked_prefix(1)
    by (auto simp: relay_ok_def)
  ultimately show ?thesis using got(1) unfolding Let_def u_def [symmetric] r_def [symmetric] by blast
qed

definition demo_relay :: relay where
  "demo_relay = relay_up (\<lambda>_. demo_camera) (\<lambda>c. fresh_camera_end (\<lambda>_. 0) c 1 4 16) (fresh_headset_end (\<lambda>_. 0) 201 1 2 16)
     demo_headset (demo_server ENDPOINT_PORT NO_SWITCHING (cm_run demo_run cm_init))"

definition relay_frames :: "relay_event list" where
  "relay_frames = [CameraSide 100 (Submit [1, 2, 3]), CameraSide 101 (Submit [4]), CameraSide 100 (Transmit 24),
     CameraSide 100 (Deliver 24), CameraSide 100 (Transmit 3), CameraSide 100 (Deliver 3), ScreenSide (Transmit 24)]"

lemma demo_relay_synced:
  "cm_synced (ss_manager (demo_server ENDPOINT_PORT NO_SWITCHING (cm_run demo_run cm_init)))"
  using synced_run [OF cm_synced_init demo_run_ok] by (simp add: demo_server_def)

lemma relay_frames_ok: "relay_run_ok (min (nat 16) (min (nat 16) (nat 16))) x relay_frames r"
  by (rule relay_run_okI) (auto simp: relay_frames_def frame_fits_def frame_ok_def)

theorem frames_cross_the_server_witness:
  "\<exists>got. link_got (rl_screen (relay_run scr2 relay_frames demo_relay)) = map snd got \<and>
     subseq (written_from 100 got) [[1, 2, 3]]"
proof -
  have c: "client_live demo_camera \<and> tc_queue demo_camera = []" for d :: tcp_addr using demo_camera_live by simp
  have "posted_by 100 relay_frames = [[1, 2, 3]]" by (simp add: posted_by_def relay_frames_def)
  then show ?thesis
    using frames_cross_the_server [OF c demo_relay_synced demo_headset_up _ relay_frames_ok, where
        i = "\<lambda>_. 1" and n = 4 and addr = 201 and j = 1 and k = 2 and x = scr2]
    unfolding Let_def demo_relay_def [symmetric] by (metis connection_type.distinct(1))
qed

section \<open>A screen on one camera\<close>

fun unrouted :: "relay_event \<Rightarrow> bool" where
  "unrouted (Routing ids e) \<longleftrightarrow> False"
| "unrouted _ \<longleftrightarrow> True"

definition relay_fed :: "session \<Rightarrow> tcp_addr \<Rightarrow> relay \<Rightarrow> bool" where
  "relay_fed x c r \<longleftrightarrow> cm_synced (ss_manager (rl_server r)) \<and>
     om_find (writer_sessions (ss_manager (rl_server r))) (sess_addr x) = Some x \<and>
     om_find (writer_connections (ss_manager (rl_server r))) (sess_addr x) = Some c \<and>
     rl_written r = map (Pair c) (link_got (rl_cameras r c))"

lemma relay_fed_step:
  assumes "relay_fed x c r" "unrouted e"
  shows "relay_fed x c (relay_step x e r)"
proof (cases e)
  case (CameraSide d e')
  define l where "l = rl_cameras r d"
  obtain new where new: "link_got (camera_connection [e'] l) = link_got l @ new" using link_got_grows by blast
  have sy: "cm_synced (ss_manager (rl_server r))" using assms(1) by (simp add: relay_fed_def)
  have "concat (map (server_writes x d (rl_server r)) new) = (if d = c then new else [])"
    using assms(1) by (induction new) (auto simp: relay_fed_def server_writes_once [OF sy])
  then show ?thesis using assms(1) new by (auto simp: CameraSide relay_fed_def Let_def l_def)
next
  case (ScreenSide e')
  then show ?thesis using assms(1) by (cases e') (simp_all add: relay_fed_def)
qed (use assms in simp)

lemma relay_fed_run: "relay_fed x c r \<Longrightarrow> list_all unrouted es \<Longrightarrow> relay_fed x c (relay_run x es r)"
  by (induction es arbitrary: r) (auto dest: relay_fed_step)

lemma submits_quiet: "submits es = [] \<longleftrightarrow> (\<forall>e \<in> set es. submits [e] = [])"
  by (induction es rule: submits.induct) auto

lemma relay_camera_events:
  "rl_cameras (relay_run x (map (CameraSide c) es) r) c = camera_connection es (rl_cameras r c)"
proof (induction es arbitrary: r)
  case (Cons e es)
  then show ?case by (simp add: Let_def) (simp add: camera_connection_def)
qed (simp add: camera_connection_def)

lemma relay_screen_events:
  assumes "submits es = []"
  shows "relay_run x (map ScreenSide es) r = r\<lparr>rl_screen := headset_connection es (rl_screen r)\<rparr>"
  using assms
proof (induction es arbitrary: r)
  case (Cons e es)
  from Cons.prems have "submits es = []" "relay_step x (ScreenSide e) r = r\<lparr>rl_screen := headset_connection [e] (rl_screen r)\<rparr>"
    by (cases e; simp)+
  with Cons.IH show ?case by (simp add: headset_connection_def)
qed (simp add: headset_connection_def)

lemma posted_by_quiet:
  assumes "submits es = []"
  shows "posted_by d (map (CameraSide c) es) = []" "posted_by d (map ScreenSide es') = []"
    "relay_run_ok cap x (map (CameraSide c) es) r" "relay_run_ok cap x (map ScreenSide es') r"
proof -
  have quiet: "submits [e] = []" if "e \<in> set es" for e
    using iffD1 [OF submits_quiet assms] that by blast
  have "(case e of Submit f \<Rightarrow> if c = d then [f] else [] | _ \<Rightarrow> []) = []" if "e \<in> set es" for e
    using quiet [OF that] by (cases e) auto
  then show "posted_by d (map (CameraSide c) es) = []" by (auto simp: posted_by_def)
  show "posted_by d (map ScreenSide es') = []" by (auto simp: posted_by_def)
  show "relay_run_ok cap x (map (CameraSide c) es) r" by (rule relay_run_okI) (auto simp: quiet)
  show "relay_run_ok cap x (map ScreenSide es') r" by (rule relay_run_okI) auto
qed

text \<open>The network can finish: first the camera's connection, then the screen's.\<close>

lemma relay_finishes:
  assumes "relay_ok n n' n'' r"
  obtains es1 es2 where "submits es1 = []" "submits es2 = []"
    "relay_ok n n' n'' (relay_run x (map (CameraSide c) es1 @ map ScreenSide es2) r)"
    "link_done client_out_view camera_view (rl_cameras (relay_run x (map (CameraSide c) es1 @ map ScreenSide es2) r) c)"
    "link_done headset_view reader_view (rl_screen (relay_run x (map (CameraSide c) es1 @ map ScreenSide es2) r))"
proof -
  from assms obtain es1 where es1: "submits es1 = []"
      "link_done client_out_view camera_view (camera_connection es1 (rl_cameras r c))"
    unfolding relay_ok_def camera_connection_run using camera_link.network_drains by blast
  define r1 where "r1 = relay_run x (map (CameraSide c) es1) r"
  have ok1: "relay_ok n n' n'' r1"
    unfolding r1_def using assms posted_by_quiet(3) [OF es1(1)] by (rule relay_ok_run)
  from ok1 obtain es2 where es2: "submits es2 = []"
      "link_done headset_view reader_view (headset_connection es2 (rl_screen r1))"
    unfolding relay_ok_def headset_connection_run using headset_link.network_drains by blast
  have "relay_ok n n' n'' (relay_run x (map ScreenSide es2) r1)"
    using ok1 posted_by_quiet(4) [OF es2(1)] by (rule relay_ok_run)
  then show ?thesis
    using that [OF es1(1) es2(1)] es1(2) es2(2)
    by (simp add: relay_screen_events [OF es2(1)] r1_def relay_camera_events)
qed



end
