(* ===== verification/Graphics_Setup.thy ===== *)
theory Graphics_Setup
  imports Graphics
begin

text \<open>
  What the graphics thread of \<open>src/internal/infrastructure/graphics/headset_graphics.cpp\<close> sets up and takes
  down: the window and the objects of its context. An object belongs to the context that was current when it
  was made, each window has a context of its own, and a name is that of an object in the current context
  only; this is what GLFW and GLES promise.
\<close>

section \<open>Windows and objects\<close>

datatype gl_object = ShaderObject | ProgramObject | VertexArray | VertexBuffer | ElementBuffer | PictureTexture nat
  | ImageTextureOf int

text \<open>\<open>gl_windows\<close> counts the windows made; the last one is current. No window is destroyed.\<close>

record gl =
  gl_windows :: nat
  gl_live :: "(nat \<times> gl_object) list"

definition gl_gen :: "gl_object \<Rightarrow> gl \<Rightarrow> gl" where
  "gl_gen ob w = w\<lparr>gl_live := (gl_windows w, ob) # gl_live w\<rparr>"

definition gl_delete :: "gl_object \<Rightarrow> gl \<Rightarrow> gl" where
  "gl_delete ob w = w\<lparr>gl_live := remove1 (gl_windows w, ob) (gl_live w)\<rparr>"

text \<open>A shader that does not compile or a program that does not link is an exception in the thread, which ends
  the program.\<close>

definition compile_shader :: "bool \<Rightarrow> gl \<Rightarrow> gl option" where
  "compile_shader compiles w = (let w1 = gl_gen ShaderObject w in if compiles then Some w1 else None)"

definition link_program :: "bool \<Rightarrow> gl \<Rightarrow> gl option" where
  "link_program links w = (let w1 = gl_gen ProgramObject w in if links then Some w1 else None)"

definition displaySetup :: "bool \<times> bool \<times> bool \<Rightarrow> gl \<Rightarrow> gl option" where
  "displaySetup results w = (case results of (vs_compiles, fs_compiles, links) \<Rightarrow>
     Option.bind (compile_shader vs_compiles w) (\<lambda>w1. Option.bind (compile_shader fs_compiles w1) (link_program links)))"

definition simpleShader :: "bool \<times> bool \<times> bool \<Rightarrow> gl \<Rightarrow> gl option" where
  "simpleShader results w = (case results of (vs_compiles, fs_compiles, links) \<Rightarrow>
     Option.bind (compile_shader vs_compiles w) (\<lambda>w1. Option.bind (compile_shader fs_compiles w1) (link_program links)))"

section \<open>The headset's window\<close>

text \<open>\<open>hw_loaded\<close> is \<open>has_loaded\<close> of the four screens.\<close>

record headset_window =
  hw_graphics :: headset_graphics
  hw_gl :: gl
  hw_loaded :: "bool list"
  hw_in_loop :: bool

definition new_window :: "headset_graphics \<Rightarrow> headset_window" where
  "new_window g = \<lparr>hw_graphics = g, hw_gl = \<lparr>gl_windows = 0, gl_live = []\<rparr>, hw_loaded = replicate 4 False, hw_in_loop = False\<rparr>"

definition load_screen :: "nat \<Rightarrow> headset_window \<Rightarrow> headset_window" where
  "load_screen k w = (if hw_loaded w ! k then w
     else w\<lparr>hw_gl := gl_gen (PictureTexture k) (hw_gl w), hw_loaded := (hw_loaded w)[k := True]\<rparr>)"

definition unload_screen :: "nat \<Rightarrow> headset_window \<Rightarrow> headset_window" where
  "unload_screen k w = (if hw_loaded w ! k
     then w\<lparr>hw_gl := gl_delete (PictureTexture k) (hw_gl w), hw_loaded := (hw_loaded w)[k := False]\<rparr> else w)"

text \<open>One attempt of \<open>run\<close>: it ends before or after a window is made, or gets to the loop. \<open>results\<close> says what the
  shaders of the image and of the screens did.\<close>

definition hw_attempt ::
    "(bool \<times> bool \<times> bool) \<times> (bool \<times> bool \<times> bool) \<Rightarrow> setup_outcome \<Rightarrow> headset_window \<Rightarrow> headset_window option" where
  "hw_attempt results outcome w = (case outcome of NoGlfw \<Rightarrow> Some w | NoWindow \<Rightarrow> Some w
     | NoGles \<Rightarrow> Some (w\<lparr>hw_gl := (hw_gl w)\<lparr>gl_windows := Suc (gl_windows (hw_gl w))\<rparr>\<rparr>)
     | SetUp \<Rightarrow>
       (case Option.bind (displaySetup (fst results) ((hw_gl w)\<lparr>gl_windows := Suc (gl_windows (hw_gl w))\<rparr>))
           (simpleShader (snd results)) of
          None \<Rightarrow> None
        | Some gl1 \<Rightarrow>
          let gl2 = gl_gen ElementBuffer (gl_gen VertexBuffer (gl_gen VertexArray gl1));
              w1 = fold load_screen [0, 1, 2, 3] (w\<lparr>hw_gl := gl2\<rparr>) in
          Some (w1\<lparr>hw_graphics := hg_enter_loop (hw_graphics w1), hw_in_loop := True\<rparr>)))"

text \<open>A turn of the loop; \<open>makeBuffer\<close> makes a texture for a descriptor that had no buffer, if EGL takes it.\<close>

definition hw_event :: "(int \<Rightarrow> bool) \<Rightarrow> hg_event \<Rightarrow> headset_window \<Rightarrow> headset_window" where
  "hw_event imported e w = (let g1 = fst (hg_step imported e (hw_graphics w, [])) in
     w\<lparr>hw_graphics := g1,
       hw_gl := (case (e, hg_egl_buffer g1) of
          (HgTurn, Some b) \<Rightarrow> if hg_buffers (hw_graphics w) (egl_fd b) = None \<and> hg_buffers g1 (egl_fd b) \<noteq> None \<and> egl_texture b
            then gl_gen (ImageTextureOf (egl_fd b)) (hw_gl w) else hw_gl w
        | _ \<Rightarrow> hw_gl w)\<rparr>)"

text \<open>The end of the loop.\<close>

definition hw_leave :: "headset_window \<Rightarrow> headset_window" where
  "hw_leave w =
     (let gl1 = gl_delete ElementBuffer (gl_delete VertexBuffer (gl_delete VertexArray (hw_gl w)));
          w1 = fold unload_screen [0, 1, 2, 3] (w\<lparr>hw_graphics := hg_leave_loop (hw_graphics w), hw_gl := gl1\<rparr>)
      in w1\<lparr>hw_in_loop := False\<rparr>)"

datatype window_event =
    Attempt "(bool \<times> bool \<times> bool) \<times> (bool \<times> bool \<times> bool)" setup_outcome | InLoop hg_event | WindowClosed

fun hw_step :: "(int \<Rightarrow> bool) \<Rightarrow> window_event \<Rightarrow> headset_window \<Rightarrow> headset_window option" where
  "hw_step imported (Attempt results outcome) w = (if hw_in_loop w then Some w else hw_attempt results outcome w)"
| "hw_step imported (InLoop e) w = (if hw_in_loop w then Some (hw_event imported e w) else Some w)"
| "hw_step imported WindowClosed w = (if hw_in_loop w then Some (hw_leave w) else Some w)"

fun hw_run :: "(int \<Rightarrow> bool) \<Rightarrow> window_event list \<Rightarrow> headset_window \<Rightarrow> headset_window option" where
  "hw_run imported [] w = Some w"
| "hw_run imported (e # es) w = Option.bind (hw_step imported e w) (hw_run imported es)"

text \<open>An image is seen if its texture is one of the current context.\<close>

definition image_seen :: "int \<Rightarrow> headset_window \<Rightarrow> bool" where
  "image_seen fd w \<longleftrightarrow> (gl_windows (hw_gl w), ImageTextureOf fd) \<in> set (gl_live (hw_gl w))"

section \<open>What the windows hold\<close>

lemma gl_gen_simps [simp]:
  "gl_windows (gl_gen ob w) = gl_windows w"
  "gl_live (gl_gen ob w) = (gl_windows w, ob) # gl_live w"
  "gl_windows (gl_delete ob w) = gl_windows w"
  "gl_live (gl_delete ob w) = remove1 (gl_windows w, ob) (gl_live w)"
  by (simp_all add: gl_gen_def gl_delete_def)

text \<open>The objects of the loop: those made before it that its end deletes.\<close>

fun of_loop :: "nat \<times> gl_object \<Rightarrow> bool" where
  "of_loop (c, ShaderObject) = False"
| "of_loop (c, ProgramObject) = False"
| "of_loop (c, ImageTextureOf fd) = False"
| "of_loop (c, _) = True"

definition loop_objects :: "nat \<Rightarrow> (nat \<times> gl_object) list" where
  "loop_objects c = [(c, VertexArray), (c, VertexBuffer), (c, ElementBuffer), (c, PictureTexture 0),
     (c, PictureTexture 1), (c, PictureTexture 2), (c, PictureTexture 3)]"

definition window_ok :: "headset_window \<Rightarrow> bool" where
  "window_ok w \<longleftrightarrow> hw_loaded w = replicate 4 (hw_in_loop w) \<and>
     mset (filter of_loop (gl_live (hw_gl w))) =
       (if hw_in_loop w then mset (loop_objects (gl_windows (hw_gl w))) else {#}) \<and>
     (\<forall>(c, ob) \<in> set (gl_live (hw_gl w)). c \<le> gl_windows (hw_gl w)) \<and>
     (\<forall>fd b. hg_buffers (hw_graphics w) fd = Some b \<longrightarrow> egl_fd b = fd)"

lemma shaders_made:
  assumes "Option.bind (displaySetup r1 w) (simpleShader r2) = Some w'"
  shows "gl_windows w' = gl_windows w \<and>
    gl_live w' = [(gl_windows w, ProgramObject), (gl_windows w, ShaderObject), (gl_windows w, ShaderObject),
      (gl_windows w, ProgramObject), (gl_windows w, ShaderObject), (gl_windows w, ShaderObject)] @ gl_live w"
  using assms by (auto simp: displaySetup_def simpleShader_def compile_shader_def link_program_def Let_def
      split: prod.splits if_splits)

lemma hw_attempt_ok:
  assumes "window_ok w" "\<not> hw_in_loop w" "hw_attempt results outcome w = Some w'"
  shows "window_ok w' \<and> gl_windows (hw_gl w) \<le> gl_windows (hw_gl w') \<and>
    hg_buffers (hw_graphics w') = hg_buffers (hw_graphics w) \<and>
    (\<forall>c fd. (c, ImageTextureOf fd) \<in> set (gl_live (hw_gl w')) \<longleftrightarrow> (c, ImageTextureOf fd) \<in> set (gl_live (hw_gl w)))"
proof (cases outcome)
  case SetUp
  let ?w1 = "(hw_gl w)\<lparr>gl_windows := Suc (gl_windows (hw_gl w))\<rparr>"
  let ?c = "Suc (gl_windows (hw_gl w))"
  from SetUp assms(3) obtain gl1 where gl1: "Option.bind (displaySetup (fst results) ?w1) (simpleShader (snd results)) = Some gl1"
    by (auto simp: hw_attempt_def Let_def split: option.splits)
  have loaded: "hw_loaded w = [False, False, False, False]" using assms(1,2) by (simp add: window_ok_def numeral_eq_Suc)
  from shaders_made [OF gl1] have g: "gl_windows gl1 = ?c" "gl_live gl1 = [(?c, ProgramObject), (?c, ShaderObject),
      (?c, ShaderObject), (?c, ProgramObject), (?c, ShaderObject), (?c, ShaderObject)] @ gl_live (hw_gl w)" by auto
  have w': "w' = w\<lparr>hw_gl := gl_gen (PictureTexture 3) (gl_gen (PictureTexture 2) (gl_gen (PictureTexture 1)
      (gl_gen (PictureTexture 0) (gl_gen ElementBuffer (gl_gen VertexBuffer (gl_gen VertexArray gl1)))))),
      hw_loaded := [True, True, True, True], hw_graphics := hg_enter_loop (hw_graphics w), hw_in_loop := True\<rparr>"
    using assms(3) SetUp gl1 loaded
    by (simp add: hw_attempt_def load_screen_def Let_def numeral_2_eq_2 numeral_3_eq_3)
  have le: "\<forall>(c, ob) \<in> set (gl_live (hw_gl w)). c \<le> ?c" using assms(1) by (auto simp: window_ok_def)
  have "window_ok w'" using assms(1,2) le
    by (auto simp: w' g window_ok_def loop_objects_def hg_enter_loop_def numeral_eq_Suc)
  then show ?thesis by (auto simp: w' g hg_enter_loop_def)
next
  case NoGles
  have "\<forall>(c, ob) \<in> set (gl_live (hw_gl w)). c \<le> Suc (gl_windows (hw_gl w))"
    using assms(1) by (fastforce simp: window_ok_def)
  with NoGles assms show ?thesis by (auto simp: hw_attempt_def window_ok_def)
qed (use assms in \<open>auto simp: hw_attempt_def\<close>)

lemma hw_leave_ok:
  assumes "window_ok w" "hw_in_loop w"
  shows "window_ok (hw_leave w) \<and> gl_windows (hw_gl (hw_leave w)) = gl_windows (hw_gl w) \<and>
    hg_buffers (hw_graphics (hw_leave w)) = hg_buffers (hw_graphics w) \<and>
    (\<forall>c fd. (c, ImageTextureOf fd) \<in> set (gl_live (hw_gl (hw_leave w))) \<longleftrightarrow>
      (c, ImageTextureOf fd) \<in> set (gl_live (hw_gl w)))"
proof -
  let ?c = "gl_windows (hw_gl w)"
  have loaded: "hw_loaded w = [True, True, True, True]" using assms by (simp add: window_ok_def numeral_eq_Suc)
  have w': "hw_leave w = w\<lparr>hw_graphics := hg_leave_loop (hw_graphics w),
      hw_gl := gl_delete (PictureTexture 3) (gl_delete (PictureTexture 2) (gl_delete (PictureTexture 1)
        (gl_delete (PictureTexture 0) (gl_delete ElementBuffer (gl_delete VertexBuffer (gl_delete VertexArray (hw_gl w))))))),
      hw_loaded := [False, False, False, False], hw_in_loop := False\<rparr>"
    using loaded by (simp add: hw_leave_def unload_screen_def Let_def numeral_2_eq_2 numeral_3_eq_3)
  have live: "mset (filter of_loop (gl_live (hw_gl w))) = mset (loop_objects ?c)"
    using assms by (simp add: window_ok_def)
  have "mset (filter of_loop (gl_live (hw_gl (hw_leave w)))) = {#}"
    using live by (simp add: w' loop_objects_def filter_remove1 mset_filter)
  moreover have "\<forall>(c, ob) \<in> set (gl_live (hw_gl (hw_leave w))). c \<le> ?c"
    using assms(1) by (auto simp: w' window_ok_def dest!: set_remove1_subset [THEN subsetD])
  ultimately have "window_ok (hw_leave w)" using assms(1)
    by (simp add: w' window_ok_def hg_leave_loop_def numeral_eq_Suc)
  then show ?thesis by (simp add: w' hg_leave_loop_def in_set_remove1)
qed

text \<open>The buffers of a turn: none is forgotten, a new one is that of the newest image.\<close>

lemma hg_step_buffers:
  assumes "\<forall>fd b. hg_buffers g fd = Some b \<longrightarrow> egl_fd b = fd"
  shows "let g' = fst (hg_step imported e (g, [])) in
    (\<forall>fd b. hg_buffers g' fd = Some b \<longrightarrow> egl_fd b = fd) \<and>
    (\<forall>fd b. hg_buffers g fd = Some b \<longrightarrow> hg_buffers g' fd = Some b)"
  using assms
  by (cases e; cases "hg_state g"; cases "hg_last_state g")
     (auto simp: PostGraphicsHeadsetState_def hg_PostImage_def hg_turn_def handleRunningState_def Let_def
       buffer_for_def makeBuffer_def split: prod.splits option.splits if_splits)

definition images_kept :: "headset_window \<Rightarrow> headset_window \<Rightarrow> bool" where
  "images_kept w w' \<longleftrightarrow> gl_windows (hw_gl w) \<le> gl_windows (hw_gl w') \<and>
     (\<forall>fd b. hg_buffers (hw_graphics w) fd = Some b \<longrightarrow> hg_buffers (hw_graphics w') fd = Some b \<and>
       (\<forall>c. (c, ImageTextureOf fd) \<in> set (gl_live (hw_gl w')) \<longleftrightarrow> (c, ImageTextureOf fd) \<in> set (gl_live (hw_gl w))))"

lemma images_kept_refl: "images_kept w w" by (simp add: images_kept_def)

lemma images_kept_trans: "images_kept w w1 \<Longrightarrow> images_kept w1 w2 \<Longrightarrow> images_kept w w2"
  unfolding images_kept_def by (meson order_trans)

lemma hw_event_ok:
  assumes "window_ok w"
  shows "window_ok (hw_event imported e w) \<and> images_kept w (hw_event imported e w)"
proof -
  define g where "g = hw_graphics w"
  define g1 where "g1 = fst (hg_step imported e (g, []))"
  let ?new = "\<lambda>b :: egl_buffer. gl_gen (ImageTextureOf (egl_fd b)) (hw_gl w)"
  have "\<forall>fd b. hg_buffers g fd = Some b \<longrightarrow> egl_fd b = fd" using assms by (simp add: window_ok_def g_def)
  from hg_step_buffers [OF this, of imported e] have fd: "\<forall>fd b. hg_buffers g1 fd = Some b \<longrightarrow> egl_fd b = fd"
    and keep: "\<forall>fd b. hg_buffers g fd = Some b \<longrightarrow> hg_buffers g1 fd = Some b" by (simp_all add: g1_def Let_def)
  obtain gl1 where ev: "hw_event imported e w = w\<lparr>hw_graphics := g1, hw_gl := gl1\<rparr>"
    and gl1: "gl1 = hw_gl w \<or> (\<exists>b. hg_buffers g (egl_fd b) = None \<and> gl1 = ?new b)"
  proof
    let ?gl = "(case (e, hg_egl_buffer g1) of
          (HgTurn, Some b) \<Rightarrow> if hg_buffers (hw_graphics w) (egl_fd b) = None \<and> hg_buffers g1 (egl_fd b) \<noteq> None \<and> egl_texture b
            then gl_gen (ImageTextureOf (egl_fd b)) (hw_gl w) else hw_gl w
        | _ \<Rightarrow> hw_gl w)"
    show "hw_event imported e w = w\<lparr>hw_graphics := g1, hw_gl := ?gl\<rparr>"
      unfolding hw_event_def g1_def g_def Let_def by (rule refl)
    show "?gl = hw_gl w \<or> (\<exists>b. hg_buffers g (egl_fd b) = None \<and> ?gl = ?new b)"
    proof (cases "\<exists>b. e = HgTurn \<and> hg_egl_buffer g1 = Some b \<and> hg_buffers g (egl_fd b) = None \<and>
        hg_buffers g1 (egl_fd b) \<noteq> None \<and> egl_texture b")
      case True
      then obtain b where b: "e = HgTurn" "hg_egl_buffer g1 = Some b" "hg_buffers g (egl_fd b) = None"
        "hg_buffers g1 (egl_fd b) \<noteq> None" "egl_texture b" by blast
      then have "?gl = ?new b" by (simp add: g_def)
      with b(3) show ?thesis by blast
    next
      case False
      then have "?gl = hw_gl w" by (auto simp: g_def split: hg_event.splits option.splits)
      then show ?thesis by blast
    qed
  qed
  from gl1 show ?thesis
  proof
    assume "gl1 = hw_gl w"
    with assms fd keep show ?thesis unfolding ev by (auto simp: window_ok_def images_kept_def g_def)
  next
    assume "\<exists>b. hg_buffers g (egl_fd b) = None \<and> gl1 = ?new b"
    then obtain b where b: "hg_buffers g (egl_fd b) = None" "gl1 = ?new b" by blast
    with assms fd keep show ?thesis unfolding ev by (auto simp: window_ok_def images_kept_def g_def)
  qed
qed

lemma hw_step_ok:
  assumes "window_ok w" "hw_step imported e w = Some w'"
  shows "window_ok w' \<and> images_kept w w'"
proof (cases e)
  case (Attempt results outcome)
  with assms hw_attempt_ok [OF assms(1), of results outcome w'] show ?thesis
    by (auto simp: images_kept_def split: if_splits)
next
  case (InLoop ev)
  with assms hw_event_ok [OF assms(1), of imported ev] images_kept_refl show ?thesis by (auto split: if_splits)
next
  case WindowClosed
  with assms hw_leave_ok [OF assms(1)] show ?thesis by (auto simp: images_kept_def split: if_splits)
qed

lemma hw_run_ok:
  "window_ok w \<Longrightarrow> hw_run imported es w = Some w' \<Longrightarrow> window_ok w' \<and> images_kept w w'"
proof (induction es arbitrary: w)
  case (Cons e es)
  then obtain w1 where w1: "hw_step imported e w = Some w1" "hw_run imported es w1 = Some w'"
    by (auto simp: bind_eq_Some_conv)
  from hw_step_ok [OF Cons.prems(1) w1(1)] Cons.IH [of w1] w1(2) images_kept_trans show ?case by blast
qed (auto simp: images_kept_refl)

lemma new_window_ok: "hg_buffers g = Map.empty \<Longrightarrow> window_ok (new_window g)"
  by (simp add: window_ok_def new_window_def)

text \<open>C22 (safety): Whatever attempts, turns and closings of its windows the headset's graphics go through, the
  objects made for the loop are there exactly once while it runs and deleted after it; an image whose
  descriptor is new is seen if EGL takes it, and an image is seen from then on exactly as long as that window
  stays: in every later window its descriptor draws nothing.\<close>

theorem image_seen_in_its_window:
  assumes "hw_run imported es (new_window (hg_StartGraphics HeadsetGraphics)) = Some w"
    "hw_run imported es' w = Some w'"
  shows "mset (filter of_loop (gl_live (hw_gl w))) =
      (if hw_in_loop w then mset (loop_objects (gl_windows (hw_gl w))) else {#}) \<and>
    (\<forall>fd \<in> dom (hg_buffers (hw_graphics w)).
      image_seen fd w' \<longleftrightarrow> image_seen fd w \<and> gl_windows (hw_gl w') = gl_windows (hw_gl w)) \<and>
    (\<forall>images data. hg_state (hw_graphics w) = RUNNING \<and> hg_last_state (hw_graphics w) = RUNNING \<and>
       hg_image_queue (hw_graphics w) = images @ [data] \<longrightarrow>
       (let fd = db_fd data in image_seen fd (hw_event imported HgTurn w) \<longleftrightarrow>
         (if fd \<in> dom (hg_buffers (hw_graphics w)) then image_seen fd w else imported fd \<or> image_seen fd w)))"
proof -
  have "window_ok (new_window (hg_StartGraphics HeadsetGraphics))"
    by (rule new_window_ok) (simp add: hg_StartGraphics_def HeadsetGraphics_def)
  from hw_run_ok [OF this assms(1)] have ok: "window_ok w" by blast
  from hw_run_ok [OF ok assms(2)] have kept: "images_kept w w'" by blast
  have "image_seen fd w' \<longleftrightarrow> image_seen fd w \<and> gl_windows (hw_gl w') = gl_windows (hw_gl w)"
    if "fd \<in> dom (hg_buffers (hw_graphics w))" for fd
  proof -
    from kept that have eq: "(c, ImageTextureOf fd) \<in> set (gl_live (hw_gl w')) \<longleftrightarrow>
        (c, ImageTextureOf fd) \<in> set (gl_live (hw_gl w))" for c by (auto simp: images_kept_def)
    moreover have "c \<le> gl_windows (hw_gl w)" if "(c, ImageTextureOf fd) \<in> set (gl_live (hw_gl w))" for c
      using ok that by (auto simp: window_ok_def)
    moreover have "gl_windows (hw_gl w) \<le> gl_windows (hw_gl w')" using kept by (simp add: images_kept_def)
    ultimately show ?thesis unfolding image_seen_def by (metis order_antisym)
  qed
  moreover have "let fd = db_fd data in image_seen fd (hw_event imported HgTurn w) \<longleftrightarrow>
         (if fd \<in> dom (hg_buffers (hw_graphics w)) then image_seen fd w else imported fd \<or> image_seen fd w)"
    if "hg_state (hw_graphics w) = RUNNING" "hg_last_state (hw_graphics w) = RUNNING"
      "hg_image_queue (hw_graphics w) = images @ [data]" for images data
  proof (cases "hg_buffers (hw_graphics w) (db_fd data)")
    case None
    with that show ?thesis by (auto simp: hw_event_def hg_turn_def handleRunningState_def buffer_for_def
          makeBuffer_def image_seen_def Let_def)
  next
    case (Some b)
    moreover have "egl_fd b = db_fd data" using ok Some by (simp add: window_ok_def)
    ultimately show ?thesis using that by (auto simp: hw_event_def hg_turn_def handleRunningState_def buffer_for_def
          image_seen_def Let_def)
  qed
  ultimately show ?thesis using ok by (auto simp: window_ok_def)
qed

definition all_ok :: "(bool \<times> bool \<times> bool) \<times> (bool \<times> bool \<times> bool)" where
  "all_ok = ((True, True, True), (True, True, True))"

text \<open>The first window shows the image with descriptor 7; after it was closed and another one opened, that
  descriptor draws nothing.\<close>

definition demo_first :: "window_event list" where
  "demo_first = [Attempt all_ok SetUp, InLoop (HgState RUNNING), InLoop HgTurn, InLoop HgTurn,
     InLoop (HgImage (demo_image 7)), InLoop HgTurn]"

lemma demo_first_run:
  "case hw_run (\<lambda>_. True) demo_first (new_window (hg_StartGraphics HeadsetGraphics)) of None \<Rightarrow> False
   | Some w \<Rightarrow> image_seen 7 w \<and> hg_buffers (hw_graphics w) 7 \<noteq> None \<and> gl_windows (hw_gl w) = 1 \<and>
     (case hw_run (\<lambda>_. True) [WindowClosed, Attempt all_ok SetUp] w of None \<Rightarrow> False
      | Some w' \<Rightarrow> gl_windows (hw_gl w') = 2)"
  by code_simp

theorem image_seen_in_its_window_witness:
  "\<exists>w w'. hw_run (\<lambda>_. True) demo_first (new_window (hg_StartGraphics HeadsetGraphics)) = Some w \<and>
     hw_run (\<lambda>_. True) [WindowClosed, Attempt all_ok SetUp] w = Some w' \<and> image_seen 7 w \<and> \<not> image_seen 7 w'"
proof -
  from demo_first_run obtain w w' where
    w: "hw_run (\<lambda>_. True) demo_first (new_window (hg_StartGraphics HeadsetGraphics)) = Some w"
    and w': "hw_run (\<lambda>_. True) [WindowClosed, Attempt all_ok SetUp] w = Some w'"
    and "image_seen 7 w" "hg_buffers (hw_graphics w) 7 \<noteq> None" "gl_windows (hw_gl w) = 1" "gl_windows (hw_gl w') = 2"
    by (auto split: option.splits simp del: hw_run.simps)
  with image_seen_in_its_window [OF w w'] have "\<not> image_seen 7 w'" by (auto simp: domIff)
  with w w' \<open>image_seen 7 w\<close> show ?thesis by blast
qed

end
