(* ===== verification/Picture_Geometry.thy ===== *)
theory Picture_Geometry
  imports Complex_Main
begin

text \<open>
  The rectangle the graphics threads draw a picture on: the vertices and indices they hand to GLES in
  \<open>headset_graphics.cpp\<close> and \<open>display_graphics.cpp\<close>, and the vertex shader. A fragment of a triangle has the
  same weights for its position and for its texture coordinates, which is what GLES promises for vertices
  in a plane. Numbers are exact, where the code has single precision.
\<close>

section \<open>Vertices\<close>

type_synonym point = "rat \<times> rat"

record vertex =
  v_pos :: point
  v_tex :: point

text \<open>The four corners for a rectangle of half width and half height, and the corners of the two triangles.\<close>

definition vertices :: "rat \<Rightarrow> rat \<Rightarrow> vertex list" where
  "vertices disp_width disp_height =
     [\<lparr>v_pos = (disp_width, disp_height), v_tex = (1, 1)\<rparr>,
      \<lparr>v_pos = (disp_width, - disp_height), v_tex = (1, 0)\<rparr>,
      \<lparr>v_pos = (- disp_width, - disp_height), v_tex = (0, 0)\<rparr>,
      \<lparr>v_pos = (- disp_width, disp_height), v_tex = (0, 1)\<rparr>]"

definition indices :: "nat list" where
  "indices = [0, 1, 3, 1, 2, 3]"

definition headset_vertices :: "nat \<Rightarrow> nat \<Rightarrow> nat \<Rightarrow> nat \<Rightarrow> vertex list" where
  "headset_vertices image_width image_height window_width window_height =
     vertices (of_nat image_width / of_nat window_width) (of_nat image_height / of_nat window_height)"

definition display_vertices :: "vertex list" where
  "display_vertices = vertices 1 1"

text \<open>\<open>displaySetup\<close> of the display computes the factors that would keep the shape of the picture and uses them
  nowhere.\<close>

definition shape_factors :: "nat \<Rightarrow> nat \<Rightarrow> nat \<Rightarrow> nat \<Rightarrow> rat \<times> rat" where
  "shape_factors width height window_width window_height =
     (let w_factor = of_nat width / of_nat window_width; h_factor = of_nat height / of_nat window_height;
          max_dimension = max w_factor h_factor in (w_factor / max_dimension, h_factor / max_dimension))"

text \<open>The vertex shader passes the position on and turns the texture upside down.\<close>

definition vertex_shader :: "vertex \<Rightarrow> vertex" where
  "vertex_shader v = v\<lparr>v_tex := (fst (v_tex v), 1 - snd (v_tex v))\<rparr>"

section \<open>Fragments\<close>

definition mix :: "rat \<Rightarrow> rat \<Rightarrow> rat \<Rightarrow> point \<Rightarrow> point \<Rightarrow> point \<Rightarrow> point" where
  "mix a b c p q r = (a * fst p + b * fst q + c * fst r, a * snd p + b * snd q + c * snd r)"

text \<open>A point of the window with texture coordinates \<open>t\<close> lies in the triangle of the vertices \<open>i\<close>, \<open>j\<close> and \<open>k\<close>.\<close>

definition in_triangle :: "vertex list \<Rightarrow> nat \<Rightarrow> nat \<Rightarrow> nat \<Rightarrow> point \<Rightarrow> point \<Rightarrow> bool" where
  "in_triangle vs i j k p t \<longleftrightarrow> (\<exists>a b c. 0 \<le> a \<and> 0 \<le> b \<and> 0 \<le> c \<and> a + b + c = 1 \<and>
     p = mix a b c (v_pos (vs ! i)) (v_pos (vs ! j)) (v_pos (vs ! k)) \<and>
     t = mix a b c (v_tex (vs ! i)) (v_tex (vs ! j)) (v_tex (vs ! k)))"

fun drawn_at :: "vertex list \<Rightarrow> nat list \<Rightarrow> point \<Rightarrow> point \<Rightarrow> bool" where
  "drawn_at vs (i # j # k # rest) p t \<longleftrightarrow> in_triangle vs i j k p t \<or> drawn_at vs rest p t"
| "drawn_at vs _ p t \<longleftrightarrow> False"

text \<open>The pixel of the window a point is at, from the top left corner, and that of the picture.\<close>

definition window_pixel :: "nat \<Rightarrow> nat \<Rightarrow> point \<Rightarrow> point" where
  "window_pixel width height p = ((fst p + 1) / 2 * of_nat width, (1 - snd p) / 2 * of_nat height)"

definition picture_pixel :: "nat \<Rightarrow> nat \<Rightarrow> point \<Rightarrow> point" where
  "picture_pixel width height t = (fst t * of_nat width, snd t * of_nat height)"

text \<open>The texture coordinates of a point, and when it is in the upper right and in the lower left triangle.\<close>

definition tex_x :: "rat \<Rightarrow> rat \<Rightarrow> rat" where "tex_x dw x = (x / dw + 1) / 2"
definition tex_y :: "rat \<Rightarrow> rat \<Rightarrow> rat" where "tex_y dh y = (1 - y / dh) / 2"

lemma tex_x_of: "0 < dw \<Longrightarrow> x = dw * (2 * u - 1) \<longleftrightarrow> tex_x dw x = u"
  by (auto simp: tex_x_def field_simps)

lemma tex_y_of: "0 < dh \<Longrightarrow> y = dh * (1 - 2 * v) \<longleftrightarrow> tex_y dh y = v"
  by (auto simp: tex_y_def field_simps)

lemma scaled_iff: "0 < k \<Longrightarrow> u * k = r \<longleftrightarrow> u = r / (k :: rat)"
  by (auto simp: field_simps)

lemma upper_mix:
  fixes a b c dw dh :: rat
  assumes "a + b + c = 1"
  defines "vs \<equiv> map vertex_shader (vertices dw dh)"
  shows "mix a b c (v_pos (vs ! 0)) (v_pos (vs ! 1)) (v_pos (vs ! 3)) = (dw * (2 * (1 - c) - 1), dh * (1 - 2 * b))"
    "mix a b c (v_tex (vs ! 0)) (v_tex (vs ! 1)) (v_tex (vs ! 3)) = (1 - c, b)"
proof -
  have a: "a = 1 - b - c" using assms(1) by linarith
  show "mix a b c (v_pos (vs ! 0)) (v_pos (vs ! 1)) (v_pos (vs ! 3)) = (dw * (2 * (1 - c) - 1), dh * (1 - 2 * b))"
    "mix a b c (v_tex (vs ! 0)) (v_tex (vs ! 1)) (v_tex (vs ! 3)) = (1 - c, b)"
    unfolding a by (simp_all add: vs_def vertices_def vertex_shader_def mix_def algebra_simps)
qed

lemma lower_mix:
  fixes a b c dw dh :: rat
  assumes "a + b + c = 1"
  defines "vs \<equiv> map vertex_shader (vertices dw dh)"
  shows "mix a b c (v_pos (vs ! 1)) (v_pos (vs ! 2)) (v_pos (vs ! 3)) = (dw * (2 * a - 1), dh * (1 - 2 * (1 - c)))"
    "mix a b c (v_tex (vs ! 1)) (v_tex (vs ! 2)) (v_tex (vs ! 3)) = (a, 1 - c)"
proof -
  have b: "b = 1 - a - c" using assms(1) by linarith
  show "mix a b c (v_pos (vs ! 1)) (v_pos (vs ! 2)) (v_pos (vs ! 3)) = (dw * (2 * a - 1), dh * (1 - 2 * (1 - c)))"
    "mix a b c (v_tex (vs ! 1)) (v_tex (vs ! 2)) (v_tex (vs ! 3)) = (a, 1 - c)"
    unfolding b by (simp_all add: vs_def vertices_def vertex_shader_def mix_def algebra_simps)
qed

lemma upper_triangle:
  assumes "0 < dw" "0 < dh"
  shows "in_triangle (map vertex_shader (vertices dw dh)) 0 1 3 (x, y) t \<longleftrightarrow>
    tex_x dw x \<le> 1 \<and> 0 \<le> tex_y dh y \<and> tex_y dh y \<le> tex_x dw x \<and> t = (tex_x dw x, tex_y dh y)"
proof -
  have "in_triangle (map vertex_shader (vertices dw dh)) 0 1 3 (x, y) t \<longleftrightarrow>
      (\<exists>a b c. 0 \<le> a \<and> 0 \<le> b \<and> 0 \<le> c \<and> a + b + c = 1 \<and> tex_x dw x = 1 - c \<and> tex_y dh y = b \<and> t = (1 - c, b))"
    unfolding in_triangle_def using upper_mix [of _ _ _ dw dh] tex_x_of [OF assms(1)] tex_y_of [OF assms(2)]
    by (metis (no_types, opaque_lifting) prod.inject)
  also have "\<dots> \<longleftrightarrow> tex_x dw x \<le> 1 \<and> 0 \<le> tex_y dh y \<and> tex_y dh y \<le> tex_x dw x \<and> t = (tex_x dw x, tex_y dh y)" (is "(\<exists>a b c. ?P a b c) \<longleftrightarrow> ?R")
  proof
    assume ?R
    then have "?P (tex_x dw x - tex_y dh y) (tex_y dh y) (1 - tex_x dw x)" by simp
    then show "\<exists>a b c. ?P a b c" by blast
  qed auto
  finally show ?thesis .
qed

lemma lower_triangle:
  assumes "0 < dw" "0 < dh"
  shows "in_triangle (map vertex_shader (vertices dw dh)) 1 2 3 (x, y) t \<longleftrightarrow>
    0 \<le> tex_x dw x \<and> tex_y dh y \<le> 1 \<and> tex_x dw x \<le> tex_y dh y \<and> t = (tex_x dw x, tex_y dh y)"
proof -
  have "in_triangle (map vertex_shader (vertices dw dh)) 1 2 3 (x, y) t \<longleftrightarrow>
      (\<exists>a b c. 0 \<le> a \<and> 0 \<le> b \<and> 0 \<le> c \<and> a + b + c = 1 \<and> tex_x dw x = a \<and> tex_y dh y = 1 - c \<and> t = (a, 1 - c))"
    unfolding in_triangle_def using lower_mix [of _ _ _ dw dh] tex_x_of [OF assms(1)] tex_y_of [OF assms(2)]
    by (metis (no_types, opaque_lifting) prod.inject)
  also have "\<dots> \<longleftrightarrow> 0 \<le> tex_x dw x \<and> tex_y dh y \<le> 1 \<and> tex_x dw x \<le> tex_y dh y \<and> t = (tex_x dw x, tex_y dh y)" (is "(\<exists>a b c. ?P a b c) \<longleftrightarrow> ?R")
  proof
    assume ?R
    then have "?P (tex_x dw x) (tex_y dh y - tex_x dw x) (1 - tex_y dh y)" by simp
    then show "\<exists>a b c. ?P a b c" by blast
  qed auto
  finally show ?thesis .
qed

text \<open>The two triangles make up the rectangle, with one texture coordinate for each point.\<close>

lemma abs_le_tex_x: "0 < dw \<Longrightarrow> \<bar>x\<bar> \<le> dw \<longleftrightarrow> 0 \<le> tex_x dw x \<and> tex_x dw x \<le> 1"
  by (auto simp: tex_x_def field_simps abs_le_iff)

lemma abs_le_tex_y: "0 < dh \<Longrightarrow> \<bar>y\<bar> \<le> dh \<longleftrightarrow> 0 \<le> tex_y dh y \<and> tex_y dh y \<le> 1"
  by (auto simp: tex_y_def field_simps abs_le_iff)

lemma drawn_rectangle:
  assumes "0 < dw" "0 < dh"
  shows "drawn_at (map vertex_shader (vertices dw dh)) indices (x, y) t \<longleftrightarrow>
    \<bar>x\<bar> \<le> dw \<and> \<bar>y\<bar> \<le> dh \<and> t = (tex_x dw x, tex_y dh y)"
proof -
  have "drawn_at (map vertex_shader (vertices dw dh)) indices (x, y) t \<longleftrightarrow>
      in_triangle (map vertex_shader (vertices dw dh)) 0 1 3 (x, y) t \<or>
      in_triangle (map vertex_shader (vertices dw dh)) 1 2 3 (x, y) t"
    by (simp add: indices_def)
  then show ?thesis unfolding upper_triangle [OF assms] lower_triangle [OF assms] abs_le_tex_x [OF assms(1)] abs_le_tex_y [OF assms(2)]
    by auto
qed

section \<open>Where a picture is on the screen\<close>



end
