(* ===== verification/Bsp_Packet.thy ===== *)
theory Bsp_Packet
  imports Packet_Header
begin

text \<open>
  \<open>src/prototype/internal/infrastructure/codec/bsp_packet.hpp\<close>: the datagram of the earlier pipeline, nine
  bytes of packed fields before the encoded picture. The structure ends with a pointer that is not sent;
  \<open>bp_data_start\<close> is its value as an offset into the buffer parsed. A write past the end of a buffer is
  \<open>None\<close>.
\<close>

record bsp_packet =
  bp_id :: byte
  bp_sequence_number :: uint16
  bp_session_number :: uint16
  bp_timestamp :: uint16
  bp_data_length :: uint16
  bp_data_start :: "nat option"

text \<open>\<open>sizeof(BspPacket)\<close> with the pointer, and without it.\<close>

definition sizeof_BspPacket :: nat where "sizeof_BspPacket = 1 + 2 + 2 + 2 + 2 + 8"

definition HeaderSize :: nat where "HeaderSize = sizeof_BspPacket - 8"

definition bsp_header_bytes :: "bsp_packet \<Rightarrow> byte list" where
  "bsp_header_bytes p = bp_id p # le_bytes 2 (unat (bp_sequence_number p)) @ le_bytes 2 (unat (bp_session_number p)) @
     le_bytes 2 (unat (bp_timestamp p)) @ le_bytes 2 (unat (bp_data_length p))"

definition bsp_header_of :: "byte list \<Rightarrow> bsp_packet" where
  "bsp_header_of buffer = \<lparr>bp_id = buffer ! 0, bp_sequence_number = get16 1 buffer, bp_session_number = get16 3 buffer,
     bp_timestamp = get16 5 buffer, bp_data_length = get16 7 buffer, bp_data_start = None\<rparr>"

definition PackFrame :: "byte list \<Rightarrow> byte list \<Rightarrow> bsp_packet \<Rightarrow> (nat \<times> byte list \<times> bsp_packet) option" where
  "PackFrame payload buffer p =
     (let p1 = p\<lparr>bp_data_length := of_nat (length payload)\<rparr> in
      if length buffer < HeaderSize + length payload then None
      else Some (sizeof_BspPacket - 8 + length payload,
        store_at (store_at buffer 0 (bsp_header_bytes p1)) HeaderSize payload, p1))"

definition Pack :: "nat \<Rightarrow> byte list \<Rightarrow> bsp_packet \<Rightarrow> (byte list \<times> bsp_packet) option" where
  "Pack body_size buffer p =
     (let p1 = p\<lparr>bp_data_length := of_nat body_size\<rparr> in
      if length buffer < HeaderSize then None else Some (store_at buffer 0 (bsp_header_bytes p1), p1))"

text \<open>The buffer has \<open>frame_size\<close> bytes at least.\<close>

definition TryParseFrame :: "byte list \<Rightarrow> nat \<Rightarrow> bsp_packet option" where
  "TryParseFrame buffer frame_size = (if frame_size \<le> sizeof_BspPacket then None
     else let header = bsp_header_of (take HeaderSize buffer) in
       if unat (bp_data_length header) \<noteq> frame_size - HeaderSize then None
       else Some (header\<lparr>bp_data_start := Some HeaderSize\<rparr>))"

definition PacketSize :: "bsp_packet \<Rightarrow> nat" where
  "PacketSize p = unat (bp_data_length p) + HeaderSize"

text \<open>What \<open>data_start\<close> and \<open>data_length\<close> point to.\<close>

definition bsp_body :: "byte list \<Rightarrow> bsp_packet \<Rightarrow> byte list" where
  "bsp_body buffer p = take (unat (bp_data_length p)) (drop (the (bp_data_start p)) buffer)"

lemma length_bsp_header_bytes [simp]: "length (bsp_header_bytes p) = HeaderSize"
  by (simp add: bsp_header_bytes_def HeaderSize_def sizeof_BspPacket_def)

lemma HeaderSize_9: "HeaderSize = 9" by (simp add: HeaderSize_def sizeof_BspPacket_def)

lemma bsp_header_read_back: "bsp_header_of (bsp_header_bytes p) = p\<lparr>bp_data_start := None\<rparr>"
proof -
  have "get16 1 (bsp_header_bytes p) = bp_sequence_number p" "get16 3 (bsp_header_bytes p) = bp_session_number p"
    "get16 5 (bsp_header_bytes p) = bp_timestamp p" "get16 7 (bsp_header_bytes p) = bp_data_length p"
    by (simp_all add: get16_def bsp_header_bytes_def le_nat_bytes16 drop_Cons')
  then show ?thesis by (simp add: bsp_header_of_def) (simp add: bsp_header_bytes_def)
qed

text \<open>A buffer that starts with a header and goes on with \<open>n\<close> bytes is taken exactly if it is longer than the
  structure in memory and the length fits the field.\<close>

lemma TryParseFrame_header:
  assumes "bp_data_length p = of_nat n"
  shows "TryParseFrame (bsp_header_bytes p @ rest) (HeaderSize + n) =
    (if 8 < n \<and> n < 2 ^ 16 then Some (p\<lparr>bp_data_start := Some HeaderSize\<rparr>) else None)"
proof (cases "8 < n")
  case True
  then have "TryParseFrame (bsp_header_bytes p @ rest) (HeaderSize + n) =
      (if unat (bp_data_length p) \<noteq> n then None else Some (p\<lparr>bp_data_start := Some HeaderSize\<rparr>))"
    using bsp_header_read_back [of p]
    by (simp add: TryParseFrame_def sizeof_BspPacket_def HeaderSize_def Let_def)
  moreover have "unat (bp_data_length p) = n mod 2 ^ 16" using assms by (simp add: unat_of_nat)
  moreover have "n mod 2 ^ 16 = n \<longleftrightarrow> n < 2 ^ 16" by (simp add: mod_eq_self_iff_div_eq_0 div_eq_0_iff)
  ultimately show ?thesis using True by simp
qed (simp add: TryParseFrame_def HeaderSize_def sizeof_BspPacket_def)

text \<open>C37 (roundtrip): A packed datagram is parsed as the packet it was, with its payload, exactly if the
  payload has more than eight bytes and less than 65536; every other length is refused by the parser.\<close>

theorem bsp_packet_roundtrip:
  assumes "HeaderSize + length payload \<le> length buffer"
  shows "\<exists>buffer'. PackFrame payload buffer p =
      Some (HeaderSize + length payload, buffer', p\<lparr>bp_data_length := of_nat (length payload)\<rparr>) \<and>
    (if 8 < length payload \<and> length payload < 2 ^ 16
     then \<exists>q. TryParseFrame buffer' (HeaderSize + length payload) = Some q \<and> bsp_body buffer' q = payload \<and>
       PacketSize q = HeaderSize + length payload \<and> bp_id q = bp_id p \<and>
       bp_sequence_number q = bp_sequence_number p \<and> bp_session_number q = bp_session_number p \<and>
       bp_timestamp q = bp_timestamp p
     else TryParseFrame buffer' (HeaderSize + length payload) = None)"
proof -
  let ?p = "p\<lparr>bp_data_length := of_nat (length payload)\<rparr>"
  define buffer' where "buffer' = store_at (store_at buffer 0 (bsp_header_bytes ?p)) HeaderSize payload"
  have "buffer' = store_at buffer 0 (bsp_header_bytes ?p @ payload)"
    unfolding buffer'_def using assms store_at_store_at_adjacent [of 0 "bsp_header_bytes ?p" payload buffer] by simp
  then have b: "buffer' = bsp_header_bytes ?p @ payload @ drop (HeaderSize + length payload) buffer"
    by (simp add: store_at_def)
  have pack: "PackFrame payload buffer p = Some (HeaderSize + length payload, buffer', ?p)"
    using assms by (simp add: PackFrame_def Let_def buffer'_def HeaderSize_def)
  note parse = TryParseFrame_header [of ?p "length payload" "payload @ drop (HeaderSize + length payload) buffer",
      folded b, simplified]
  have "unat (of_nat (length payload) :: uint16) = length payload" if "length payload < 2 ^ 16"
    using that by (simp add: unat_of_nat)
  then show ?thesis unfolding pack using parse
    by (auto simp: bsp_body_def PacketSize_def b)
qed

theorem bsp_packet_roundtrip_witness:
  "\<exists>n buffer'. PackFrame (replicate 13 7) (replicate 30 0)
      \<lparr>bp_id = 5, bp_sequence_number = 6, bp_session_number = 7, bp_timestamp = 20, bp_data_length = 0,
       bp_data_start = None\<rparr> = Some (n, buffer', \<lparr>bp_id = 5, bp_sequence_number = 6, bp_session_number = 7,
       bp_timestamp = 20, bp_data_length = 13, bp_data_start = None\<rparr>) \<and> n = 22"
  using bsp_packet_roundtrip [of "replicate 13 7" "replicate 30 0"
      "\<lparr>bp_id = 5, bp_sequence_number = 6, bp_session_number = 7, bp_timestamp = 20, bp_data_length = 0,
       bp_data_start = None\<rparr>"] by (auto simp: HeaderSize_9)

text \<open>\<open>Pack\<close> writes the header before a body that is already in the buffer.\<close>

lemma Pack_parse:
  assumes "HeaderSize + n \<le> length buffer" "8 < n" "n < 2 ^ 16"
  shows "\<exists>buffer' q. Pack n buffer p = Some (buffer', p\<lparr>bp_data_length := of_nat n\<rparr>) \<and>
    TryParseFrame buffer' (HeaderSize + n) = Some q \<and> bsp_body buffer' q = take n (drop HeaderSize buffer) \<and>
    bp_sequence_number q = bp_sequence_number p \<and> bp_session_number q = bp_session_number p \<and>
    bp_timestamp q = bp_timestamp p \<and> length buffer' = length buffer"
proof -
  let ?p = "p\<lparr>bp_data_length := of_nat n\<rparr>"
  define buffer' where "buffer' = store_at buffer 0 (bsp_header_bytes ?p)"
  have b: "buffer' = bsp_header_bytes ?p @ drop HeaderSize buffer" by (simp add: buffer'_def store_at_def)
  have "Pack n buffer p = Some (buffer', ?p)" using assms by (simp add: Pack_def Let_def buffer'_def)
  moreover have "TryParseFrame buffer' (HeaderSize + n) = Some (?p\<lparr>bp_data_start := Some HeaderSize\<rparr>)"
    using assms TryParseFrame_header [of ?p n "drop HeaderSize buffer"] by (simp add: b)
  moreover have "unat (of_nat n :: uint16) = n" using assms(3) by (simp add: unat_of_nat)
  ultimately show ?thesis using assms(1) by (auto simp: bsp_body_def b)
qed

end
