(* ===== verification/Linked_Pool.thy ===== *)
theory Linked_Pool
  imports Prelude
begin

text \<open>
  \<open>src/prototype/internal/utility/buffer_pool.hpp\<close>: the pool of the earlier pipeline, a list of nodes linked
  both ways by \<open>shared_ptr\<close>s between two nodes without data. Nodes live in a heap at addresses; a buffer in
  use is known by the number of \<open>shared_ptr\<close>s outside of the pool. The locale \<open>handle_pool\<close> states the
  contract, a queue of the buffers nobody holds, and proves what its users rely on.
\<close>

section \<open>The contract\<close>

datatype 'b lp_event = TakeOne | CopyOf 'b | GiveBack 'b

locale handle_pool =
  fixes ok :: "'s \<Rightarrow> bool" and store :: "'s \<Rightarrow> 'b list" and free :: "'s \<Rightarrow> 'b list" and held :: "'s \<Rightarrow> 'b \<Rightarrow> nat"
    and take_one :: "'s \<Rightarrow> ('b \<times> 's) option" and copy_of :: "'b \<Rightarrow> 's \<Rightarrow> 's" and give_back :: "'b \<Rightarrow> 's \<Rightarrow> 's"
  assumes ok_distinct: "ok s \<Longrightarrow> distinct (store s)"
    and take_none: "ok s \<Longrightarrow> free s = [] \<Longrightarrow> take_one s = None"
    and take_some: "ok s \<Longrightarrow> free s = b # bs \<Longrightarrow> \<exists>s'. take_one s = Some (b, s') \<and> ok s' \<and> store s' = store s \<and>
      free s' = bs \<and> held s' = (held s)(b := Suc (held s b))"
    and copy_held: "ok s \<Longrightarrow> ok (copy_of b s) \<and> store (copy_of b s) = store s \<and> free (copy_of b s) = free s \<and>
      held (copy_of b s) = (held s)(b := Suc (held s b))"
    and give_shared: "ok s \<Longrightarrow> b \<in> set (store s) \<Longrightarrow> b \<notin> set (free s) \<Longrightarrow> 1 < held s b \<Longrightarrow>
      ok (give_back b s) \<and> store (give_back b s) = store s \<and> free (give_back b s) = free s \<and>
      held (give_back b s) = (held s)(b := held s b - 1)"
    and give_last: "ok s \<Longrightarrow> b \<in> set (store s) \<Longrightarrow> b \<notin> set (free s) \<Longrightarrow> held s b = 1 \<Longrightarrow>
      ok (give_back b s) \<and> store (give_back b s) = store s \<and> free (give_back b s) = free s @ [b] \<and>
      held (give_back b s) = (held s)(b := 0)"
begin

text \<open>A buffer is free exactly if nobody holds it, and in the queue once.\<close>

definition settled :: "'s \<Rightarrow> bool" where
  "settled s \<longleftrightarrow> ok s \<and> distinct (free s) \<and> set (free s) \<subseteq> set (store s) \<and>
     (\<forall>b \<in> set (store s). b \<in> set (free s) \<longleftrightarrow> held s b = 0)"

text \<open>One step of the users, who copy and give back what they hold.\<close>

fun pool_step :: "'b lp_event \<Rightarrow> 's \<Rightarrow> 's" where
  "pool_step TakeOne s = (case take_one s of None \<Rightarrow> s | Some (b, s') \<Rightarrow> s')"
| "pool_step (CopyOf b) s = (if b \<in> set (store s) \<and> 0 < held s b then copy_of b s else s)"
| "pool_step (GiveBack b) s = (if b \<in> set (store s) \<and> 0 < held s b then give_back b s else s)"

lemma pool_step_settled:
  assumes "settled s"
  shows "settled (pool_step e s) \<and> store (pool_step e s) = store s"
proof (cases e)
  case TakeOne
  show ?thesis
  proof (cases "free s")
    case Nil
    with TakeOne assms take_none [of s] show ?thesis by (simp add: settled_def)
  next
    case (Cons b bs)
    with assms take_some [of s b bs] obtain s' where "take_one s = Some (b, s')" "ok s'" "store s' = store s"
      "free s' = bs" "held s' = (held s)(b := Suc (held s b))" by (auto simp: settled_def)
    with TakeOne Cons assms show ?thesis by (auto simp: settled_def)
  qed
next
  case (CopyOf b)
  with assms copy_held [of s b] show ?thesis by (auto simp: settled_def)
next
  case (GiveBack b)
  show ?thesis
  proof (cases "b \<in> set (store s) \<and> 0 < held s b")
    case True
    with assms have "b \<notin> set (free s)" by (auto simp: settled_def)
    with True GiveBack assms give_shared [of s b] give_last [of s b] show ?thesis
      by (cases "held s b = 1") (auto simp: settled_def)
  next
    case False
    with GiveBack assms show ?thesis by auto
  qed
qed

lemma pool_run_settled:
  "settled s \<Longrightarrow> settled (fold pool_step es s) \<and> store (fold pool_step es s) = store s"
  by (induction es arbitrary: s) (auto simp: pool_step_settled)

lemma settled_take:
  assumes "settled s"
  shows "take_one s = None \<longleftrightarrow> (\<forall>b \<in> set (store s). 0 < held s b)"
proof (cases "free s")
  case Nil
  with assms take_none [of s] show ?thesis by (auto simp: settled_def)
next
  case (Cons b bs)
  with assms have "b \<in> set (store s)" "held s b = 0" by (auto simp: settled_def)
  with Cons assms take_some [of s b bs] show ?thesis by (auto simp: settled_def)
qed

lemma settled_count:
  assumes "settled s"
  shows "length (free s) + length (filter (\<lambda>b. 0 < held s b) (store s)) = length (store s)"
proof -
  from assms have "set (free s) = set (filter (\<lambda>b. held s b = 0) (store s))" by (auto simp: settled_def)
  moreover have "distinct (free s)" "distinct (filter (\<lambda>b. held s b = 0) (store s))"
    using assms ok_distinct [of s] by (auto simp: settled_def)
  ultimately have "length (free s) = length (filter (\<lambda>b. held s b = 0) (store s))"
    by (metis distinct_card)
  moreover have "length (filter (\<lambda>b. held s b = 0) xs) + length (filter (\<lambda>b. 0 < held s b) xs) = length xs" for xs
    by (induction xs) auto
  ultimately show ?thesis by metis
qed

end

section \<open>Nodes\<close>

record 'b buffer_node =
  bn_previous :: "nat option"
  bn_buffer :: "'b option"
  bn_next :: "nat option"

definition empty_node :: "'b buffer_node" where
  "empty_node = \<lparr>bn_previous = None, bn_buffer = None, bn_next = None\<rparr>"

type_synonym 'b node_heap = "nat \<Rightarrow> 'b buffer_node option"

definition next_of :: "'b node_heap \<Rightarrow> nat \<Rightarrow> nat option" where
  "next_of h a = Option.bind (h a) bn_next"

definition previous_of :: "'b node_heap \<Rightarrow> nat \<Rightarrow> nat option" where
  "previous_of h a = Option.bind (h a) bn_previous"

definition set_next :: "nat \<Rightarrow> nat option \<Rightarrow> 'b node_heap \<Rightarrow> 'b node_heap" where
  "set_next a v h = h(a := map_option (bn_next_update (\<lambda>_. v)) (h a))"

definition set_previous :: "nat \<Rightarrow> nat option \<Rightarrow> 'b node_heap \<Rightarrow> 'b node_heap" where
  "set_previous a v h = h(a := map_option (bn_previous_update (\<lambda>_. v)) (h a))"

section \<open>The pool\<close>

text \<open>\<open>lp_fresh\<close> is the address the next node gets; \<open>lp_handles b\<close> counts the pointers to the buffer \<open>b\<close> that
  are neither in the store nor in a node.\<close>

record 'b linked_pool =
  lp_heap :: "'b node_heap"
  lp_fresh :: nat
  lp_head :: nat
  lp_tail :: nat
  lp_store :: "'b list"
  lp_available :: uint64
  lp_handles :: "'b \<Rightarrow> nat"

datatype pool_error = NoAvailableBuffers | UntrackedBuffer | NullNode

text \<open>The loop of the constructor: one node after the other is made, filled and linked to the last.\<close>

fun append_nodes :: "'b list \<Rightarrow> nat \<Rightarrow> nat \<Rightarrow> 'b node_heap \<Rightarrow> nat \<times> nat \<times> 'b node_heap" where
  "append_nodes [] node fresh h = (node, fresh, h)"
| "append_nodes (b # bs) node fresh h =
     append_nodes bs fresh (Suc fresh)
       (set_previous fresh (Some node) (set_next node (Some fresh)
         (h(fresh \<mapsto> empty_node\<lparr>bn_buffer := Some b\<rparr>))))"

definition BufferPool :: "'b list \<Rightarrow> 'b linked_pool" where
  "BufferPool initialized = (case append_nodes initialized 0 2 [0 \<mapsto> empty_node, 1 \<mapsto> empty_node] of
     (node, fresh, h) \<Rightarrow>
       \<lparr>lp_heap = set_previous 1 (Some node) (set_next node (Some 1) h), lp_fresh = fresh, lp_head = 0, lp_tail = 1,
        lp_store = initialized, lp_available = of_nat (length initialized), lp_handles = (\<lambda>_. 0)\<rparr>)"

text \<open>\<open>New\<close>: the node after the head is taken out and dies with the last pointer to it at the end of the
  function; its buffer is moved to the caller.\<close>

definition pool_New :: "'b linked_pool \<Rightarrow> pool_error + ('b option \<times> 'b linked_pool)" where
  "pool_New p = (if next_of (lp_heap p) (lp_head p) = Some (lp_tail p) then Inl NoAvailableBuffers
     else case next_of (lp_heap p) (lp_head p) of None \<Rightarrow> Inl NullNode
     | Some r \<Rightarrow> (case (lp_heap p r, next_of (lp_heap p) r) of
         (Some ret, Some n) \<Rightarrow>
           Inr (bn_buffer ret,
             p\<lparr>lp_heap := (set_previous n (Some (lp_head p)) (set_next (lp_head p) (Some n) (lp_heap p)))(r := None),
               lp_available := lp_available p - 1,
               lp_handles := (case bn_buffer ret of None \<Rightarrow> lp_handles p
                 | Some b \<Rightarrow> (lp_handles p)(b := Suc (lp_handles p b)))\<rparr>)
       | _ \<Rightarrow> Inl NullNode))"

text \<open>\<open>use_count\<close> of a pointer to a buffer: the store, the nodes and the pointers outside.\<close>

definition use_count :: "'b option \<Rightarrow> 'b linked_pool \<Rightarrow> nat" where
  "use_count bp p = (case bp of None \<Rightarrow> 0
     | Some b \<Rightarrow> count_list (lp_store p) b +
         length (filter (\<lambda>a. Option.bind (lp_heap p a) bn_buffer = Some b) [0..<lp_fresh p]) + lp_handles p b)"

text \<open>The six assignments that put a new node before the tail.\<close>

definition append_node :: "'b option \<Rightarrow> 'b linked_pool \<Rightarrow> pool_error + 'b linked_pool" where
  "append_node bp p = (case previous_of (lp_heap p) (lp_tail p) of None \<Rightarrow> Inl NullNode
     | Some l \<Rightarrow>
       let node = lp_fresh p;
           h1 = (lp_heap p)(node \<mapsto> empty_node\<lparr>bn_buffer := bp\<rparr>);
           h2 = set_previous node (Some l) h1;
           h3 = set_next l (Some node) h2;
           h4 = set_next node (Some (lp_tail p)) h3;
           h5 = set_previous (lp_tail p) (Some node) h4 in
       Inr (p\<lparr>lp_heap := h5, lp_fresh := Suc node, lp_available := lp_available p + 1\<rparr>))"

definition drop_handle :: "'b option \<Rightarrow> 'b linked_pool \<Rightarrow> 'b linked_pool" where
  "drop_handle bp p = (case bp of None \<Rightarrow> p
     | Some b \<Rightarrow> p\<lparr>lp_handles := (lp_handles p)(b := lp_handles p b - 1)\<rparr>)"

definition copy_handle :: "'b \<Rightarrow> 'b linked_pool \<Rightarrow> 'b linked_pool" where
  "copy_handle b p = p\<lparr>lp_handles := (lp_handles p)(b := Suc (lp_handles p b))\<rparr>"

text \<open>\<open>Free\<close> takes a pointer over: if others than the store have one too it is only dropped, else it is moved
  to a new node.\<close>

definition pool_Free :: "'b option \<Rightarrow> 'b linked_pool \<Rightarrow> pool_error + 'b linked_pool" where
  "pool_Free bp p = (if 2 < use_count bp p then Inr (drop_handle bp p)
     else append_node bp (drop_handle bp p))"

definition FreeRaw :: "'b \<Rightarrow> 'b linked_pool \<Rightarrow> pool_error + 'b linked_pool" where
  "FreeRaw b p = (if b \<notin> set (lp_store p) then Inl UntrackedBuffer else append_node (Some b) p)"

definition AvailableBuffers :: "'b linked_pool \<Rightarrow> uint64" where
  "AvailableBuffers p = lp_available p"

definition OutboundBuffers :: "'b linked_pool \<Rightarrow> uint64" where
  "OutboundBuffers p = of_nat (length (lp_store p)) - lp_available p"

section \<open>What the heap holds\<close>

definition buffer_at :: "'b node_heap \<Rightarrow> nat \<Rightarrow> 'b option" where
  "buffer_at h a = Option.bind (h a) bn_buffer"

text \<open>The nodes from the head to the tail, each pointing to its neighbours.\<close>

fun linked :: "'b node_heap \<Rightarrow> nat list \<Rightarrow> bool" where
  "linked h (a # b # ns) \<longleftrightarrow> next_of h a = Some b \<and> previous_of h b = Some a \<and> linked h (b # ns)"
| "linked h _ \<longleftrightarrow> True"

named_theorems heap_simps \<open>what a read of a node sees of a write\<close>

lemma next_of_simps [heap_simps]:
  "next_of (set_next a v h) x = (if x = a \<and> h a \<noteq> None then v else next_of h x)"
  "next_of (set_previous a v h) x = next_of h x"
  "next_of (h(a := None)) x = (if x = a then None else next_of h x)"
  "next_of (h(a \<mapsto> nd)) x = (if x = a then bn_next nd else next_of h x)"
  by (cases "h a"; simp add: next_of_def set_next_def set_previous_def)+

lemma previous_of_simps [heap_simps]:
  "previous_of (set_previous a v h) x = (if x = a \<and> h a \<noteq> None then v else previous_of h x)"
  "previous_of (set_next a v h) x = previous_of h x"
  "previous_of (h(a := None)) x = (if x = a then None else previous_of h x)"
  "previous_of (h(a \<mapsto> nd)) x = (if x = a then bn_previous nd else previous_of h x)"
  by (cases "h a"; simp add: previous_of_def set_next_def set_previous_def)+

lemma buffer_at_simps [heap_simps]:
  "buffer_at (set_next a v h) x = buffer_at h x"
  "buffer_at (set_previous a v h) x = buffer_at h x"
  "buffer_at (h(a := None)) x = (if x = a then None else buffer_at h x)"
  "buffer_at (h(a \<mapsto> nd)) x = (if x = a then bn_buffer nd else buffer_at h x)"
  by (cases "h a"; simp add: buffer_at_def set_next_def set_previous_def)+

lemma allocated_simps [heap_simps]:
  "set_next a v h x = None \<longleftrightarrow> h x = None"
  "set_previous a v h x = None \<longleftrightarrow> h x = None"
  "dom (set_next a v h) = dom h"
  "dom (set_previous a v h) = dom h"
  by (auto simp: set_next_def set_previous_def)

lemma empty_node_simps [heap_simps]:
  "bn_next (empty_node\<lparr>bn_buffer := bp\<rparr>) = None"
  "bn_previous (empty_node\<lparr>bn_buffer := bp\<rparr>) = None"
  "bn_buffer (empty_node\<lparr>bn_buffer := bp\<rparr>) = bp"
  "bn_next empty_node = None" "bn_previous empty_node = None" "bn_buffer empty_node = None"
  by (simp_all add: empty_node_def)

lemma linked_cong:
  assumes "distinct ns" "\<forall>a \<in> set ns. a = last ns \<or> next_of h' a = next_of h a"
    "\<forall>a \<in> set ns. a = hd ns \<or> previous_of h' a = previous_of h a"
  shows "linked h' ns = linked h ns"
  using assms
proof (induction h ns rule: linked.induct)
  case (1 h a b ns)
  then have "next_of h' a = next_of h a" "previous_of h' b = previous_of h b" by auto
  moreover have "linked h' (b # ns) = linked h (b # ns)" by (rule "1.IH") (use "1.prems" in auto)
  ultimately show ?case by simp
qed auto

lemma linked_append: "linked h (xs @ a # ys) \<longleftrightarrow> linked h (xs @ [a]) \<and> linked h (a # ys)"
proof (induction xs)
  case (Cons x xs)
  then show ?case by (cases xs) auto
qed simp

text \<open>The pool \<open>p\<close> consists of the nodes \<open>ns\<close> between its head and its tail.\<close>

definition nodes_of :: "'b linked_pool \<Rightarrow> nat list \<Rightarrow> bool" where
  "nodes_of p ns \<longleftrightarrow> linked (lp_heap p) (lp_head p # ns @ [lp_tail p]) \<and> distinct (lp_head p # ns @ [lp_tail p]) \<and>
     dom (lp_heap p) = set (lp_head p # ns @ [lp_tail p]) \<and> (\<forall>a \<in> dom (lp_heap p). a < lp_fresh p)"

definition contents :: "'b linked_pool \<Rightarrow> nat list \<Rightarrow> 'b option list" where
  "contents p ns = map (buffer_at (lp_heap p)) ns"

lemma distinct_below:
  assumes "distinct xs" "\<forall>a \<in> set xs. a < n"
  shows "length xs \<le> (n::nat)"
proof -
  have "card (set xs) \<le> card {..<n}" using assms(2) by (intro card_mono) auto
  with assms(1) show ?thesis by (simp add: distinct_card)
qed

section \<open>The operations on the nodes\<close>

lemma pool_New_empty:
  assumes "nodes_of p []"
  shows "pool_New p = Inl NoAvailableBuffers"
  using assms by (auto simp: nodes_of_def pool_New_def)

lemma pool_New_nodes:
  assumes "nodes_of p (r # ns)"
  shows "\<exists>p'. pool_New p = Inr (buffer_at (lp_heap p) r, p') \<and> nodes_of p' ns \<and> contents p' ns = contents p ns \<and>
    contents p' [lp_head p', lp_tail p'] = contents p [lp_head p, lp_tail p] \<and>
    lp_store p' = lp_store p \<and> lp_fresh p' = lp_fresh p \<and> lp_available p' = lp_available p - 1 \<and>
    lp_handles p' = (case buffer_at (lp_heap p) r of None \<Rightarrow> lp_handles p
      | Some b \<Rightarrow> (lp_handles p)(b := Suc (lp_handles p b)))"
proof -
  let ?h = "lp_heap p" and ?hd = "lp_head p" and ?tl = "lp_tail p"
  obtain n ms where nms: "ns @ [?tl] = n # ms" by (cases ns) auto
  have l: "linked ?h (?hd # r # n # ms)" and d: "distinct (?hd # r # n # ms)"
    and dom: "dom ?h = set (?hd # r # n # ms)" and fresh: "\<forall>a \<in> dom ?h. a < lp_fresh p"
    using assms nms by (auto simp: nodes_of_def)
  from dom have "r \<in> dom ?h" by simp
  then obtain ret where ret: "?h r = Some ret" by auto
  have tl: "?tl \<in> set (n # ms)" by (metis nms in_set_conv_decomp)
  define h' where "h' = (set_previous n (Some ?hd) (set_next ?hd (Some n) ?h))(r := None)"
  define p' where "p' = p\<lparr>lp_heap := h', lp_available := lp_available p - 1,
     lp_handles := (case bn_buffer ret of None \<Rightarrow> lp_handles p | Some b \<Rightarrow> (lp_handles p)(b := Suc (lp_handles p b)))\<rparr>"
  have "?hd \<in> dom ?h" "n \<in> dom ?h" using dom by auto
  then have al: "?h ?hd \<noteq> None" "?h n \<noteq> None" by auto
  have "linked h' (n # ms) = linked ?h (n # ms)"
    by (rule linked_cong) (use d in \<open>auto simp: h'_def heap_simps\<close>)
  with l d al have "linked h' (?hd # n # ms)" by (auto simp: h'_def heap_simps)
  moreover have "dom h' = set (?hd # n # ms)" using dom d by (auto simp: h'_def heap_simps)
  moreover have "\<forall>a \<in> dom h'. a < lp_fresh p" using fresh dom calculation(2) by auto
  ultimately have "nodes_of p' ns" using d nms by (auto simp: nodes_of_def p'_def)
  moreover have "contents p' ns = contents p ns"
  proof -
    have "r \<notin> set ns" using d nms by (metis UnI1 distinct.simps(2) set_append)
    then show ?thesis by (auto simp: contents_def p'_def h'_def heap_simps)
  qed
  moreover have "pool_New p = Inr (buffer_at ?h r, p')"
    using l d tl ret by (auto simp: pool_New_def p'_def h'_def buffer_at_def)
  moreover have "contents p' [lp_head p', lp_tail p'] = contents p [?hd, ?tl]"
    using d tl by (auto simp: contents_def p'_def h'_def heap_simps)
  ultimately show ?thesis using ret by (auto simp: p'_def buffer_at_def)
qed

lemma append_node_nodes:
  assumes "nodes_of p ns"
  shows "\<exists>p'. append_node bp p = Inr p' \<and> nodes_of p' (ns @ [lp_fresh p]) \<and>
    contents p' (ns @ [lp_fresh p]) = contents p ns @ [bp] \<and>
    contents p' [lp_head p', lp_tail p'] = contents p [lp_head p, lp_tail p] \<and>
    lp_store p' = lp_store p \<and> lp_available p' = lp_available p + 1 \<and> lp_handles p' = lp_handles p"
proof -
  let ?h = "lp_heap p" and ?hd = "lp_head p" and ?tl = "lp_tail p" and ?n = "lp_fresh p"
  define l where "l = last (?hd # ns)"
  define xs where "xs = butlast (?hd # ns)"
  have xl: "?hd # ns = xs @ [l]" by (simp add: l_def xs_def)
  then have "(?hd # ns) @ [?tl] = (xs @ [l]) @ [?tl]" by (rule arg_cong)
  then have all: "?hd # ns @ [?tl] = xs @ [l, ?tl]" by simp
  have inv: "linked ?h (xs @ [l, ?tl]) \<and> distinct (xs @ [l, ?tl]) \<and> dom ?h = set (xs @ [l, ?tl]) \<and>
      (\<forall>a \<in> dom ?h. a < ?n)"
    using assms unfolding nodes_of_def all .
  then have lk: "linked ?h (xs @ [l, ?tl])" by (rule conjunct1)
  from inv have d: "distinct (xs @ [l, ?tl])" by (elim conjE)
  from inv have dom: "dom ?h = set (xs @ [l, ?tl])" by (elim conjE)
  from inv have fresh: "\<forall>a \<in> dom ?h. a < ?n" by (elim conjE)
  from lk have prev: "previous_of ?h ?tl = Some l" using linked_append [of ?h xs l "[?tl]"] by simp
  have new: "?n \<notin> set (xs @ [l, ?tl])" using fresh dom by blast
  have "l \<in> dom ?h" "?tl \<in> dom ?h" using dom by auto
  then have al: "?h l \<noteq> None" "?h ?tl \<noteq> None" by auto
  define h' where "h' = set_previous ?tl (Some ?n) (set_next ?n (Some ?tl) (set_next l (Some ?n)
    (set_previous ?n (Some l) (?h(?n \<mapsto> empty_node\<lparr>bn_buffer := bp\<rparr>)))))"
  define p' where "p' = p\<lparr>lp_heap := h', lp_fresh := Suc ?n, lp_available := lp_available p + 1\<rparr>"
  have op: "append_node bp p = Inr p'" using prev by (simp add: append_node_def p'_def h'_def Let_def)
  have "linked h' (xs @ [l]) = linked ?h (xs @ [l])"
    by (rule linked_cong) (use d new in \<open>auto simp: h'_def heap_simps\<close>)
  moreover have "linked ?h (xs @ [l])" using lk linked_append by blast
  ultimately have "linked h' (xs @ [l])" by simp
  moreover have "linked h' [l, ?n, ?tl]" using d new al by (auto simp: h'_def heap_simps)
  ultimately have "linked h' (xs @ l # [?n, ?tl])" using linked_append by blast
  moreover have "xs @ l # [?n, ?tl] = ?hd # (ns @ [?n]) @ [?tl]" using arg_cong [OF xl, of "\<lambda>zs. zs @ [?n, ?tl]"] by simp
  ultimately have "linked h' (?hd # (ns @ [?n]) @ [?tl])" by simp
  moreover have "distinct (?hd # (ns @ [?n]) @ [?tl])" using d new xl assms by (auto simp: nodes_of_def)
  moreover have "dom h' = set (?hd # (ns @ [?n]) @ [?tl])"
    using assms by (auto simp: h'_def heap_simps nodes_of_def)
  moreover have "\<forall>a \<in> dom h'. a < Suc ?n" using fresh by (auto simp: h'_def heap_simps intro: less_SucI)
  ultimately have "nodes_of p' (ns @ [?n])" by (simp add: nodes_of_def p'_def)
  moreover have "contents p' (ns @ [?n]) = contents p ns @ [bp]"
  proof -
    have "set (?hd # ns) = set (xs @ [l])" using xl by (rule arg_cong)
    with new have "?n \<notin> set ns" by auto
    then have "map (buffer_at h') ns = map (buffer_at ?h) ns" by (auto simp: h'_def heap_simps)
    moreover have "buffer_at h' ?n = bp" by (simp add: h'_def heap_simps)
    ultimately show ?thesis by (simp add: contents_def p'_def)
  qed
  moreover have "contents p' [lp_head p', lp_tail p'] = contents p [?hd, ?tl]"
  proof -
    have "?n \<notin> set (?hd # ns @ [?tl])" using new unfolding all .
    then have "?hd \<noteq> ?n" "?tl \<noteq> ?n" by auto
    then show ?thesis by (simp add: contents_def p'_def h'_def heap_simps)
  qed
  ultimately show ?thesis using op by (simp add: p'_def)
qed

text \<open>The constructor links the nodes of the initialized buffers.\<close>

lemma append_nodes_linked:
  assumes "append_nodes bs node fresh h = (node', fresh', h')" "linked h (pre @ [node])" "distinct (pre @ [node])"
    "set (pre @ [node]) \<union> {1} = dom h" "1 \<notin> set (pre @ [node])" "\<forall>a \<in> dom h. a < fresh"
  shows "\<exists>ns. last (node # ns) = node' \<and> linked h' (pre @ node # ns) \<and>
    distinct (pre @ node # ns) \<and> set (pre @ node # ns) \<union> {1} = dom h' \<and> 1 \<notin> set (pre @ node # ns) \<and>
    (\<forall>a \<in> dom h'. a < fresh') \<and> map (buffer_at h') ns = map Some bs \<and>
    (\<forall>a \<in> dom h. buffer_at h' a = buffer_at h a)"
  using assms
proof (induction bs arbitrary: node fresh h pre)
  case Nil
  then show ?case by (intro exI [of _ "[]"]) auto
next
  case (Cons b bs)
  let ?h = "set_previous fresh (Some node) (set_next node (Some fresh) (h(fresh \<mapsto> empty_node\<lparr>bn_buffer := Some b\<rparr>)))"
  have fr: "fresh \<notin> dom h" using Cons.prems by blast
  then have fr': "fresh \<notin> set (pre @ [node])" "fresh \<noteq> 1" using Cons.prems(4) by auto
  have "linked ?h (pre @ [node]) = linked h (pre @ [node])"
    by (rule linked_cong) (use Cons.prems(3) fr' in \<open>auto simp: heap_simps\<close>)
  moreover have "h node \<noteq> None" using Cons.prems(4) by (auto simp: domIff [symmetric])
  ultimately have l: "linked ?h ((pre @ [node]) @ [fresh])"
    using Cons.prems(2) fr' linked_append [of ?h pre node "[fresh]"] by (simp add: heap_simps)
  from Cons.prems(1) have run: "append_nodes bs fresh (Suc fresh) ?h = (node', fresh', h')" by simp
  have d: "distinct ((pre @ [node]) @ [fresh])" "1 \<notin> set ((pre @ [node]) @ [fresh])" using Cons.prems(3,5) fr' by auto
  have dm: "set ((pre @ [node]) @ [fresh]) \<union> {1} = dom ?h" using Cons.prems(4) by (auto simp: heap_simps)
  have below: "\<forall>a \<in> dom ?h. a < Suc fresh" using Cons.prems(6) by (auto simp: heap_simps intro: less_SucI)
  from Cons.IH [OF run l d(1) dm d(2) below] obtain ns where ns:
    "last (fresh # ns) = node'"
    "linked h' ((pre @ [node]) @ fresh # ns)" "distinct ((pre @ [node]) @ fresh # ns)"
    "set ((pre @ [node]) @ fresh # ns) \<union> {1} = dom h'" "1 \<notin> set ((pre @ [node]) @ fresh # ns)"
    "\<forall>a \<in> dom h'. a < fresh'" "map (buffer_at h') ns = map Some bs"
    "\<forall>a \<in> dom ?h. buffer_at h' a = buffer_at ?h a"
    by (elim exE conjE)
  have "buffer_at h' fresh = Some b" using ns(8) by (auto simp: heap_simps)
  moreover have "\<forall>a \<in> dom h. buffer_at h' a = buffer_at h a" using ns(8) fr by (auto simp: heap_simps)
  ultimately show ?case using ns by (intro exI [of _ "fresh # ns"]) auto
qed

section \<open>The free buffers\<close>

fun walk :: "nat \<Rightarrow> 'b node_heap \<Rightarrow> nat option \<Rightarrow> nat \<Rightarrow> nat list" where
  "walk (Suc k) h (Some a) t = (if a = t then [] else a # walk k h (next_of h a) t)"
| "walk _ _ _ _ = []"

definition free_nodes :: "'b linked_pool \<Rightarrow> nat list" where
  "free_nodes p = walk (lp_fresh p) (lp_heap p) (next_of (lp_heap p) (lp_head p)) (lp_tail p)"

definition free_buffers :: "'b linked_pool \<Rightarrow> 'b list" where
  "free_buffers p = map (the \<circ> buffer_at (lp_heap p)) (free_nodes p)"

lemma walk_linked:
  "linked h (a # ns @ [t]) \<Longrightarrow> t \<notin> set ns \<Longrightarrow> length ns \<le> k \<Longrightarrow> walk k h (next_of h a) t = ns"
proof (induction ns arbitrary: a k)
  case Nil
  then show ?case by (cases k) auto
next
  case (Cons b ns)
  then show ?case by (cases k) auto
qed

lemma nodes_of_walk:
  assumes "nodes_of p ns"
  shows "free_nodes p = ns"
proof -
  from assms have "length ns \<le> lp_fresh p" by (intro distinct_below) (auto simp: nodes_of_def)
  with assms show ?thesis unfolding free_nodes_def by (intro walk_linked) (auto simp: nodes_of_def)
qed

text \<open>The pool is in order: its nodes are linked and each has a buffer, but for the two at the ends, and the
  count is right.\<close>

definition pool_ok :: "'b linked_pool \<Rightarrow> bool" where
  "pool_ok p \<longleftrightarrow> nodes_of p (free_nodes p) \<and> distinct (lp_store p) \<and> None \<notin> set (contents p (free_nodes p)) \<and>
     contents p [lp_head p, lp_tail p] = [None, None] \<and> lp_available p = of_nat (length (free_nodes p))"

lemma pool_okI:
  assumes "nodes_of p ns" "distinct (lp_store p)" "contents p ns = map Some bs"
    "contents p [lp_head p, lp_tail p] = [None, None]" "lp_available p = of_nat (length bs)"
  shows "pool_ok p \<and> free_buffers p = bs"
proof -
  note w = nodes_of_walk [OF assms(1)]
  have "length ns = length bs" using assms(3) by (metis contents_def length_map)
  moreover have "free_buffers p = map the (contents p ns)" by (simp add: free_buffers_def w contents_def)
  ultimately show ?thesis using assms w by (auto simp: pool_ok_def comp_def)
qed

lemma pool_okE:
  assumes "pool_ok p"
  shows "nodes_of p (free_nodes p)" "contents p (free_nodes p) = map Some (free_buffers p)"
    "length (free_nodes p) = length (free_buffers p)"
proof -
  show "nodes_of p (free_nodes p)" using assms by (simp add: pool_ok_def)
  show "contents p (free_nodes p) = map Some (free_buffers p)"
    using assms by (auto simp: pool_ok_def contents_def free_buffers_def)
      (metis image_eqI option.collapse)
  show "length (free_nodes p) = length (free_buffers p)" by (simp add: free_buffers_def)
qed

lemma BufferPool_ok:
  assumes "distinct bs"
  shows "pool_ok (BufferPool bs) \<and> free_buffers (BufferPool bs) = bs"
proof -
  let ?h0 = "[0 \<mapsto> empty_node, 1 \<mapsto> empty_node] :: 'a node_heap"
  obtain node fresh h where run: "append_nodes bs 0 2 ?h0 = (node, fresh, h)" by (metis prod_cases3)
  have "\<exists>ns. last (0 # ns) = node \<and> linked h ([] @ 0 # ns) \<and>
    distinct ([] @ 0 # ns) \<and> set ([] @ 0 # ns) \<union> {1} = dom h \<and> 1 \<notin> set ([] @ 0 # ns) \<and>
    (\<forall>a \<in> dom h. a < fresh) \<and> map (buffer_at h) ns = map Some bs \<and>
    (\<forall>a \<in> dom ?h0. buffer_at h a = buffer_at ?h0 a)"
    by (rule append_nodes_linked [OF run]) auto
  then obtain ns where ns: "last (0 # ns) = node" "linked h (0 # ns)" "distinct (0 # ns)"
    "set (0 # ns) \<union> {1} = dom h" "1 \<notin> set (0 # ns)" "\<forall>a \<in> dom h. a < fresh"
    "map (buffer_at h) ns = map Some bs" "\<forall>a \<in> dom ?h0. buffer_at h a = buffer_at ?h0 a" by auto
  define h' where "h' = set_previous 1 (Some node) (set_next node (Some 1) h)"
  have "node \<in> set (0 # ns)" using ns(1) by (metis last_in_set list.distinct(1))
  then have al: "h node \<noteq> None" "h 1 \<noteq> None" "node \<noteq> 1" using ns(4,5) by blast+
  have split: "butlast (0 # ns) @ [node] = 0 # ns" using ns(1) by (metis append_butlast_last_id list.distinct(1))
  have "linked h' (0 # ns) = linked h (0 # ns)"
    by (rule linked_cong) (use ns in \<open>auto simp: h'_def heap_simps\<close>)
  with ns(2) have "linked h' (butlast (0 # ns) @ [node])" using split by simp
  moreover have "linked h' [node, 1]" using al by (auto simp: h'_def heap_simps)
  ultimately have "linked h' (butlast (0 # ns) @ [node, 1])" using linked_append by blast
  moreover have "butlast (0 # ns) @ [node, 1] = 0 # ns @ [1]" using split by (metis append_Cons append_assoc append_Nil)
  ultimately have l: "linked h' (0 # ns @ [1])" by metis
  have pool: "BufferPool bs = \<lparr>lp_heap = h', lp_fresh = fresh, lp_head = 0, lp_tail = 1, lp_store = bs,
      lp_available = of_nat (length bs), lp_handles = (\<lambda>_. 0)\<rparr>"
    using run by (simp add: BufferPool_def h'_def)
  have bufs: "buffer_at h' = buffer_at h" by (rule ext) (simp add: h'_def heap_simps)
  have "nodes_of (BufferPool bs) ns"
    using l ns(3-6) by (auto simp: nodes_of_def pool h'_def heap_simps)
  moreover have "contents (BufferPool bs) ns = map Some bs" using ns(7) by (simp add: contents_def pool bufs comp_def)
  moreover have "contents (BufferPool bs) [0, 1] = [None, None]"
    using ns(8) by (simp add: contents_def pool bufs) (simp add: buffer_at_def empty_node_def)
  ultimately show ?thesis using assms by (intro pool_okI) (auto simp: pool)
qed

section \<open>The pool keeps the contract\<close>

definition take_one :: "'b linked_pool \<Rightarrow> ('b \<times> 'b linked_pool) option" where
  "take_one p = (case pool_New p of Inr (Some b, p') \<Rightarrow> Some (b, p') | _ \<Rightarrow> None)"

definition give_back :: "'b \<Rightarrow> 'b linked_pool \<Rightarrow> 'b linked_pool" where
  "give_back b p = (case pool_Free (Some b) p of Inr p' \<Rightarrow> p' | Inl _ \<Rightarrow> p)"

lemma pool_ok_handles [simp]: "pool_ok (p\<lparr>lp_handles := f\<rparr>) = pool_ok p"
  "free_buffers (p\<lparr>lp_handles := f\<rparr>) = free_buffers p"
  by (simp_all add: pool_ok_def nodes_of_def contents_def free_nodes_def free_buffers_def)

lemma pool_New_none: "pool_ok p \<Longrightarrow> free_buffers p = [] \<Longrightarrow> pool_New p = Inl NoAvailableBuffers"
  by (metis length_0_conv pool_New_empty pool_okE(1,3))

lemma pool_New_some:
  assumes "pool_ok p" "free_buffers p = b # bs"
  shows "\<exists>p'. pool_New p = Inr (Some b, p') \<and> pool_ok p' \<and> lp_store p' = lp_store p \<and> free_buffers p' = bs \<and>
    lp_handles p' = (lp_handles p)(b := Suc (lp_handles p b))"
proof -
  note E = pool_okE [OF assms(1)]
  from E(3) assms(2) obtain r ns where rns: "free_nodes p = r # ns" by (cases "free_nodes p") auto
  with E assms(2) have n: "nodes_of p (r # ns)" "buffer_at (lp_heap p) r = Some b" "contents p ns = map Some bs"
    "length ns = length bs" by (auto simp: contents_def)
  from pool_New_nodes [OF n(1)] n(2) obtain p' where p': "pool_New p = Inr (Some b, p')" "nodes_of p' ns"
    "contents p' ns = contents p ns" "contents p' [lp_head p', lp_tail p'] = contents p [lp_head p, lp_tail p]"
    "lp_store p' = lp_store p" "lp_available p' = lp_available p - 1"
    "lp_handles p' = (lp_handles p)(b := Suc (lp_handles p b))" by auto
  have "pool_ok p' \<and> free_buffers p' = bs"
    by (rule pool_okI [OF p'(2)]) (use assms(1) p' n rns in \<open>simp_all add: pool_ok_def\<close>)
  with p' show ?thesis by auto
qed

lemma append_node_ok:
  assumes "pool_ok p"
  shows "\<exists>p'. append_node (Some b) p = Inr p' \<and> pool_ok p' \<and> lp_store p' = lp_store p \<and>
    free_buffers p' = free_buffers p @ [b] \<and> lp_handles p' = lp_handles p"
proof -
  note E = pool_okE [OF assms]
  from append_node_nodes [OF E(1), of "Some b"] obtain p' where p': "append_node (Some b) p = Inr p'"
    "nodes_of p' (free_nodes p @ [lp_fresh p])"
    "contents p' (free_nodes p @ [lp_fresh p]) = contents p (free_nodes p) @ [Some b]"
    "contents p' [lp_head p', lp_tail p'] = contents p [lp_head p, lp_tail p]"
    "lp_store p' = lp_store p" "lp_available p' = lp_available p + 1" "lp_handles p' = lp_handles p" by auto
  have "pool_ok p' \<and> free_buffers p' = free_buffers p @ [b]"
    by (rule pool_okI [OF p'(2)]) (use assms p' E in \<open>simp_all add: pool_ok_def\<close>)
  with p' show ?thesis by auto
qed

lemma count_list_distinct: "distinct xs \<Longrightarrow> x \<in> set xs \<Longrightarrow> count_list xs x = 1"
  by (induction xs) (auto simp: count_notin)

text \<open>Somebody who holds a buffer that is not in the list sees the store and the holders.\<close>

lemma use_count_held:
  assumes "pool_ok p" "b \<in> set (lp_store p)" "b \<notin> set (free_buffers p)"
  shows "use_count (Some b) p = Suc (lp_handles p b)"
proof -
  note E = pool_okE [OF assms(1)]
  have "buffer_at (lp_heap p) a \<noteq> Some b" for a
  proof (cases "a \<in> dom (lp_heap p)")
    case True
    with E(1) consider "a = lp_head p \<or> a = lp_tail p" | "a \<in> set (free_nodes p)" by (auto simp: nodes_of_def)
    then show ?thesis
    proof cases
      case 1
      with assms(1) show ?thesis by (auto simp: pool_ok_def contents_def)
    next
      case 2
      then have "buffer_at (lp_heap p) a \<in> set (contents p (free_nodes p))" by (simp add: contents_def)
      with E(2) assms(3) show ?thesis by auto
    qed
  next
    case False
    then show ?thesis by (auto simp: buffer_at_def)
  qed
  moreover have "count_list (lp_store p) b = 1"
    using assms(1,2) by (simp add: pool_ok_def count_list_distinct)
  ultimately show ?thesis by (simp add: use_count_def buffer_at_def)
qed

interpretation lpool: handle_pool pool_ok lp_store free_buffers lp_handles take_one copy_handle give_back
proof (unfold_locales, goal_cases)
  case (1 p)
  then show ?case by (simp add: pool_ok_def)
next
  case (2 p)
  then show ?case by (simp add: take_one_def pool_New_none)
next
  case (3 p b bs)
  from pool_New_some [OF 3] show ?case by (auto simp: take_one_def)
next
  case (4 p b)
  then show ?case by (simp add: copy_handle_def)
next
  case (5 p b)
  then show ?case by (simp add: give_back_def pool_Free_def use_count_held drop_handle_def)
next
  case (6 p b)
  then have "use_count (Some b) p = 2" by (simp add: use_count_held)
  moreover have "pool_ok (drop_handle (Some b) p)" using 6 by (simp add: drop_handle_def)
  from append_node_ok [OF this, of b] have "\<exists>p'. append_node (Some b) (drop_handle (Some b) p) = Inr p' \<and>
      pool_ok p' \<and> lp_store p' = lp_store p \<and> free_buffers p' = free_buffers p @ [b] \<and>
      lp_handles p' = (lp_handles p)(b := 0)" using 6 by (simp add: drop_handle_def)
  ultimately show ?case by (auto simp: give_back_def pool_Free_def)
qed

section \<open>Runs of the pool\<close>

text \<open>What its users do: take a buffer, copy a pointer they have, give a pointer back.\<close>

fun lp_event_step :: "'b lp_event \<Rightarrow> 'b linked_pool \<Rightarrow> 'b linked_pool" where
  "lp_event_step TakeOne p = (case pool_New p of Inl _ \<Rightarrow> p | Inr (_, p') \<Rightarrow> p')"
| "lp_event_step (CopyOf b) p = (if b \<in> set (lp_store p) \<and> 0 < lp_handles p b then copy_handle b p else p)"
| "lp_event_step (GiveBack b) p = (if b \<in> set (lp_store p) \<and> 0 < lp_handles p b
     then case pool_Free (Some b) p of Inl _ \<Rightarrow> p | Inr p' \<Rightarrow> p' else p)"

lemma pool_event_step_is_step:
  assumes "pool_ok p"
  shows "lp_event_step e p = lpool.pool_step e p"
proof (cases e)
  case TakeOne
  show ?thesis
  proof (cases "free_buffers p")
    case Nil
    with assms TakeOne show ?thesis by (simp add: take_one_def pool_New_none)
  next
    case (Cons b bs)
    with pool_New_some [OF assms Cons] TakeOne show ?thesis by (auto simp: take_one_def)
  qed
qed (auto simp: give_back_def split: sum.splits)

lemma pool_event_run:
  assumes "lpool.settled p"
  shows "fold lp_event_step es p = fold lpool.pool_step es p"
  using assms
proof (induction es arbitrary: p)
  case (Cons e es)
  then have "lp_event_step e p = lpool.pool_step e p"
    by (intro pool_event_step_is_step) (simp add: lpool.settled_def)
  with Cons lpool.pool_step_settled [OF Cons.prems] show ?case by simp
qed simp

lemma BufferPool_settled: "distinct bs \<Longrightarrow> lpool.settled (BufferPool bs) \<and> lp_store (BufferPool bs) = bs \<and>
    lp_handles (BufferPool bs) = (\<lambda>_. 0)"
  using BufferPool_ok [of bs] by (auto simp: lpool.settled_def BufferPool_def split: prod.splits)

lemma pool_run_in_order:
  fixes bs :: "'b list" and es :: "'b lp_event list"
  assumes "distinct bs"
  defines "p \<equiv> fold lp_event_step es (BufferPool bs)"
  shows "lpool.settled p \<and> lp_store p = bs"
  unfolding p_def
  using BufferPool_settled [OF assms(1)] lpool.pool_run_settled [of "BufferPool bs" es]
    pool_event_run [of "BufferPool bs" es] by simp



section \<open>Where the contract is not kept\<close>

text \<open>\<open>FreeRaw\<close> asks for no count: a buffer given back twice is in the list twice, two users get it, and the
  count of those in use passes below zero.\<close>

lemma free_raw_twice:
  assumes "distinct bs" "b \<in> set bs"
  shows "\<exists>p1 p2. FreeRaw b (BufferPool bs) = Inr p1 \<and> FreeRaw b p1 = Inr p2 \<and>
    free_buffers p2 = bs @ [b, b] \<and> OutboundBuffers p2 = - 2"
proof -
  let ?p = "BufferPool bs"
  have s: "pool_ok ?p" "free_buffers ?p = bs" "lp_store ?p = bs"
    using BufferPool_ok [OF assms(1)] BufferPool_settled [OF assms(1)] by auto
  from append_node_ok [OF s(1), of b] obtain p1 where p1: "append_node (Some b) ?p = Inr p1" "pool_ok p1"
    "lp_store p1 = bs" "free_buffers p1 = bs @ [b]" using s by auto
  from append_node_ok [OF p1(2), of b] obtain p2 where p2: "append_node (Some b) p1 = Inr p2" "pool_ok p2"
    "lp_store p2 = bs" "free_buffers p2 = bs @ [b, b]" using p1 by auto
  have "lp_available p2 = of_nat (length bs + 2)" using p2 pool_okE(3) [OF p2(2)] by (simp add: pool_ok_def)
  then have "OutboundBuffers p2 = - 2" using p2 by (simp add: OutboundBuffers_def)
  with p1 p2 s assms(2) show ?thesis by (auto simp: FreeRaw_def)
qed

text \<open>The nodes own each other: when the pool is destroyed none of them is, nor the buffers in them.\<close>

lemma pool_nodes_own_each_other:
  assumes "pool_ok p" "a \<in> dom (lp_heap p)"
  shows "\<exists>c \<in> dom (lp_heap p). next_of (lp_heap p) c = Some a \<or> previous_of (lp_heap p) c = Some a"
proof -
  let ?all = "lp_head p # free_nodes p @ [lp_tail p]"
  have l: "linked (lp_heap p) ?all" and d: "dom (lp_heap p) = set ?all"
    using assms(1) by (simp_all add: pool_ok_def nodes_of_def)
  have "\<lbrakk>linked h xs; 2 \<le> length xs; x \<in> set xs\<rbrakk> \<Longrightarrow>
      \<exists>c \<in> set xs. next_of h c = Some x \<or> previous_of h c = Some x" for h :: "'a node_heap" and xs x
  proof (induction h xs rule: linked.induct)
    case (1 h a b ns)
    then show ?case by (cases ns) auto
  qed auto
  from this [OF l _ assms(2) [unfolded d]] show ?thesis unfolding d by simp
qed

end
