(* ===== verification/Bsp_Codec.thy ===== *)
theory Bsp_Codec
  imports Bsp_Packet Linked_Pool
begin

text \<open>
  \<open>src/prototype/internal\<close>: the worker thread of \<open>utility/worker_thread.hpp\<close>, the encoder and the decoder of
  \<open>infrastructure/codec\<close> with their numbering, as \<open>cuda/cuda_encoder.cpp\<close> and \<open>cuda/cuda_decoder.cpp\<close> complete
  them. What NVENC makes of a picture is the function \<open>encode\<close>, and \<open>calls\<close> says how many pictures each of the
  calls of NVDEC for a datagram returns. An exception in the worker, which is \<open>noexcept\<close>, ends the program
  and is \<open>None\<close>.
\<close>

section \<open>The worker thread\<close>

record 'a worker_thread =
  wt_thread :: bool
  wt_queue :: "'a list"

definition CreateWorkerThread :: "'a worker_thread" where
  "CreateWorkerThread = \<lparr>wt_thread = False, wt_queue = []\<rparr>"

definition wt_Start :: "'a worker_thread \<Rightarrow> 'a worker_thread" where
  "wt_Start w = (let w1 = w\<lparr>wt_queue := []\<rparr> in if \<not> wt_thread w1 then w1\<lparr>wt_thread := True\<rparr> else w1)"

definition wt_PostWork :: "'a \<Rightarrow> 'a worker_thread \<Rightarrow> 'a worker_thread" where
  "wt_PostWork a w = w\<lparr>wt_queue := wt_queue w @ [a]\<rparr>"

definition wt_Stop :: "'a worker_thread \<Rightarrow> 'a worker_thread" where
  "wt_Stop w = (let w1 = (if wt_thread w then w\<lparr>wt_thread := False\<rparr> else w) in w1\<lparr>wt_queue := []\<rparr>)"

text \<open>One turn of \<open>Run\<close>: the message the callback gets, \<open>None\<close> while the thread waits or is gone.\<close>

definition wt_turn :: "'a worker_thread \<Rightarrow> ('a \<times> 'a worker_thread) option" where
  "wt_turn w = (if \<not> wt_thread w then None
     else case wt_queue w of [] \<Rightarrow> None | msg # q \<Rightarrow> Some (msg, w\<lparr>wt_queue := q\<rparr>))"

datatype 'a wt_event = PostOne 'a | TurnOne

fun wt_step :: "'a wt_event \<Rightarrow> 'a worker_thread \<times> 'a list \<Rightarrow> 'a worker_thread \<times> 'a list" where
  "wt_step (PostOne a) (w, given) = (wt_PostWork a w, given)"
| "wt_step TurnOne (w, given) = (case wt_turn w of None \<Rightarrow> (w, given) | Some (a, w') \<Rightarrow> (w', given @ [a]))"

fun wt_posted :: "'a wt_event list \<Rightarrow> 'a list" where
  "wt_posted [] = []"
| "wt_posted (PostOne a # es) = a # wt_posted es"
| "wt_posted (TurnOne # es) = wt_posted es"

lemma wt_run: "wt_thread w \<Longrightarrow> case fold wt_step es (w, given) of
    (w', given') \<Rightarrow> wt_thread w' \<and> given' @ wt_queue w' = given @ wt_queue w @ wt_posted es"
proof (induction es arbitrary: w given)
  case (Cons e es)
  show ?case
  proof (cases e)
    case (PostOne a)
    with Cons.IH [of "wt_PostWork a w" given] Cons.prems show ?thesis
      by (auto simp: wt_PostWork_def split: prod.splits)
  next
    case TurnOne
    with Cons.IH [of w given] Cons.IH [of "w\<lparr>wt_queue := tl (wt_queue w)\<rparr>" "given @ [hd (wt_queue w)]"] Cons.prems
    show ?thesis by (cases "wt_queue w") (auto simp: wt_turn_def split: prod.splits)
  qed
qed simp

text \<open>What is posted before a start is dropped by it, also by a second start of a running thread.\<close>

lemma wt_Start_drops: "wt_queue (wt_Start (wt_PostWork a w)) = [] \<and> wt_thread (wt_Start w)"
  by (simp add: wt_Start_def wt_PostWork_def Let_def)

section \<open>The encoder\<close>

text \<open>The buffers are numbered; \<open>ce_memory\<close> and \<open>ce_size\<close> are what they hold. \<open>ce_dangling\<close> is set once the
  callback keeps a datagram whose deleter refers to a local variable that is gone.\<close>

definition MAX_FRAME_LENGTH :: nat where "MAX_FRAME_LENGTH = 64000"

record 'f cuda_encoder =
  ce_session_number :: uint16
  ce_sequence_number :: uint16
  ce_worker :: "'f worker_thread"
  ce_pool :: "nat linked_pool"
  ce_memory :: "nat \<Rightarrow> byte list"
  ce_size :: "nat \<Rightarrow> nat"
  ce_dangling :: bool

definition CudaEncoder :: "nat \<Rightarrow> 'f cuda_encoder" where
  "CudaEncoder encoder_buffer_count = \<lparr>ce_session_number = 1, ce_sequence_number = 0, ce_worker = CreateWorkerThread,
     ce_pool = BufferPool [0..<encoder_buffer_count], ce_memory = (\<lambda>_. replicate MAX_FRAME_LENGTH 0),
     ce_size = (\<lambda>_. 0), ce_dangling = False\<rparr>"

definition ResetEncoder :: "'f cuda_encoder \<Rightarrow> 'f cuda_encoder" where
  "ResetEncoder e = e\<lparr>ce_session_number := ce_session_number e + 1, ce_sequence_number := 0\<rparr>"

definition bsp_encoder_Start :: "'f cuda_encoder \<Rightarrow> 'f cuda_encoder" where
  "bsp_encoder_Start e = e\<lparr>ce_worker := wt_Start (ce_worker e)\<rparr>"

definition QueueEncode :: "'f \<Rightarrow> 'f cuda_encoder \<Rightarrow> 'f cuda_encoder" where
  "QueueEncode f e = e\<lparr>ce_worker := wt_PostWork f (ce_worker e)\<rparr>"

definition bsp_encoder_Stop :: "'f cuda_encoder \<Rightarrow> 'f cuda_encoder" where
  "bsp_encoder_Stop e = ResetEncoder (e\<lparr>ce_worker := wt_Stop (ce_worker e)\<rparr>)"

text \<open>\<open>EncodeFrame\<close>: the encoded picture is stored behind the room of the header; nothing, for a picture NVENC
  cannot encode or that does not fit.\<close>

definition EncodeFrame :: "byte list \<Rightarrow> byte list \<Rightarrow> nat \<Rightarrow> byte list \<times> nat" where
  "EncodeFrame encoded memory header_size = (if MAX_FRAME_LENGTH - header_size < length encoded then (memory, 0)
     else (store_at memory header_size encoded, length encoded))"

text \<open>The callback gets a datagram, its bytes and its size; \<open>released\<close> says that it lets go of the pointer before
  it returns.\<close>

definition TryEncode :: "('f \<Rightarrow> byte list) \<Rightarrow> bool \<Rightarrow> 'f \<Rightarrow> 'f cuda_encoder \<Rightarrow> ((byte list \<times> nat) option \<times> 'f cuda_encoder) option" where
  "TryEncode encode released f e = (case pool_New (ce_pool e) of
       Inl _ \<Rightarrow> None
     | Inr (None, _) \<Rightarrow> None
     | Inr (Some b, pool1) \<Rightarrow>
       (case EncodeFrame (encode f) (ce_memory e b) HeaderSize of (memory1, frame_size) \<Rightarrow>
         if frame_size = 0 then Some (None, e\<lparr>ce_pool := drop_handle (Some b) pool1, ce_memory := (ce_memory e)(b := memory1)\<rparr>)
         else
           let seq = ce_sequence_number e + 1;
               packet = \<lparr>bp_id = 0, bp_sequence_number = seq, bp_session_number = ce_session_number e, bp_timestamp = 0,
                 bp_data_length = 0, bp_data_start = None\<rparr> in
           case Pack frame_size memory1 packet of None \<Rightarrow> None
           | Some (memory2, _) \<Rightarrow>
             let e1 = e\<lparr>ce_sequence_number := seq, ce_pool := pool1, ce_memory := (ce_memory e)(b := memory2),
                   ce_size := (ce_size e)(b := frame_size + HeaderSize)\<rparr>;
                 sent = (memory2, frame_size + HeaderSize) in
             if released then (case pool_Free (Some b) pool1 of Inl _ \<Rightarrow> None
               | Inr pool2 \<Rightarrow> Some (Some sent, e1\<lparr>ce_pool := pool2\<rparr>))
             else Some (Some sent, e1\<lparr>ce_pool := drop_handle (Some b) pool1, ce_dangling := True\<rparr>)))"

section \<open>The decoder\<close>

text \<open>\<open>cd_shown\<close> are the datagram bodies decoded so far. A frame of NVDEC is known by its number;
  \<open>cd_gpu_buffers\<close> are the pointers kept to give frames back, \<open>None\<close> for an empty one.\<close>

record cuda_decoder =
  cd_session_number :: uint16
  cd_sequence_number :: uint16
  cd_timestamp :: uint16
  cd_shown :: "byte list list"
  cd_gpu_buffers :: "nat option list"
  cd_unlocked :: "nat option list"

definition CudaDecoder :: cuda_decoder where
  "CudaDecoder = \<lparr>cd_session_number = 0, cd_sequence_number = 0, cd_timestamp = 0, cd_shown = [],
     cd_gpu_buffers = [], cd_unlocked = []\<rparr>"

text \<open>\<open>DecodeFrame\<close> calls until a call returns pictures; \<open>None\<close> if none of the calls does.\<close>

fun DecodeFrame :: "nat list \<Rightarrow> nat option" where
  "DecodeFrame [] = None"
| "DecodeFrame (returned_frames # rest) = (if returned_frames = 0 then DecodeFrame rest else Some returned_frames)"

text \<open>\<open>TryFreeMemory\<close>: frames are unlocked from the front up to one that somebody else still has;
  \<open>held g\<close> counts the pointers to frame \<open>g\<close> outside of the decoder.\<close>

definition gpu_use_count :: "(nat \<Rightarrow> nat) \<Rightarrow> nat option \<Rightarrow> nat" where
  "gpu_use_count held gp = (case gp of None \<Rightarrow> 0 | Some g \<Rightarrow> 1 + held g)"

fun free_front :: "(nat \<Rightarrow> nat) \<Rightarrow> nat option list \<Rightarrow> nat option list \<times> nat option list" where
  "free_front held [] = ([], [])"
| "free_front held (g # gs) = (if 1 < gpu_use_count held g then ([], g # gs)
     else case free_front held gs of (unlocked, rest) \<Rightarrow> (g # unlocked, rest))"

definition TryFreeMemory :: "(nat \<Rightarrow> nat) \<Rightarrow> cuda_decoder \<Rightarrow> cuda_decoder" where
  "TryFreeMemory held d = (case free_front held (cd_gpu_buffers d) of (unlocked, rest) \<Rightarrow>
     d\<lparr>cd_gpu_buffers := rest, cd_unlocked := cd_unlocked d @ unlocked\<rparr>)"

text \<open>\<open>SendDecodedFrame\<close>: the pointer kept afterwards is the one the callback was given; if the callback took
  it over it is empty by then.\<close>

definition SendDecodedFrame :: "bool \<Rightarrow> nat \<Rightarrow> cuda_decoder \<Rightarrow> cuda_decoder" where
  "SendDecodedFrame taken_over g d =
     d\<lparr>cd_gpu_buffers := cd_gpu_buffers d @ [if taken_over then None else Some g]\<rparr>"

definition decoder_drops :: "bsp_packet option \<Rightarrow> cuda_decoder \<Rightarrow> bool" where
  "decoder_drops packet d = (case packet of None \<Rightarrow> True | Some p \<Rightarrow>
     rolling_less_than (bp_session_number p) (cd_session_number d) \<or>
     bp_sequence_number p = cd_sequence_number d \<or>
     rolling_less_than (bp_sequence_number p) (cd_sequence_number d))"

definition TryDecode :: "(byte list \<Rightarrow> nat list) \<Rightarrow> bool \<Rightarrow> (nat \<Rightarrow> nat) \<Rightarrow> nat \<Rightarrow> byte list \<times> nat \<Rightarrow> cuda_decoder \<Rightarrow> cuda_decoder option" where
  "TryDecode calls taken_over held g buf d = (case buf of (memory, sz) \<Rightarrow>
     let packet = TryParseFrame memory sz in
     if decoder_drops packet d then Some d
     else let p = the packet;
         d1 = (if bp_session_number p \<noteq> cd_session_number d then d\<lparr>cd_session_number := bp_session_number p\<rparr> else d);
         d2 = d1\<lparr>cd_sequence_number := bp_sequence_number p, cd_timestamp := bp_timestamp p\<rparr>;
         body = bsp_body memory p in
       case DecodeFrame (calls body) of None \<Rightarrow> None
       | Some _ \<Rightarrow> Some (TryFreeMemory held (SendDecodedFrame taken_over g (d2\<lparr>cd_shown := cd_shown d2 @ [body]\<rparr>))))"

text \<open>\<open>WaitFreeMemory\<close> tries again until nothing is kept; \<open>None\<close> if what the others hold at the tries never lets it.\<close>

fun WaitFreeMemory :: "(nat \<Rightarrow> nat) list \<Rightarrow> cuda_decoder \<Rightarrow> cuda_decoder option" where
  "WaitFreeMemory [] d = None"
| "WaitFreeMemory (held # later) d = (let d1 = TryFreeMemory held d in
     if cd_gpu_buffers d1 = [] then Some d1 else WaitFreeMemory later d1)"

section \<open>A stream of datagrams\<close>

text \<open>Pictures encoded one after the other, with a callback that lets go of each datagram, and datagrams
  decoded as they arrive, each with what the callback and the others did by then.\<close>

fun encode_all :: "('f \<Rightarrow> byte list) \<Rightarrow> 'f list \<Rightarrow> 'f cuda_encoder \<Rightarrow> ((byte list \<times> nat) list \<times> 'f cuda_encoder) option" where
  "encode_all encode [] e = Some ([], e)"
| "encode_all encode (f # fs) e = (case TryEncode encode True f e of None \<Rightarrow> None
     | Some (sent, e1) \<Rightarrow> (case encode_all encode fs e1 of None \<Rightarrow> None
       | Some (rest, e2) \<Rightarrow> Some ((case sent of None \<Rightarrow> [] | Some b \<Rightarrow> [b]) @ rest, e2)))"

type_synonym surroundings = "bool \<times> (nat \<Rightarrow> nat) \<times> nat"

fun decode_all :: "(byte list \<Rightarrow> nat list) \<Rightarrow> ((byte list \<times> nat) \<times> surroundings) list \<Rightarrow> cuda_decoder \<Rightarrow> cuda_decoder option" where
  "decode_all calls [] d = Some d"
| "decode_all calls ((buf, taken_over, held, g) # arrivals) d =
     (case TryDecode calls taken_over held g buf d of None \<Rightarrow> None | Some d1 \<Rightarrow> decode_all calls arrivals d1)"

text \<open>A picture fits: more than the parser asks for, less than the room of a datagram.\<close>

definition picture_fits :: "byte list \<Rightarrow> bool" where
  "picture_fits encoded \<longleftrightarrow> 8 < length encoded \<and> length encoded \<le> MAX_FRAME_LENGTH - HeaderSize"

definition encoder_ready :: "'f cuda_encoder \<Rightarrow> bool" where
  "encoder_ready e \<longleftrightarrow> lpool.settled (ce_pool e) \<and> lp_store (ce_pool e) \<noteq> [] \<and>
     (\<forall>b \<in> set (lp_store (ce_pool e)). lp_handles (ce_pool e) b = 0) \<and>
     (\<forall>b. length (ce_memory e b) = MAX_FRAME_LENGTH)"

text \<open>Datagram \<open>buf\<close> carries \<open>body\<close> under the numbers of session and sequence.\<close>

definition carries :: "byte list \<times> nat \<Rightarrow> uint16 \<Rightarrow> uint16 \<Rightarrow> byte list \<Rightarrow> bool" where
  "carries buf session sequence body \<longleftrightarrow> (\<exists>q. TryParseFrame (fst buf) (snd buf) = Some q \<and>
     bp_session_number q = session \<and> bp_sequence_number q = sequence \<and> bsp_body (fst buf) q = body)"

lemma TryEncode_fits:
  assumes "encoder_ready e" "picture_fits (encode f)"
  shows "\<exists>buf e'. TryEncode encode True f e = Some (Some buf, e') \<and> encoder_ready e' \<and>
    carries buf (ce_session_number e) (ce_sequence_number e + 1) (encode f) \<and>
    ce_session_number e' = ce_session_number e \<and> ce_sequence_number e' = ce_sequence_number e + 1"
proof -
  let ?p = "ce_pool e" and ?n = "length (encode f)"
  have ok: "pool_ok ?p" using assms(1) by (simp add: encoder_ready_def lpool.settled_def)
  obtain b bs where free: "free_buffers ?p = b # bs"
    using assms(1) lpool.settled_count [of ?p] by (cases "free_buffers ?p") (auto simp: encoder_ready_def)
  from pool_New_some [OF ok free] obtain p1 where p1: "pool_New ?p = Inr (Some b, p1)" "pool_ok p1"
    "lp_store p1 = lp_store ?p" "free_buffers p1 = bs" "lp_handles p1 = (lp_handles ?p)(b := Suc (lp_handles ?p b))"
    by blast
  have b: "b \<in> set (lp_store ?p)" "lp_handles ?p b = 0"
    using assms(1) free by (auto simp: encoder_ready_def lpool.settled_def)
  have st: "lp_event_step TakeOne ?p = p1" using p1 by simp
  have set1: "lpool.settled p1" using assms(1) lpool.pool_step_settled [of ?p TakeOne]
    pool_event_step_is_step [OF ok, of TakeOne] st by (simp add: encoder_ready_def)
  have b1: "b \<notin> set (free_buffers p1)" using assms(1) free p1 by (auto simp: encoder_ready_def lpool.settled_def)
  have uc: "use_count (Some b) p1 = 2" using use_count_held [OF p1(2) _ b1] b p1 by simp
  from append_node_ok [of "drop_handle (Some b) p1" b] p1 obtain p2 where
    p2: "append_node (Some b) (drop_handle (Some b) p1) = Inr p2" "lp_store p2 = lp_store ?p"
      "lp_handles p2 = (lp_handles ?p)(b := 0)" using b(2) by (auto simp: drop_handle_def fun_upd_idem)
  have fr: "pool_Free (Some b) p1 = Inr p2" using uc p2 by (simp add: pool_Free_def)
  have "lp_event_step (GiveBack b) p1 = p2" using fr b p1 by simp
  then have set2: "lpool.settled p2" using lpool.pool_step_settled [OF set1, of "GiveBack b"]
    pool_event_step_is_step [OF p1(2), of "GiveBack b"] by simp
  let ?m = "ce_memory e b"
  define m1 where "m1 = store_at ?m HeaderSize (encode f)"
  have len: "length ?m = MAX_FRAME_LENGTH" using assms(1) by (simp add: encoder_ready_def)
  have n: "8 < ?n" "?n < 2 ^ 16" "HeaderSize + ?n \<le> MAX_FRAME_LENGTH"
    using assms(2) by (auto simp: picture_fits_def MAX_FRAME_LENGTH_def HeaderSize_9)
  have m1: "length m1 = MAX_FRAME_LENGTH" "take ?n (drop HeaderSize m1) = encode f"
    using len n by (simp_all add: m1_def)
  let ?pkt = "\<lparr>bp_id = 0, bp_sequence_number = ce_sequence_number e + 1, bp_session_number = ce_session_number e,
      bp_timestamp = 0, bp_data_length = 0, bp_data_start = None\<rparr>"
  have enc: "EncodeFrame (encode f) ?m HeaderSize = (m1, ?n)"
  proof -
    have "\<not> MAX_FRAME_LENGTH - HeaderSize < ?n" using n by linarith
    then show ?thesis by (simp add: EncodeFrame_def m1_def)
  qed
  from Pack_parse [of ?n m1 ?pkt] n m1 obtain m2 q where m2:
    "Pack ?n m1 ?pkt = Some (m2, ?pkt\<lparr>bp_data_length := of_nat ?n\<rparr>)" "length m2 = MAX_FRAME_LENGTH"
    "TryParseFrame m2 (HeaderSize + ?n) = Some q" "bsp_body m2 q = encode f"
    "bp_session_number q = ce_session_number e" "bp_sequence_number q = ce_sequence_number e + 1" by auto
  let ?e' = "e\<lparr>ce_sequence_number := ce_sequence_number e + 1, ce_memory := (ce_memory e)(b := m2),
      ce_size := (ce_size e)(b := ?n + HeaderSize), ce_pool := p2\<rparr>"
  have "TryEncode encode True f e = Some (Some (m2, ?n + HeaderSize), ?e')"
    using n(1) by (auto simp: TryEncode_def p1(1) enc m2(1) fr Let_def)
  moreover have "encoder_ready ?e'" using assms(1) set2 p2 m2(2) by (auto simp: encoder_ready_def)
  moreover have "carries (m2, ?n + HeaderSize) (ce_session_number e) (ce_sequence_number e + 1) (encode f)"
    using m2 by (simp add: carries_def add.commute)
  ultimately show ?thesis
    by (intro exI [of _ "(m2, ?n + HeaderSize)"] exI [of _ ?e'] conjI) simp_all
qed

lemma encode_all_fits:
  assumes "encoder_ready e" "\<forall>f \<in> set fs. picture_fits (encode f)"
  shows "\<exists>sent e'. encode_all encode fs e = Some (sent, e') \<and> encoder_ready e' \<and> length sent = length fs \<and>
    (\<forall>i < length fs. carries (sent ! i) (ce_session_number e) (ce_sequence_number e + of_nat (Suc i)) (encode (fs ! i))) \<and>
    ce_session_number e' = ce_session_number e"
  using assms
proof (induction fs arbitrary: e)
  case (Cons f fs)
  then have "picture_fits (encode f)" by simp
  from TryEncode_fits [where encode = encode and f = f, OF Cons.prems(1) this] obtain buf e1 where e1: "TryEncode encode True f e = Some (Some buf, e1)"
    "encoder_ready e1" "carries buf (ce_session_number e) (ce_sequence_number e + 1) (encode f)"
    "ce_session_number e1 = ce_session_number e" "ce_sequence_number e1 = ce_sequence_number e + 1" by blast
  from Cons.IH [OF e1(2)] Cons.prems(2) obtain sent e' where s: "encode_all encode fs e1 = Some (sent, e')"
    "encoder_ready e'" "length sent = length fs"
    "\<forall>i < length fs. carries (sent ! i) (ce_session_number e) (ce_sequence_number e + 1 + of_nat (Suc i)) (encode (fs ! i))"
    "ce_session_number e' = ce_session_number e" using e1(4,5) by auto
  have "carries ((buf # sent) ! i) (ce_session_number e) (ce_sequence_number e + of_nat (Suc i)) (encode ((f # fs) ! i))"
    if "i < length (f # fs)" for i
    using that e1(3) s(4) by (cases i) (auto simp: algebra_simps)
  then show ?case using e1 s by (intro exI [of _ "buf # sent"] exI [of _ e']) auto
qed simp

section \<open>What the decoder takes\<close>

text \<open>Of numbers at most half the circle apart the comparison of the words is that of the numbers.\<close>

lemma rolling_near:
  assumes "k < m + 2 ^ 15" "m < k + 2 ^ 15"
  shows "rolling_less_than (of_nat k) (of_nat m) \<longleftrightarrow> k < m" "(of_nat k :: uint16) = of_nat m \<longleftrightarrow> k = m"
proof -
  have r: "rolling_less_than a b \<longleftrightarrow> 0 < unat (b - a) \<and> unat (b - a) < 2 ^ 15" for a b
    using rolling_less_than_circle [of a b] by blast
  have *: "unat (of_nat j - of_nat i :: uint16) = j - i" if "i \<le> j" "j < i + 2 ^ 15" for i j
    using that by (simp add: unat_of_nat flip: of_nat_diff)
  show "rolling_less_than (of_nat k) (of_nat m) \<longleftrightarrow> k < m"
  proof (cases "k \<le> m")
    case True
    moreover from assms True have "m - k < 2 ^ 15" by linarith
    ultimately show ?thesis using * [of k m] assms by (auto simp: r)
  next
    case False
    then have "0 < k - m" "k - m < 2 ^ 15" using assms by linarith+
    then have "rolling_less_than (of_nat m) (of_nat k)" using * [of m k] assms False by (simp add: r)
    with rolling_less_than_circle [of "of_nat k" "of_nat m"] False show ?thesis by auto
  qed
  show "(of_nat k :: uint16) = of_nat m \<longleftrightarrow> k = m"
    using * [of k m] * [of m k] assms by (metis cancel_comm_monoid_add_class.diff_cancel diff_is_0_eq
        le_antisym nat_le_linear right_minus_eq unat_eq_zero unsigned_0)
qed

text \<open>The numbers that are greater than all before them, and arrivals that are never half a circle from the
  greatest so far.\<close>

fun maxima :: "nat \<Rightarrow> nat list \<Rightarrow> nat list" where
  "maxima m [] = []"
| "maxima m (k # ks) = (if m < k then k # maxima k ks else maxima m ks)"

fun in_window :: "nat \<Rightarrow> nat list \<Rightarrow> bool" where
  "in_window m [] = True"
| "in_window m (k # ks) \<longleftrightarrow> k < m + 2 ^ 15 \<and> m < k + 2 ^ 15 \<and> in_window (max m k) ks"

lemma TryFreeMemory_simps [simp]:
  "cd_session_number (TryFreeMemory held d) = cd_session_number d"
  "cd_sequence_number (TryFreeMemory held d) = cd_sequence_number d"
  "cd_shown (TryFreeMemory held d) = cd_shown d"
  by (simp_all add: TryFreeMemory_def split: prod.splits)

lemma SendDecodedFrame_simps [simp]:
  "cd_session_number (SendDecodedFrame taken_over g d) = cd_session_number d"
  "cd_sequence_number (SendDecodedFrame taken_over g d) = cd_sequence_number d"
  "cd_shown (SendDecodedFrame taken_over g d) = cd_shown d"
  by (simp_all add: SendDecodedFrame_def)

lemma rolling_irrefl [simp]: "\<not> rolling_less_than a a" by (simp add: rolling_less_than_def)

lemma TryDecode_carries:
  assumes "carries buf s (of_nat k) body" "cd_sequence_number d = of_nat m" "\<not> rolling_less_than s (cd_session_number d)"
    "k < m + 2 ^ 15" "m < k + 2 ^ 15" "DecodeFrame (calls body) \<noteq> None"
  shows "\<exists>d'. TryDecode calls taken_over held g buf d = Some d' \<and> cd_sequence_number d' = of_nat (max m k) \<and>
    \<not> rolling_less_than s (cd_session_number d') \<and> cd_session_number d' \<in> {cd_session_number d, s} \<and>
    cd_shown d' = cd_shown d @ (if m < k then [body] else [])"
proof -
  obtain memory sz where buf: "buf = (memory, sz)" by (cases buf)
  with assms(1) obtain q where q: "TryParseFrame memory sz = Some q" "bp_session_number q = s"
    "bp_sequence_number q = of_nat k" "bsp_body memory q = body" by (auto simp: carries_def)
  have drops: "decoder_drops (Some q) d \<longleftrightarrow> \<not> m < k"
    using rolling_near [OF assms(4,5)] assms(2,3) q by (auto simp: decoder_drops_def)
  show ?thesis
  proof (cases "m < k")
    case True
    with drops q buf assms(6) show ?thesis by (auto simp: TryDecode_def Let_def max_def)
  next
    case False
    with drops q buf assms(2,3) show ?thesis by (auto simp: TryDecode_def Let_def max_def)
  qed
qed

lemma decode_all_carries:
  assumes "\<And>b. DecodeFrame (calls b) \<noteq> None"
  shows "\<lbrakk>\<forall>k \<in> set ks. carries (buf k) s (of_nat k) (body k); length around = length ks;
      cd_sequence_number d = of_nat m; \<not> rolling_less_than s (cd_session_number d); in_window m ks\<rbrakk> \<Longrightarrow>
    \<exists>d'. decode_all calls (zip (map buf ks) around) d = Some d' \<and>
      cd_sequence_number d' = of_nat (Max (insert m (set ks))) \<and>
      (cd_session_number d' = cd_session_number d \<or> cd_session_number d' = s) \<and>
      cd_shown d' = cd_shown d @ map body (maxima m ks)"
proof (induction ks arbitrary: around d m)
  case (Cons k ks)
  then obtain taken_over held g around' where ar: "around = (taken_over, held, g) # around'" "length around' = length ks"
    by (cases around) auto
  from Cons.prems have "carries (buf k) s (of_nat k) (body k)" "k < m + 2 ^ 15" "m < k + 2 ^ 15" by auto
  from TryDecode_carries [where body = "body k" and calls = calls, OF this(1) Cons.prems(3,4) this(2,3) assms,
      of taken_over held g] obtain d1 where d1:
    "TryDecode calls taken_over held g (buf k) d = Some d1" "cd_sequence_number d1 = of_nat (max m k)"
    "\<not> rolling_less_than s (cd_session_number d1)" "cd_session_number d1 \<in> {cd_session_number d, s}"
    "cd_shown d1 = cd_shown d @ (if m < k then [body k] else [])"
    by blast
  from Cons.IH [OF _ ar(2) d1(2,3)] Cons.prems obtain d' where d':
    "decode_all calls (zip (map buf ks) around') d1 = Some d'"
    "cd_sequence_number d' = of_nat (Max (insert (max m k) (set ks)))"
    "cd_session_number d' = cd_session_number d1 \<or> cd_session_number d' = s"
    "cd_shown d' = cd_shown d1 @ map body (maxima (max m k) ks)" by auto
  moreover have "Max (insert (max m k) (set ks)) = Max (insert m (set (k # ks)))"
    by (cases "ks = []") (auto simp: Max_insert max.assoc max.commute)
  ultimately show ?case using ar d1 by (auto simp: max_def)
qed auto

lemma CudaEncoder_ready:
  assumes "0 < n"
  shows "encoder_ready (bsp_encoder_Start (CudaEncoder n :: 'f cuda_encoder))" "ce_session_number (bsp_encoder_Start (CudaEncoder n :: 'f cuda_encoder)) = 1"
    "ce_sequence_number (bsp_encoder_Start (CudaEncoder n :: 'f cuda_encoder)) = 0"
  using assms BufferPool_settled [of "[0..<n]"]
  by (auto simp: encoder_ready_def bsp_encoder_Start_def CudaEncoder_def)

lemma restarted_ready:
  "encoder_ready e \<Longrightarrow> encoder_ready (bsp_encoder_Start (bsp_encoder_Stop e))"
  "ce_session_number (bsp_encoder_Start (bsp_encoder_Stop e)) = ce_session_number e + 1"
  "ce_sequence_number (bsp_encoder_Start (bsp_encoder_Stop e)) = 0"
  by (auto simp: encoder_ready_def bsp_encoder_Start_def bsp_encoder_Stop_def ResetEncoder_def)

lemma maxima_upt: "maxima m [m + 1..<n] = [m + 1..<n]"
proof (induction "n - m" arbitrary: m)
  case (Suc x)
  then show ?case by (cases "m + 1 < n") (simp_all add: upt_conv_Cons)
qed simp

lemma maxima_skip: "\<forall>k \<in> set ks. k \<le> m \<Longrightarrow> maxima m (ks @ ls) = maxima m ls"
  by (induction ks) auto

lemma maxima_from_1: "maxima m [1..<n] = [m + 1..<n]"
proof (cases "m + 1 \<le> n")
  case True
  then have "[1..<n] = [1..<m + 1] @ [m + 1..<n]" by (metis le_add2 le_iff_add upt_add_eq_append)
  then show ?thesis using maxima_upt [of m n] by (simp add: maxima_skip del: upt_Suc)
next
  case False
  then have "maxima m ([1..<n] @ []) = maxima m []" by (intro maxima_skip) auto
  with False show ?thesis by simp
qed

lemma in_window_upt: "m \<le> 2 ^ 15 \<Longrightarrow> 1 \<le> i \<Longrightarrow> in_window (max m (i - 1)) [i..<n]"
proof (induction "n - i" arbitrary: i)
  case (Suc x)
  then have "[i..<n] = i # [Suc i..<n]" by (simp add: upt_conv_Cons)
  moreover have "in_window (max m (Suc i - 1)) [Suc i..<n]" using Suc by (intro Suc.hyps(1)) auto
  moreover have "max (max m (i - 1)) i = max m (Suc i - 1)" by auto
  ultimately show ?case using Suc.prems by (auto simp: max_def)
qed simp

text \<open>C28 (safety): Whatever datagrams of a session the network loses, repeats and reorders, by less than half
  of the sequence numbers, the decoder shows exactly those newer than all that arrived before them, each
  picture as it was encoded; also after the numbers have wrapped around.\<close>

theorem decoder_shows_newest:
  fixes fs :: "'f list"
  assumes "0 < n" "\<forall>f \<in> set fs. picture_fits (encode f)" "\<forall>b. DecodeFrame (calls b) \<noteq> None"
    "set ks \<subseteq> {1..length fs}" "in_window 0 ks" "length around = length ks"
  shows "\<exists>sent e d. encode_all encode fs (bsp_encoder_Start (CudaEncoder n)) = Some (sent, e) \<and>
    length sent = length fs \<and>
    decode_all calls (zip (map (\<lambda>k. sent ! (k - 1)) ks) around) CudaDecoder = Some d \<and>
    cd_shown d = map (\<lambda>k. encode (fs ! (k - 1))) (maxima 0 ks)"
proof -
  note E = CudaEncoder_ready [OF assms(1), where 'f = 'f]
  from encode_all_fits [where encode = encode, OF E(1) assms(2)] obtain sent e where s:
    "encode_all encode fs (bsp_encoder_Start (CudaEncoder n)) = Some (sent, e)" "length sent = length fs"
    "\<forall>i < length fs. carries (sent ! i) 1 (of_nat (Suc i)) (encode (fs ! i))"
    using E(2,3) by auto
  have "\<forall>k \<in> set ks. carries (sent ! (k - 1)) 1 (of_nat k) (encode (fs ! (k - 1)))"
  proof
    fix k assume "k \<in> set ks"
    with assms(4) have "1 \<le> k" "k \<le> length fs" by auto
    then have "k - 1 < length fs" "Suc (k - 1) = k" by linarith+
    with s(3) show "carries (sent ! (k - 1)) 1 (of_nat k) (encode (fs ! (k - 1)))" by metis
  qed
  from decode_all_carries [where calls = calls and d = CudaDecoder and m = 0, OF _ this assms(6)] assms(3,5)
  obtain d where "decode_all calls (zip (map (\<lambda>k. sent ! (k - 1)) ks) around) CudaDecoder = Some d"
    "cd_shown d = map (\<lambda>k. encode (fs ! (k - 1))) (maxima 0 ks)"
    by (auto simp: CudaDecoder_def rolling_less_than_def)
  with s show ?thesis by blast
qed

theorem decoder_shows_newest_witness:
  "\<exists>sent e d. encode_all (replicate 9) [10, 11, 12 :: byte] (bsp_encoder_Start (CudaEncoder 2)) = Some (sent, e) \<and>
    decode_all (\<lambda>_. [0, 1]) (zip (map (\<lambda>k. sent ! (k - 1)) [2, 1, 3, 3]) (replicate 4 (True, \<lambda>_. 0, 0))) CudaDecoder = Some d \<and>
    cd_shown d = [replicate 9 11, replicate 9 12]"
proof -
  have "\<exists>sent e d. encode_all (replicate 9) [10, 11, 12 :: byte] (bsp_encoder_Start (CudaEncoder 2)) = Some (sent, e) \<and>
    length sent = length [10, 11, 12 :: byte] \<and>
    decode_all (\<lambda>_. [0, 1]) (zip (map (\<lambda>k. sent ! (k - 1)) [2, 1, 3, 3]) (replicate 4 (True, \<lambda>_. 0, 0))) CudaDecoder = Some d \<and>
    cd_shown d = map (\<lambda>k. replicate 9 ([10, 11, 12] ! (k - 1))) (maxima 0 [2, 1, 3, 3])"
    by (rule decoder_shows_newest) (auto simp: picture_fits_def MAX_FRAME_LENGTH_def HeaderSize_9)
  moreover have "map (\<lambda>k. replicate 9 ([10, 11, 12 :: byte] ! (k - 1))) (maxima 0 [2, 1, 3, 3]) = [replicate 9 11, replicate 9 12]"
    by simp
  ultimately show ?thesis by metis
qed

text \<open>All datagrams of one session, in order, when the last one shown had the number \<open>m\<close>.\<close>

lemma session_shown:
  fixes fs :: "'f list"
  assumes "encoder_ready e" "ce_sequence_number e = 0" "\<forall>f \<in> set fs. picture_fits (encode f)" "m \<le> 2 ^ 15"
    "cd_sequence_number d = of_nat m" "\<not> rolling_less_than (ce_session_number e) (cd_session_number d)"
    "length around = length fs" "\<forall>b. DecodeFrame (calls b) \<noteq> None"
  shows "\<exists>sent e' d'. encode_all encode fs e = Some (sent, e') \<and> encoder_ready e' \<and>
      ce_session_number e' = ce_session_number e \<and> decode_all calls (zip sent around) d = Some d' \<and>
      cd_sequence_number d' = of_nat (max m (length fs)) \<and>
      (cd_session_number d' = cd_session_number d \<or> cd_session_number d' = ce_session_number e) \<and>
      cd_shown d' = cd_shown d @ map encode (drop m fs)"
proof -
  from encode_all_fits [where encode = encode, OF assms(1,3)] assms(2) obtain sent e' where s:
    "encode_all encode fs e = Some (sent, e')" "encoder_ready e'" "length sent = length fs"
    "\<forall>i < length fs. carries (sent ! i) (ce_session_number e) (of_nat (Suc i)) (encode (fs ! i))"
    "ce_session_number e' = ce_session_number e" by auto
  let ?ks = "[1..<length fs + 1]"
  have c: "\<forall>k \<in> set ?ks. carries (sent ! (k - 1)) (ce_session_number e) (of_nat k) (encode (fs ! (k - 1)))"
  proof
    fix k assume "k \<in> set ?ks"
    then have "k - 1 < length fs" "Suc (k - 1) = k" by auto
    with s(4) show "carries (sent ! (k - 1)) (ce_session_number e) (of_nat k) (encode (fs ! (k - 1)))" by metis
  qed
  have l: "length around = length ?ks" using assms(7) by (simp del: upt_Suc)
  have w: "in_window m ?ks" using in_window_upt [OF assms(4), of 1] by (simp del: upt_Suc)
  have sent: "map (\<lambda>k. sent ! (k - 1)) ?ks = sent" using s(3) by (intro nth_equalityI) (auto simp del: upt_Suc)
  have "map (\<lambda>k. encode (fs ! (k - 1))) (maxima m ?ks) = map encode (drop m fs)"
    unfolding maxima_from_1 by (intro nth_equalityI) (auto simp del: upt_Suc)
  moreover have "Max (insert m (set ?ks)) = max m (length fs)"
    by (rule Max_eqI) (auto simp: max_def)
  moreover from decode_all_carries [where calls = calls, OF _ c l assms(5,6) w] assms(8) sent
  obtain d' where "decode_all calls (zip sent around) d = Some d'"
    "cd_sequence_number d' = of_nat (Max (insert m (set ?ks)))"
    "cd_session_number d' = cd_session_number d \<or> cd_session_number d' = ce_session_number e"
    "cd_shown d' = cd_shown d @ map (\<lambda>k. encode (fs ! (k - 1))) (maxima m ?ks)" by auto
  ultimately show ?thesis using s by auto
qed

text \<open>C29 (error): An encoder that is stopped and started again counts its datagrams from one in the next session,
  and the decoder compares them with the last number of the session before: of everything sent after the
  restart it drops as many datagrams as it had been shown before.\<close>

theorem decoder_drops_after_restart:
  fixes fs gs :: "'f list"
  assumes "0 < n" "\<forall>f \<in> set (fs @ gs). picture_fits (encode f)" "\<forall>b. DecodeFrame (calls b) \<noteq> None"
    "length fs \<le> 2 ^ 15" "length around = length fs" "length around' = length gs"
  shows "\<exists>sent e d sent' e' d'. encode_all encode fs (bsp_encoder_Start (CudaEncoder n)) = Some (sent, e) \<and>
    decode_all calls (zip sent around) CudaDecoder = Some d \<and>
    encode_all encode gs (bsp_encoder_Start (bsp_encoder_Stop e)) = Some (sent', e') \<and>
    decode_all calls (zip sent' around') d = Some d' \<and>
    cd_shown d' = map encode (fs @ drop (length fs) gs)"
proof -
  let ?e = "bsp_encoder_Start (CudaEncoder n) :: 'f cuda_encoder"
  have dec: "cd_sequence_number CudaDecoder = of_nat 0" "cd_session_number CudaDecoder = 0" "cd_shown CudaDecoder = []"
    by (simp_all add: CudaDecoder_def)
  have roll: "\<not> rolling_less_than 1 0" "\<not> rolling_less_than 2 0" "\<not> rolling_less_than 2 1"
    by (simp_all add: rolling_less_than_def)
  note E = CudaEncoder_ready [OF assms(1), where 'f = 'f]
  from session_shown [where e = ?e and fs = fs and m = 0 and d = CudaDecoder and around = around and encode = encode and calls = calls] E dec roll assms obtain sent e d where 1:
    "encode_all encode fs ?e = Some (sent, e)" "encoder_ready e" "ce_session_number e = 1"
    "decode_all calls (zip sent around) CudaDecoder = Some d" "cd_sequence_number d = of_nat (length fs)"
    "cd_session_number d = 0 \<or> cd_session_number d = 1" "cd_shown d = map encode fs" by auto
  note R = restarted_ready [of e]
  from session_shown [where e = "bsp_encoder_Start (bsp_encoder_Stop e)" and fs = gs and m = "length fs" and d = d and around = around'
      and encode = encode and calls = calls] R 1 roll assms obtain sent' e' d' where
    "encode_all encode gs (bsp_encoder_Start (bsp_encoder_Stop e)) = Some (sent', e')"
    "decode_all calls (zip sent' around') d = Some d'" "cd_shown d' = cd_shown d @ map encode (drop (length fs) gs)"
    by auto
  with 1 show ?thesis by auto
qed

theorem decoder_drops_after_restart_witness:
  "\<exists>sent e d sent' e' d'. encode_all (replicate 9) [10, 11 :: byte] (bsp_encoder_Start (CudaEncoder 2)) = Some (sent, e) \<and>
    decode_all (\<lambda>_. [1]) (zip sent (replicate 2 (True, \<lambda>_. 0, 0))) CudaDecoder = Some d \<and>
    encode_all (replicate 9) [12, 13, 14] (bsp_encoder_Start (bsp_encoder_Stop e)) = Some (sent', e') \<and>
    decode_all (\<lambda>_. [1]) (zip sent' (replicate 3 (True, \<lambda>_. 0, 0))) d = Some d' \<and>
    cd_shown d' = map (replicate 9) [10, 11, 14]"
proof -
  have "\<exists>sent e d sent' e' d'. encode_all (replicate 9) [10, 11 :: byte] (bsp_encoder_Start (CudaEncoder 2)) = Some (sent, e) \<and>
    decode_all (\<lambda>_. [1]) (zip sent (replicate 2 (True, \<lambda>_. 0, 0))) CudaDecoder = Some d \<and>
    encode_all (replicate 9) [12, 13, 14] (bsp_encoder_Start (bsp_encoder_Stop e)) = Some (sent', e') \<and>
    decode_all (\<lambda>_. [1]) (zip sent' (replicate 3 (True, \<lambda>_. 0, 0))) d = Some d' \<and>
    cd_shown d' = map (replicate 9) ([10, 11] @ drop (length [10, 11 :: byte]) [12, 13, 14])"
    by (rule decoder_drops_after_restart) (auto simp: picture_fits_def MAX_FRAME_LENGTH_def HeaderSize_9)
  then show ?thesis by (simp del: encode_all.simps)
qed

section \<open>What the two lose\<close>

text \<open>A picture that cannot be encoded costs the buffer taken for it: with all gone the next picture ends the
  program.\<close>

lemma failed_pictures_cost_buffers:
  assumes "pool_ok (ce_pool e)" "\<forall>f \<in> set fs. encode f = []"
  shows "encode_all encode fs e = None \<longleftrightarrow> length (free_buffers (ce_pool e)) < length fs"
  using assms
proof (induction fs arbitrary: e)
  case (Cons f fs)
  show ?case
  proof (cases "free_buffers (ce_pool e)")
    case Nil
    with pool_New_none [OF Cons.prems(1) Nil] show ?thesis by (simp add: TryEncode_def)
  next
    case (Cons b bs)
    from pool_New_some [OF Cons.prems(1) Cons] obtain p1 where p1: "pool_New (ce_pool e) = Inr (Some b, p1)"
      "pool_ok p1" "free_buffers p1 = bs" by blast
    have enc: "EncodeFrame (encode f) (ce_memory e b) HeaderSize = (store_at (ce_memory e b) HeaderSize [], 0)"
      using Cons.prems(2) by (simp add: EncodeFrame_def)
    obtain e1 where e1: "TryEncode encode True f e = Some (None, e1)" "ce_pool e1 = drop_handle (Some b) p1"
      by (simp add: TryEncode_def p1(1) enc)
    have "pool_ok (ce_pool e1)" "free_buffers (ce_pool e1) = bs" using e1(2) p1 by (simp_all add: drop_handle_def)
    with Cons.IH [of e1] Cons.prems(2) Cons show ?thesis by (auto simp: e1(1) split: option.splits)
  qed
qed simp

text \<open>A frame whose pointer the callback takes over, as a queue does, is never given back to NVDEC: what is
  kept and unlocked is the empty pointer left of it.\<close>

lemma free_front_append: "free_front held gs = (unlocked, rest) \<Longrightarrow> unlocked @ rest = gs"
  by (induction gs arbitrary: unlocked rest) (auto split: if_splits prod.splits)

lemma TryFreeMemory_frames:
  "cd_unlocked (TryFreeMemory held d) @ cd_gpu_buffers (TryFreeMemory held d) = cd_unlocked d @ cd_gpu_buffers d"
  using free_front_append [of held "cd_gpu_buffers d"] by (auto simp: TryFreeMemory_def split: prod.splits)

lemma TryDecode_frames:
  assumes "TryDecode calls taken_over held g buf d = Some d1"
  shows "cd_unlocked d1 @ cd_gpu_buffers d1 = cd_unlocked d @ cd_gpu_buffers d \<or>
    cd_unlocked d1 @ cd_gpu_buffers d1 = (cd_unlocked d @ cd_gpu_buffers d) @ [if taken_over then None else Some g]"
proof -
  obtain memory sz where buf: "buf = (memory, sz)" by (cases buf)
  show ?thesis
  proof (cases "decoder_drops (TryParseFrame memory sz) d")
    case True
    with assms buf show ?thesis by (simp add: TryDecode_def)
  next
    case False
    with assms buf obtain d2 where "d1 = TryFreeMemory held (SendDecodedFrame taken_over g d2)"
      "cd_unlocked d2 = cd_unlocked d" "cd_gpu_buffers d2 = cd_gpu_buffers d"
      by (auto simp: TryDecode_def Let_def split: option.splits)
    then show ?thesis by (simp add: TryFreeMemory_frames) (simp add: SendDecodedFrame_def)
  qed
qed

lemma taken_frames_stay_locked:
  assumes "decode_all calls arrivals d = Some d'" "\<forall>(buf, taken_over, around) \<in> set arrivals. taken_over"
    "set (cd_unlocked d @ cd_gpu_buffers d) \<subseteq> {None}"
  shows "set (cd_unlocked d' @ cd_gpu_buffers d') \<subseteq> {None}"
  using assms
proof (induction calls arrivals d rule: decode_all.induct)
  case (2 calls buf taken_over held g arrivals d)
  then obtain d1 where d1: "TryDecode calls True held g buf d = Some d1" "decode_all calls arrivals d1 = Some d'"
    by (auto split: option.splits)
  have "set (cd_unlocked d1 @ cd_gpu_buffers d1) \<subseteq> {None}"
    using TryDecode_frames [OF d1(1)]
  proof
    assume "cd_unlocked d1 @ cd_gpu_buffers d1 = cd_unlocked d @ cd_gpu_buffers d"
    with 2(4) show ?thesis by (simp only:)
  next
    assume "cd_unlocked d1 @ cd_gpu_buffers d1 = (cd_unlocked d @ cd_gpu_buffers d) @ [if True then None else Some g]"
    with 2(4) show ?thesis by (simp only: set_append) simp
  qed
  with 2(1) [of d1] 2(2,3) d1 show ?case by simp
qed simp

text \<open>A callback that keeps the datagram leaves a deleter behind that refers to a variable of a call that is
  over, and a buffer the pool never gets back.\<close>

lemma kept_datagram_dangles:
  assumes "encoder_ready e" "picture_fits (encode f)"
  shows "\<exists>buf e'. TryEncode encode False f e = Some (Some buf, e') \<and> ce_dangling e' \<and>
    length (free_buffers (ce_pool e')) + 1 = length (lp_store (ce_pool e'))"
proof -
  let ?p = "ce_pool e" and ?n = "length (encode f)"
  have ok: "pool_ok ?p" using assms(1) by (simp add: encoder_ready_def lpool.settled_def)
  have cnt: "length (free_buffers ?p) = length (lp_store ?p)"
    using assms(1) lpool.settled_count [of ?p] by (auto simp: encoder_ready_def filter_empty_conv)
  then obtain b bs where free: "free_buffers ?p = b # bs" using assms(1)
    by (cases "free_buffers ?p") (auto simp: encoder_ready_def)
  from pool_New_some [OF ok free] obtain p1 where p1: "pool_New ?p = Inr (Some b, p1)" "lp_store p1 = lp_store ?p"
    "free_buffers p1 = bs" by blast
  have n: "0 < ?n" "\<not> MAX_FRAME_LENGTH - HeaderSize < ?n" "HeaderSize \<le> MAX_FRAME_LENGTH"
    using assms(2) by (auto simp: picture_fits_def MAX_FRAME_LENGTH_def HeaderSize_9)
  have "length (store_at (ce_memory e b) HeaderSize (encode f)) = MAX_FRAME_LENGTH"
    using assms n by (auto simp: encoder_ready_def picture_fits_def)
  with n p1 free cnt show ?thesis
    by (auto simp: TryEncode_def EncodeFrame_def Pack_def Let_def drop_handle_def)
qed

text \<open>A stop of the decoder waits until nobody has a frame any more, and ends then.\<close>

lemma free_front_unheld: "\<forall>g. held g = 0 \<Longrightarrow> free_front held gs = (gs, [])"
  by (induction gs) (auto simp: gpu_use_count_def split: option.splits)

lemma WaitFreeMemory_ends:
  assumes "\<forall>g. held g = 0"
  shows "\<exists>d'. WaitFreeMemory (hs @ [held]) d = Some d' \<and> cd_gpu_buffers d' = []"
proof (induction hs arbitrary: d)
  case Nil
  have "cd_gpu_buffers (TryFreeMemory held d) = []" by (simp add: TryFreeMemory_def free_front_unheld [OF assms])
  then show ?case by (simp add: Let_def)
qed (auto simp: Let_def)

end
