(* ===== verification/V4l2_Encoder.thy ===== *)
theory V4l2_Encoder
  imports Bsp_Codec
begin

text \<open>
  \<open>src/prototype/internal/infrastructure/codec/v4l2/v4l2_encoder.cpp\<close>: the hardware encoder of the Raspberry Pi.
  The worker hands camera buffers to the driver under free indices, a second thread takes back what the
  driver is done with and sends the encoded pictures. The driver is the fields \<open>ve_driver_inputs\<close> and
  \<open>ve_driver_outputs\<close>, the buffers queued with it, and what its calls return; it returns the inputs in
  the order they were queued, as the comment in the code asks for.
\<close>

datatype ve_error = ProgramEnds | UndefinedPop | OutOfBounds

record 'c v4l2_encoder =
  ve_session_number :: uint16
  ve_sequence_number :: uint16
  ve_input_buffers_available :: "nat list"
  ve_input_buffers_processing :: "'c list"
  ve_taken :: "(nat \<times> 'c) option"
  ve_unpushed :: "'c option"
  ve_driver_inputs :: "(nat \<times> 'c) list"
  ve_driver_outputs :: "nat list"
  ve_pool :: "nat linked_pool"
  ve_memory :: "nat \<Rightarrow> byte list"
  ve_in_flight :: "nat list"
  ve_sent :: "(byte list \<times> nat) list"

section \<open>Setting up\<close>

text \<open>The bit rate and the time of a frame asked of the driver; the product is exact in single precision.\<close>

definition average_bitrate :: "nat \<Rightarrow> nat \<Rightarrow> nat" where
  "average_bitrate width height = (5 * width * height) div (1280 * 720) * 100000"

definition timeperframe :: "nat \<Rightarrow> nat \<times> nat" where
  "timeperframe fps = (90000 div fps, 90000)"

text \<open>\<open>SetupBuffers\<close>: the driver grants numbers of buffers, which must not be less than those asked for.\<close>

definition SetupBuffers :: "nat \<Rightarrow> nat \<Rightarrow> nat \<Rightarrow> nat \<Rightarrow> 'c v4l2_encoder \<Rightarrow> ve_error + 'c v4l2_encoder" where
  "SetupBuffers camera_buffer_count downstream_buffers_count granted_inputs granted_outputs e =
     (if granted_inputs < camera_buffer_count then Inl ProgramEnds
      else let e1 = e\<lparr>ve_input_buffers_available := ve_input_buffers_available e @ [0..<granted_inputs]\<rparr> in
        if granted_outputs < downstream_buffers_count then Inl ProgramEnds
        else Inr (e1\<lparr>ve_driver_outputs := [0..<granted_outputs]\<rparr>))"

definition V4l2Encoder :: "nat \<Rightarrow> nat \<Rightarrow> nat \<Rightarrow> nat \<Rightarrow> ve_error + 'c v4l2_encoder" where
  "V4l2Encoder camera_buffer_count encoder_buffer_count granted_inputs granted_outputs =
     SetupBuffers camera_buffer_count encoder_buffer_count granted_inputs granted_outputs
       \<lparr>ve_session_number = 1, ve_sequence_number = 0, ve_input_buffers_available = [],
        ve_input_buffers_processing = [], ve_taken = None, ve_unpushed = None, ve_driver_inputs = [],
        ve_driver_outputs = [], ve_pool = BufferPool [0..<encoder_buffer_count],
        ve_memory = (\<lambda>_. replicate MAX_FRAME_LENGTH 0), ve_in_flight = [], ve_sent = []\<rparr>"

section \<open>The worker\<close>

text \<open>\<open>TryEncode\<close> in the three parts the other thread can come between: an index is taken, the buffer is queued
  with the driver, the buffer is noted as processing. An exception ends the program, the worker being \<open>noexcept\<close>.\<close>

definition take_index :: "'c \<Rightarrow> 'c v4l2_encoder \<Rightarrow> ve_error + 'c v4l2_encoder" where
  "take_index c e = (case ve_input_buffers_available e of [] \<Rightarrow> Inl ProgramEnds
     | index # q \<Rightarrow> Inr (e\<lparr>ve_input_buffers_available := q, ve_taken := Some (index, c)\<rparr>))"

definition queue_input :: "bool \<Rightarrow> 'c v4l2_encoder \<Rightarrow> ve_error + 'c v4l2_encoder" where
  "queue_input accepted e = (case ve_taken e of None \<Rightarrow> Inr e
     | Some (index, c) \<Rightarrow> if \<not> accepted then Inl ProgramEnds
       else Inr (e\<lparr>ve_taken := None, ve_driver_inputs := ve_driver_inputs e @ [(index, c)], ve_unpushed := Some c\<rparr>))"

definition push_processing :: "'c v4l2_encoder \<Rightarrow> 'c v4l2_encoder" where
  "push_processing e = (case ve_unpushed e of None \<Rightarrow> e
     | Some c \<Rightarrow> e\<lparr>ve_unpushed := None, ve_input_buffers_processing := ve_input_buffers_processing e @ [c]\<rparr>)"

definition v4l2_TryEncode :: "bool \<Rightarrow> 'c \<Rightarrow> 'c v4l2_encoder \<Rightarrow> ve_error + 'c v4l2_encoder" where
  "v4l2_TryEncode accepted c e = (case take_index c e of Inl err \<Rightarrow> Inl err
     | Inr e1 \<Rightarrow> (case queue_input accepted e1 of Inl err \<Rightarrow> Inl err | Inr e2 \<Rightarrow> Inr (push_processing e2)))"

section \<open>The downstream thread\<close>

text \<open>\<open>WaitForEncoder\<close>: the results of polls, of which an interrupted one does not count and three without data
  are enough; \<open>None\<close> while there is no further result.\<close>

datatype poll_result = Interrupted | PollFailed | Readable | NothingYet

fun WaitForEncoder :: "nat \<Rightarrow> poll_result list \<Rightarrow> (ve_error + bool) option" where
  "WaitForEncoder 0 polls = Some (Inr False)"
| "WaitForEncoder (Suc attempts) [] = None"
| "WaitForEncoder (Suc attempts) (Interrupted # polls) = WaitForEncoder (Suc attempts) polls"
| "WaitForEncoder (Suc attempts) (PollFailed # polls) = Some (Inl ProgramEnds)"
| "WaitForEncoder (Suc attempts) (Readable # polls) = Some (Inr True)"
| "WaitForEncoder (Suc attempts) (NothingYet # polls) = WaitForEncoder attempts polls"

text \<open>The first half of \<open>GetDownstreamBuffer\<close>: an input the driver is done with gives its index back, and the
  oldest camera buffer is let go.\<close>

definition dequeue_input :: "bool \<Rightarrow> 'c v4l2_encoder \<Rightarrow> ve_error + ('c option \<times> 'c v4l2_encoder)" where
  "dequeue_input done e = (case (done, ve_driver_inputs e) of
     (True, (index, _) # inputs) \<Rightarrow>
       let e1 = e\<lparr>ve_driver_inputs := inputs, ve_input_buffers_available := ve_input_buffers_available e @ [index]\<rparr> in
       (case ve_input_buffers_processing e1 of [] \<Rightarrow> Inl UndefinedPop
        | c # cs \<Rightarrow> Inr (Some c, e1\<lparr>ve_input_buffers_processing := cs\<rparr>))
   | _ \<Rightarrow> Inr (None, e))"

text \<open>The second half: the index of a filled output, if there is one.\<close>

definition dequeue_output :: "nat option \<Rightarrow> 'c v4l2_encoder \<Rightarrow> nat option \<times> 'c v4l2_encoder" where
  "dequeue_output filled e = (case filled of None \<Rightarrow> (None, e)
     | Some index \<Rightarrow> (Some index, e\<lparr>ve_driver_outputs := removeAll index (ve_driver_outputs e)\<rparr>))"

text \<open>\<open>SendDownstreamBuffer\<close>: the encoded bytes are copied behind the room of the header into a buffer of the
  pool, which is noted as in flight until its deleter runs; the pointer of the function itself is dropped.\<close>

definition SendDownstreamBuffer :: "byte list \<Rightarrow> 'c v4l2_encoder \<Rightarrow> ve_error + 'c v4l2_encoder" where
  "SendDownstreamBuffer encoded e = (case pool_New (ve_pool e) of
       Inl _ \<Rightarrow> Inl ProgramEnds
     | Inr (None, _) \<Rightarrow> Inl ProgramEnds
     | Inr (Some b, pool1) \<Rightarrow>
       let memory = ve_memory e b; bytes_used = length encoded in
       if length memory < HeaderSize + bytes_used then Inl OutOfBounds
       else
         let memory1 = store_at memory HeaderSize encoded;
             seq = ve_sequence_number e + 1;
             packet = \<lparr>bp_id = 0, bp_sequence_number = seq, bp_session_number = ve_session_number e,
               bp_timestamp = 0, bp_data_length = 0, bp_data_start = None\<rparr> in
         case Pack bytes_used memory1 packet of None \<Rightarrow> Inl OutOfBounds
         | Some (memory2, _) \<Rightarrow>
           Inr (e\<lparr>ve_sequence_number := seq, ve_pool := drop_handle (Some b) pool1,
             ve_memory := (ve_memory e)(b := memory2), ve_in_flight := ve_in_flight e @ [b],
             ve_sent := ve_sent e @ [(memory2, bytes_used + HeaderSize)]\<rparr>))"

text \<open>The deleter of a datagram.\<close>

definition release_datagram :: "nat \<Rightarrow> 'c v4l2_encoder \<Rightarrow> ve_error + 'c v4l2_encoder" where
  "release_datagram b e = (if b \<notin> set (ve_in_flight e) then Inr e
     else case FreeRaw b (ve_pool e) of Inl _ \<Rightarrow> Inl ProgramEnds
     | Inr pool1 \<Rightarrow> Inr (e\<lparr>ve_pool := pool1, ve_in_flight := remove1 b (ve_in_flight e)\<rparr>))"

definition QueueDownstreamBuffer :: "bool \<Rightarrow> nat \<Rightarrow> 'c v4l2_encoder \<Rightarrow> ve_error + 'c v4l2_encoder" where
  "QueueDownstreamBuffer accepted index e = (if \<not> accepted then Inl ProgramEnds
     else Inr (e\<lparr>ve_driver_outputs := ve_driver_outputs e @ [index]\<rparr>))"

text \<open>The rest of a turn of \<open>HandleDownstream\<close>, given what the driver filled and whether it takes the buffer again.\<close>

definition handle_output :: "(nat \<times> byte list) option \<Rightarrow> bool \<Rightarrow> 'c v4l2_encoder \<Rightarrow> ve_error + 'c v4l2_encoder" where
  "handle_output filled accepted e = (case dequeue_output (map_option fst filled) e of
       (None, e1) \<Rightarrow> Inr e1
     | (Some index, e1) \<Rightarrow> (let encoded = snd (the filled) in
         case (if length encoded \<noteq> 0 then SendDownstreamBuffer encoded e1 else Inr e1) of
           Inl err \<Rightarrow> Inl err
         | Inr e2 \<Rightarrow> QueueDownstreamBuffer accepted index e2))"

definition HandleDownstream_turn ::
    "bool \<Rightarrow> (nat \<times> byte list) option \<Rightarrow> bool \<Rightarrow> 'c v4l2_encoder \<Rightarrow> ve_error + 'c v4l2_encoder" where
  "HandleDownstream_turn done filled accepted e = (case dequeue_input done e of Inl err \<Rightarrow> Inl err
     | Inr (_, e1) \<Rightarrow> handle_output filled accepted e1)"

definition v4l2_Stop :: "'c v4l2_encoder \<Rightarrow> 'c v4l2_encoder" where
  "v4l2_Stop e = e\<lparr>ve_session_number := ve_session_number e + 1, ve_sequence_number := 0\<rparr>"

section \<open>Steps of both threads\<close>

datatype 'c ve_event = WorkerTakes 'c | WorkerQueues | WorkerPushes | DriverDone | OutputFilled nat "byte list" | Released nat

text \<open>A worker takes the next picture when it is done with the last.\<close>

fun ve_step :: "'c ve_event \<Rightarrow> 'c v4l2_encoder \<Rightarrow> ve_error + 'c v4l2_encoder" where
  "ve_step (WorkerTakes c) e = (if ve_taken e = None \<and> ve_unpushed e = None then take_index c e else Inr e)"
| "ve_step WorkerQueues e = queue_input True e"
| "ve_step WorkerPushes e = Inr (push_processing e)"
| "ve_step DriverDone e = map_sum id snd (dequeue_input True e)"
| "ve_step (OutputFilled index encoded) e = (if index \<in> set (ve_driver_outputs e)
     then handle_output (Some (index, encoded)) True e else Inr e)"
| "ve_step (Released b) e = release_datagram b e"

fun ve_run :: "'c ve_event list \<Rightarrow> 'c v4l2_encoder \<Rightarrow> ve_error + 'c v4l2_encoder" where
  "ve_run [] e = Inr e"
| "ve_run (ev # evs) e = (case ve_step ev e of Inl err \<Rightarrow> Inl err | Inr e1 \<Rightarrow> ve_run evs e1)"

section \<open>Invariants\<close>

text \<open>Every index is free, with the worker or with the driver, once; the camera buffers with the driver are
  those noted as processing, in the same order, but for one the worker has not noted yet.\<close>

definition inputs_ok :: "nat \<Rightarrow> 'c v4l2_encoder \<Rightarrow> bool" where
  "inputs_ok n e \<longleftrightarrow>
     mset (ve_input_buffers_available e) + mset (map fst (ve_driver_inputs e)) +
       (case ve_taken e of None \<Rightarrow> {#} | Some (i, _) \<Rightarrow> {#i#}) = mset [0..<n] \<and>
     map snd (ve_driver_inputs e) = ve_input_buffers_processing e @ (case ve_unpushed e of None \<Rightarrow> [] | Some c \<Rightarrow> [c]) \<and>
     (ve_taken e = None \<or> ve_unpushed e = None)"

text \<open>Every buffer of the pool is free or in flight, once; every output is with the driver between turns.\<close>

definition outputs_ok :: "nat \<Rightarrow> nat \<Rightarrow> 'c v4l2_encoder \<Rightarrow> bool" where
  "outputs_ok m granted e \<longleftrightarrow> pool_ok (ve_pool e) \<and> lp_store (ve_pool e) = [0..<m] \<and>
     (\<forall>b. lp_handles (ve_pool e) b = 0) \<and>
     mset (free_buffers (ve_pool e)) + mset (ve_in_flight e) = mset [0..<m] \<and>
     mset (ve_driver_outputs e) = mset [0..<granted] \<and> (\<forall>b. length (ve_memory e b) = MAX_FRAME_LENGTH)"

lemma inputs_ok_cong:
  "\<lbrakk>ve_input_buffers_available e' = ve_input_buffers_available e; ve_driver_inputs e' = ve_driver_inputs e;
    ve_taken e' = ve_taken e; ve_input_buffers_processing e' = ve_input_buffers_processing e;
    ve_unpushed e' = ve_unpushed e\<rbrakk> \<Longrightarrow> inputs_ok n e' = inputs_ok n e"
  by (simp add: inputs_ok_def)

lemma outputs_ok_cong:
  "\<lbrakk>ve_pool e' = ve_pool e; ve_in_flight e' = ve_in_flight e; ve_driver_outputs e' = ve_driver_outputs e;
    ve_memory e' = ve_memory e\<rbrakk> \<Longrightarrow> outputs_ok m granted e' = outputs_ok m granted e"
  by (simp add: outputs_ok_def)

lemma take_index_ok:
  assumes "inputs_ok n e" "outputs_ok m g e" "ve_taken e = None" "ve_unpushed e = None"
  shows "case take_index c e of Inl err \<Rightarrow> ve_input_buffers_available e = [] \<and> err = ProgramEnds
    | Inr e1 \<Rightarrow> ve_input_buffers_available e \<noteq> [] \<and> inputs_ok n e1 \<and> outputs_ok m g e1"
proof (cases "ve_input_buffers_available e")
  case (Cons i q)
  with assms show ?thesis by (auto simp: take_index_def inputs_ok_def outputs_ok_def)
qed (simp add: take_index_def)

lemma queue_input_ok:
  assumes "inputs_ok n e" "outputs_ok m g e"
  shows "\<exists>e1. queue_input True e = Inr e1 \<and> inputs_ok n e1 \<and> outputs_ok m g e1"
proof (cases "ve_taken e")
  case (Some ic)
  with assms show ?thesis by (cases ic) (auto simp: queue_input_def inputs_ok_def outputs_ok_def)
qed (use assms in \<open>simp add: queue_input_def\<close>)

lemma push_processing_ok:
  "inputs_ok n e \<Longrightarrow> outputs_ok m g e \<Longrightarrow> inputs_ok n (push_processing e) \<and> outputs_ok m g (push_processing e)"
  by (cases "ve_unpushed e") (auto simp: push_processing_def inputs_ok_def outputs_ok_def)

text \<open>The driver being done with an input lets the camera buffer queued under that index go; it is an
  undefined access exactly if the worker has not noted that buffer yet and there is no other.\<close>

lemma dequeue_input_ok:
  assumes "inputs_ok n e" "outputs_ok m g e"
  shows "case dequeue_input True e of
      Inl err \<Rightarrow> err = UndefinedPop \<and> ve_input_buffers_processing e = [] \<and> ve_driver_inputs e \<noteq> []
    | Inr (c, e1) \<Rightarrow> inputs_ok n e1 \<and> outputs_ok m g e1 \<and>
        \<not> (ve_input_buffers_processing e = [] \<and> ve_driver_inputs e \<noteq> []) \<and>
        (case ve_driver_inputs e of [] \<Rightarrow> c = None | ic # _ \<Rightarrow> c = Some (snd ic))"
proof (cases "ve_driver_inputs e")
  case (Cons ic inputs)
  obtain i c where ic: "ic = (i, c)" by (cases ic)
  show ?thesis
  proof (cases "ve_input_buffers_processing e")
    case Nil
    with Cons ic show ?thesis by (simp add: dequeue_input_def Let_def)
  next
    case (Cons c' cs)
    with \<open>ve_driver_inputs e = ic # inputs\<close> ic assms show ?thesis
      by (auto simp: dequeue_input_def Let_def inputs_ok_def outputs_ok_def)
  qed
qed (use assms in \<open>auto simp: dequeue_input_def\<close>)

lemma SendDownstreamBuffer_ok:
  assumes "inputs_ok n e" "outputs_ok m g (e\<lparr>ve_driver_outputs := outs\<rparr>)"
  shows "case SendDownstreamBuffer encoded e of
      Inl err \<Rightarrow> err = (if set [0..<m] \<subseteq> set (ve_in_flight e) then ProgramEnds else OutOfBounds) \<and>
        (set [0..<m] \<subseteq> set (ve_in_flight e) \<or> MAX_FRAME_LENGTH < HeaderSize + length encoded)
    | Inr e1 \<Rightarrow> \<not> set [0..<m] \<subseteq> set (ve_in_flight e) \<and> HeaderSize + length encoded \<le> MAX_FRAME_LENGTH \<and>
        inputs_ok n e1 \<and> outputs_ok m g (e1\<lparr>ve_driver_outputs := outs\<rparr>) \<and>
        ve_driver_outputs e1 = ve_driver_outputs e"
proof -
  let ?p = "ve_pool e"
  have ok: "pool_ok ?p" and ms: "mset (free_buffers ?p) + mset (ve_in_flight e) = mset [0..<m]"
    and len: "length (ve_memory e b) = MAX_FRAME_LENGTH" for b
    using assms(2) by (auto simp: outputs_ok_def)
  from ms have part: "set (free_buffers ?p) \<union> set (ve_in_flight e) = set [0..<m]"
    by (metis set_mset_mset set_mset_union)
  have "distinct (free_buffers ?p @ ve_in_flight e)"
    using ms by (metis distinct_upt mset_append mset_eq_imp_distinct_iff)
  then have disj: "set (free_buffers ?p) \<inter> set (ve_in_flight e) = {}" by simp
  show ?thesis
  proof (cases "free_buffers ?p")
    case Nil
    with pool_New_none [OF ok Nil] part show ?thesis by (auto simp: SendDownstreamBuffer_def)
  next
    case (Cons b bs)
    from pool_New_some [OF ok Cons] obtain p1 where p1: "pool_New ?p = Inr (Some b, p1)" "pool_ok p1"
      "lp_store p1 = lp_store ?p" "free_buffers p1 = bs" "lp_handles p1 = (lp_handles ?p)(b := Suc (lp_handles ?p b))"
      by blast
    have nb: "\<not> set [0..<m] \<subseteq> set (ve_in_flight e)" using Cons part disj by auto
    show ?thesis
    proof (cases "MAX_FRAME_LENGTH < HeaderSize + length encoded")
      case True
      with nb p1 len show ?thesis by (auto simp: SendDownstreamBuffer_def Let_def)
    next
      case False
      then have fit: "HeaderSize + length encoded \<le> length (ve_memory e b)" using len by simp
      then have "length (store_at (ve_memory e b) HeaderSize encoded) = length (ve_memory e b)" by simp
      moreover have "HeaderSize \<le> length (ve_memory e b)" using fit by simp
      moreover have "outputs_ok m g (e\<lparr>ve_pool := drop_handle (Some b) p1, ve_in_flight := ve_in_flight e @ [b],
          ve_driver_outputs := outs\<rparr>)"
        using assms(2) p1 Cons by (auto simp: outputs_ok_def drop_handle_def fun_upd_idem)
      ultimately show ?thesis using nb False p1 fit len assms(1)
        by (auto simp: SendDownstreamBuffer_def Let_def Pack_def inputs_ok_def outputs_ok_def)
    qed
  qed
qed

lemma mset_remove1_snoc: "x \<in> set xs \<Longrightarrow> mset (remove1 x xs @ [x]) = mset xs"
  by simp

lemma release_datagram_ok:
  assumes "inputs_ok n e" "outputs_ok m g e"
  shows "\<exists>e1. release_datagram b e = Inr e1 \<and> inputs_ok n e1 \<and> outputs_ok m g e1"
proof (cases "b \<in> set (ve_in_flight e)")
  case True
  have ok: "pool_ok (ve_pool e)" and ms: "mset (free_buffers (ve_pool e)) + mset (ve_in_flight e) = mset [0..<m]"
    and st: "lp_store (ve_pool e) = [0..<m]" using assms(2) by (auto simp: outputs_ok_def)
  from True ms st have "b \<in> set (lp_store (ve_pool e))" by (metis UnCI set_mset_mset set_mset_union)
  moreover from append_node_ok [OF ok, of b] obtain p1 where p1: "append_node (Some b) (ve_pool e) = Inr p1"
    "pool_ok p1" "lp_store p1 = lp_store (ve_pool e)" "free_buffers p1 = free_buffers (ve_pool e) @ [b]"
    "lp_handles p1 = lp_handles (ve_pool e)" by blast
  moreover have "mset (free_buffers p1) + mset (remove1 b (ve_in_flight e)) = mset [0..<m]"
    unfolding p1(4) ms [symmetric] mset_remove1_snoc [OF True, symmetric] by simp
  ultimately show ?thesis using True assms by (auto simp: release_datagram_def FreeRaw_def outputs_ok_def inputs_ok_def)
qed (use assms in \<open>simp add: release_datagram_def\<close>)

text \<open>A step of either thread keeps both invariants or fails in one of four ways.\<close>

fun step_fails :: "nat \<Rightarrow> 'c ve_event \<Rightarrow> 'c v4l2_encoder \<Rightarrow> ve_error option" where
  "step_fails m (WorkerTakes c) e = (if ve_taken e = None \<and> ve_unpushed e = None \<and> ve_input_buffers_available e = []
     then Some ProgramEnds else None)"
| "step_fails m DriverDone e = (if ve_input_buffers_processing e = [] \<and> ve_driver_inputs e \<noteq> []
     then Some UndefinedPop else None)"
| "step_fails m (OutputFilled index encoded) e = (if index \<notin> set (ve_driver_outputs e) \<or> encoded = [] then None
     else if set [0..<m] \<subseteq> set (ve_in_flight e) then Some ProgramEnds
     else if MAX_FRAME_LENGTH < HeaderSize + length encoded then Some OutOfBounds else None)"
| "step_fails m _ e = None"

lemma handle_output_ok:
  assumes "inputs_ok n e" "outputs_ok m g e" "index \<in> set (ve_driver_outputs e)"
  shows "case handle_output (Some (index, encoded)) True e of
      Inl err \<Rightarrow> step_fails m (OutputFilled index encoded) e = Some err
    | Inr e1 \<Rightarrow> step_fails m (OutputFilled index encoded) e = None \<and> inputs_ok n e1 \<and> outputs_ok m g e1"
proof -
  let ?e1 = "e\<lparr>ve_driver_outputs := removeAll index (ve_driver_outputs e)\<rparr>"
  have ms: "mset (ve_driver_outputs e) = mset [0..<g]" using assms(2) by (simp add: outputs_ok_def)
  then have "distinct (ve_driver_outputs e)" by (metis distinct_upt mset_eq_imp_distinct_iff)
  then have "removeAll index (ve_driver_outputs e) = remove1 index (ve_driver_outputs e)"
    by (simp add: distinct_remove1_removeAll)
  then have again: "mset (removeAll index (ve_driver_outputs e) @ [index]) = mset [0..<g]"
    using ms mset_remove1_snoc [OF assms(3)] by (simp only:)
  have i1: "inputs_ok n ?e1" using assms(1) by (simp add: inputs_ok_def)
  have o1: "outputs_ok m g (?e1\<lparr>ve_driver_outputs := removeAll index (ve_driver_outputs e) @ [index]\<rparr>)"
    using assms(2) again by (auto simp: outputs_ok_def)
  show ?thesis
  proof (cases "encoded = []")
    case True
    with i1 o1 show ?thesis
      by (simp add: handle_output_def dequeue_output_def QueueDownstreamBuffer_def inputs_ok_def)
  next
    case False
    from SendDownstreamBuffer_ok [OF i1 o1, of encoded] False assms(3) show ?thesis
      by (auto simp: handle_output_def dequeue_output_def QueueDownstreamBuffer_def inputs_ok_def outputs_ok_def
          split: sum.splits if_splits)
  qed
qed

lemma ve_step_ok:
  assumes "inputs_ok n e" "outputs_ok m g e"
  shows "case ve_step ev e of Inl err \<Rightarrow> step_fails m ev e = Some err
    | Inr e1 \<Rightarrow> step_fails m ev e = None \<and> inputs_ok n e1 \<and> outputs_ok m g e1"
proof (cases ev)
  case (WorkerTakes c)
  show ?thesis
  proof (cases "ve_taken e = None \<and> ve_unpushed e = None")
    case True
    then have t: "ve_taken e = None" "ve_unpushed e = None" by auto
    from take_index_ok [OF assms t, of c] WorkerTakes t show ?thesis by (auto split: sum.splits)
  next
    case False
    with WorkerTakes assms show ?thesis by auto
  qed
next
  case WorkerQueues
  with queue_input_ok [OF assms] show ?thesis by auto
next
  case WorkerPushes
  with push_processing_ok [OF assms] show ?thesis by auto
next
  case DriverDone
  with dequeue_input_ok [OF assms] show ?thesis by (auto split: sum.splits prod.splits)
next
  case (OutputFilled index encoded)
  show ?thesis
  proof (cases "index \<in> set (ve_driver_outputs e)")
    case True
    then show ?thesis using handle_output_ok [OF assms True, of encoded] unfolding OutputFilled
      by (simp del: step_fails.simps)
  qed (use assms OutputFilled in simp)
next
  case (Released b)
  with release_datagram_ok [OF assms, of b] show ?thesis by auto
qed

lemma V4l2Encoder_ok:
  assumes "V4l2Encoder n m gi go = Inr e"
  shows "inputs_ok gi e \<and> outputs_ok m go e \<and> n \<le> gi \<and> m \<le> go"
  using assms BufferPool_ok [of "[0..<m]"] BufferPool_settled [of "[0..<m]"]
  by (auto simp: V4l2Encoder_def SetupBuffers_def Let_def inputs_ok_def outputs_ok_def split: if_splits)

lemma ve_run_ok:
  "inputs_ok n e \<Longrightarrow> outputs_ok m g e \<Longrightarrow> ve_run evs e = Inr e' \<Longrightarrow> inputs_ok n e' \<and> outputs_ok m g e'"
proof (induction evs arbitrary: e)
  case (Cons ev evs)
  then obtain e1 where "ve_step ev e = Inr e1" "ve_run evs e1 = Inr e'" by (auto split: sum.splits)
  with ve_step_ok [OF Cons.prems(1,2), of ev] Cons.IH [of e1] show ?case by auto
qed simp



text \<open>A picture larger than the 64000 bytes of a datagram is written past its end; the driver is asked for up to
  512 KB.\<close>

lemma large_picture_out_of_bounds:
  assumes "V4l2Encoder n m gi go = Inr e0" "0 < m" "index < go" "MAX_FRAME_LENGTH < HeaderSize + length encoded"
  shows "ve_step (OutputFilled index encoded) e0 = Inl OutOfBounds"
proof -
  from V4l2Encoder_ok [OF assms(1)] have inv: "inputs_ok gi e0" "outputs_ok m go e0" by auto
  have "ve_in_flight e0 = []" "ve_driver_outputs e0 = [0..<go]"
    using assms(1) by (auto simp: V4l2Encoder_def SetupBuffers_def Let_def split: if_splits)
  moreover have "encoded \<noteq> []" using assms(4) by (auto simp: MAX_FRAME_LENGTH_def HeaderSize_9)
  ultimately have "step_fails m (OutputFilled index encoded) e0 = Some OutOfBounds" using assms by auto
  with ve_step_ok [OF inv, of "OutputFilled index encoded"] show ?thesis
    by (auto simp del: step_fails.simps ve_step.simps split: sum.splits)
qed

text \<open>Waiting for the encoder ends with the third poll that times out, whatever interrupts it.\<close>

lemma WaitForEncoder_ends:
  "length (filter (\<lambda>p. p \<noteq> Interrupted) polls) \<ge> attempts \<Longrightarrow> WaitForEncoder attempts polls \<noteq> None"
  by (induction attempts polls rule: WaitForEncoder.induct) auto

lemma bitrate_asked: "average_bitrate 1536 864 = 700000" by (simp add: average_bitrate_def)

end
