(* ===== verification/Udp.thy ===== *)
theory Udp
  imports Linked_Pool Ordered_Map
begin

text \<open>
  \<open>src/prototype/internal/infrastructure/udp\<close>: the threads that run the context, the server that receives each
  datagram into a buffer of its pool, and the clients that send out of a pool. A session is known by its
  buffer; the sockets and the completions they deliver are the environment.
\<close>

section \<open>The context\<close>

text \<open>The threads of the pool, each running or not. \<open>None\<close> waits for ever: assigning a new thread over a running
  one joins it, and it runs as long as the context is not stopped.\<close>

record udp_context =
  uc_stopped :: bool
  uc_pool :: "bool list"

datatype context_error = NotJoinable

definition UdpContext :: "nat \<Rightarrow> udp_context" where
  "UdpContext pool_size = \<lparr>uc_stopped = False, uc_pool = replicate pool_size False\<rparr>"

definition uc_Start :: "udp_context \<Rightarrow> udp_context option" where
  "uc_Start c = (if \<not> uc_stopped c \<and> True \<in> set (uc_pool c) then None
     else Some (c\<lparr>uc_pool := map (\<lambda>_. True) (uc_pool c)\<rparr>))"

definition uc_Stop :: "udp_context \<Rightarrow> context_error + udp_context" where
  "uc_Stop c = (if \<not> uc_stopped c then
       (if False \<in> set (uc_pool c) then Inl NotJoinable else Inr (c\<lparr>uc_stopped := True, uc_pool := []\<rparr>))
     else Inr c)"

text \<open>The context is not restarted: after a stop a start has no threads to make.\<close>

lemma stopped_context_stays:
  assumes "uc_Stop c = Inr c1" "\<not> uc_stopped c"
  shows "uc_Start c1 = Some c1 \<and> uc_pool c1 = []"
  using assms by (auto simp: uc_Stop_def uc_Start_def split: if_splits)

lemma context_lives:
  "\<exists>c1 c2. uc_Start (UdpContext n) = Some c1 \<and> uc_pool c1 = replicate n True \<and> uc_Stop c1 = Inr c2 \<and> uc_pool c2 = []"
  by (cases n) (auto simp: UdpContext_def uc_Start_def uc_Stop_def map_replicate_const)

section \<open>The server\<close>

text \<open>The buffer the outstanding receive has, the sessions handed to the callback and not released yet.\<close>

record udp_server =
  us_pool :: "nat linked_pool"
  us_receiving :: "nat option"
  us_sessions :: "(nat \<times> nat) list"
  us_exhausted :: bool

definition UdpServer :: "nat \<Rightarrow> udp_server" where
  "UdpServer buffer_count = \<lparr>us_pool = BufferPool [0..<buffer_count], us_receiving = None, us_sessions = [],
     us_exhausted = False\<rparr>"

text \<open>\<open>Receive\<close> makes a session, which takes a buffer: with none left the exception goes to the thread of the
  context, which reports it, and no receive is started. \<open>us_exhausted\<close> remembers that.\<close>

definition Receive :: "udp_server \<Rightarrow> udp_server" where
  "Receive s = (case pool_New (us_pool s) of
     Inr (Some b, p1) \<Rightarrow> s\<lparr>us_pool := p1, us_receiving := Some b\<rparr>
   | _ \<Rightarrow> s\<lparr>us_receiving := None, us_exhausted := True\<rparr>)"

text \<open>The destructor of a session.\<close>

definition end_session :: "nat \<Rightarrow> udp_server \<Rightarrow> udp_server" where
  "end_session b s = s\<lparr>us_pool := give_back b (us_pool s)\<rparr>"

datatype receive_result = Datagram nat | OtherError | OperationAborted

text \<open>The completion handler has its session until it returns, so the next receive takes another buffer.\<close>

definition receive_handler :: "receive_result \<Rightarrow> udp_server \<Rightarrow> udp_server" where
  "receive_handler ec s = (case us_receiving s of None \<Rightarrow> s
     | Some b \<Rightarrow> (case ec of
         Datagram bytes_received \<Rightarrow>
           if 0 < bytes_received then Receive (s\<lparr>us_sessions := us_sessions s @ [(b, bytes_received)]\<rparr>)
           else end_session b (Receive s)
       | OtherError \<Rightarrow> end_session b (Receive s)
       | OperationAborted \<Rightarrow> end_session b (s\<lparr>us_receiving := None\<rparr>)))"

text \<open>The callback, or whoever it gave a session to, lets go of it.\<close>

definition release_session :: "nat \<Rightarrow> udp_server \<Rightarrow> udp_server" where
  "release_session b s = (if b \<notin> set (map fst (us_sessions s)) then s
     else end_session b (s\<lparr>us_sessions := filter (\<lambda>x. fst x \<noteq> b) (us_sessions s)\<rparr>))"

datatype us_event = Completion receive_result | SessionReleased nat

fun us_step :: "us_event \<Rightarrow> udp_server \<Rightarrow> udp_server" where
  "us_step (Completion ec) s = receive_handler ec s"
| "us_step (SessionReleased b) s = release_session b s"

text \<open>Each buffer is free, being received into, with one session, or in \<open>xs\<close>: with a session that is ending.\<close>

definition us_in_use :: "udp_server \<Rightarrow> nat list" where
  "us_in_use s = (case us_receiving s of None \<Rightarrow> [] | Some b \<Rightarrow> [b]) @ map fst (us_sessions s)"

definition us_ok :: "nat \<Rightarrow> nat list \<Rightarrow> udp_server \<Rightarrow> bool" where
  "us_ok n xs s \<longleftrightarrow> lpool.settled (us_pool s) \<and> lp_store (us_pool s) = [0..<n] \<and> distinct (us_in_use s @ xs) \<and>
     (\<forall>b. lp_handles (us_pool s) b = (if b \<in> set (us_in_use s @ xs) then 1 else 0)) \<and>
     set (us_in_use s @ xs) \<subseteq> {0..<n}"

lemma us_ok_free:
  assumes "us_ok n xs s"
  shows "set (free_buffers (us_pool s)) = {0..<n} - set (us_in_use s @ xs)" "pool_ok (us_pool s)"
proof -
  have h: "lp_handles (us_pool s) b = 0 \<longleftrightarrow> b \<notin> set (us_in_use s @ xs)" for b
    using assms by (simp add: us_ok_def)
  have sub: "set (free_buffers (us_pool s)) \<subseteq> {0..<n}"
    and eq: "\<forall>b \<in> {0..<n}. b \<in> set (free_buffers (us_pool s)) \<longleftrightarrow> lp_handles (us_pool s) b = 0"
  proof -
    have "set (lp_store (us_pool s)) = {0..<n}" "lpool.settled (us_pool s)" using assms by (simp_all add: us_ok_def)
    then show "set (free_buffers (us_pool s)) \<subseteq> {0..<n}"
      "\<forall>b \<in> {0..<n}. b \<in> set (free_buffers (us_pool s)) \<longleftrightarrow> lp_handles (us_pool s) b = 0"
      by (auto simp: lpool.settled_def)
  qed
  have m: "b \<in> set (free_buffers (us_pool s)) \<longleftrightarrow> b \<in> {0..<n} \<and> b \<notin> set (us_in_use s @ xs)" for b
    using subsetD [OF sub, of b] bspec [OF eq, of b] h [of b] by argo
  show "set (free_buffers (us_pool s)) = {0..<n} - set (us_in_use s @ xs)"
    by (rule set_eqI) (simp only: m Diff_iff)
  show "pool_ok (us_pool s)" using assms by (simp add: us_ok_def lpool.settled_def)
qed

text \<open>A receive takes a free buffer more, if there is one.\<close>

lemma Receive_ok:
  assumes "us_ok n xs (s\<lparr>us_receiving := None\<rparr>)"
  shows "us_ok n xs (Receive s) \<and> us_sessions (Receive s) = us_sessions s \<and>
    (us_receiving (Receive s) = None \<longleftrightarrow> free_buffers (us_pool s) = [])"
proof -
  have ok: "pool_ok (us_pool s)" using us_ok_free(2) [OF assms] by simp
  show ?thesis
  proof (cases "free_buffers (us_pool s)")
    case Nil
    with pool_New_none [OF ok Nil] assms show ?thesis by (auto simp: Receive_def us_ok_def us_in_use_def)
  next
    case (Cons b bs)
    from pool_New_some [OF ok Cons] obtain p1 where p1: "pool_New (us_pool s) = Inr (Some b, p1)"
      "lp_store p1 = lp_store (us_pool s)" "lp_handles p1 = (lp_handles (us_pool s))(b := Suc (lp_handles (us_pool s) b))"
      by blast
    have b: "b < n" "b \<notin> set (map fst (us_sessions s) @ xs)"
      using us_ok_free(1) [OF assms] Cons by (auto simp: us_in_use_def)
    have "lp_event_step TakeOne (us_pool s) = p1" using p1 by simp
    then have "lpool.settled p1" using assms lpool.pool_step_settled [of "us_pool s" TakeOne]
      pool_event_step_is_step [OF ok, of TakeOne] by (simp add: us_ok_def)
    moreover have "lp_handles (us_pool s) c = (if c \<in> set (map fst (us_sessions s) @ xs) then 1 else 0)" for c
      using assms by (simp add: us_ok_def us_in_use_def)
    ultimately show ?thesis using assms p1 b Cons by (auto simp: Receive_def us_ok_def us_in_use_def)
  qed
qed

lemma end_session_ok:
  assumes "us_ok n (b # xs) s"
  shows "us_ok n xs (end_session b s)"
proof -
  have ok: "pool_ok (us_pool s)" using us_ok_free(2) [OF assms] .
  have h: "lp_handles (us_pool s) b = 1" "b \<in> set (lp_store (us_pool s))" "b \<notin> set (free_buffers (us_pool s))"
    using assms us_ok_free(1) [OF assms] by (auto simp: us_ok_def)
  from lpool.give_last [OF ok h(2,3,1)] have g: "lp_store (give_back b (us_pool s)) = lp_store (us_pool s)"
    "lp_handles (give_back b (us_pool s)) = (lp_handles (us_pool s))(b := 0)" by auto
  have "lpool.settled (give_back b (us_pool s))"
    using assms h lpool.pool_step_settled [of "us_pool s" "GiveBack b"] by (simp add: us_ok_def)
  with assms g show ?thesis by (auto simp: us_ok_def end_session_def us_in_use_def)
qed

lemma us_step_ok:
  assumes "us_ok n [] s"
  shows "us_ok n [] (us_step e s) \<and>
    (us_receiving (us_step e s) = None \<longleftrightarrow> us_receiving s = None \<or> e = Completion OperationAborted \<or>
      e \<noteq> Completion OperationAborted \<and> (\<exists>ec. e = Completion ec) \<and> free_buffers (us_pool s) = [])"
proof (cases e)
  case (Completion ec)
  show ?thesis
  proof (cases "us_receiving s")
    case None
    with Completion assms show ?thesis by (simp add: receive_handler_def)
  next
    case (Some b)
    have held: "us_ok n [b] (s\<lparr>us_receiving := None\<rparr>)" using assms Some by (auto simp: us_ok_def us_in_use_def)
    have moved: "us_ok n [] (s\<lparr>us_sessions := us_sessions s @ [(b, k)], us_receiving := None\<rparr>)" for k
      using assms Some by (auto simp: us_ok_def us_in_use_def)
    have rec: "us_receiving (end_session b t) = us_receiving t" for t by (simp add: end_session_def)
    show ?thesis
      using Completion Some Receive_ok [OF held] end_session_ok Receive_ok [OF moved] end_session_ok [OF held]
      by (cases ec) (auto simp: receive_handler_def rec)
  qed
next
  case (SessionReleased b)
  show ?thesis
  proof (cases "b \<in> set (map fst (us_sessions s))")
    case True
    let ?s = "s\<lparr>us_sessions := filter (\<lambda>x. fst x \<noteq> b) (us_sessions s)\<rparr>"
    have "map fst (filter (\<lambda>x. fst x \<noteq> b) (us_sessions s)) = filter (\<lambda>x. x \<noteq> b) (map fst (us_sessions s))"
      by (simp add: filter_map comp_def)
    then have "us_in_use ?s = filter (\<lambda>x. x \<noteq> b) (us_in_use s)"
      using assms True by (auto simp: us_in_use_def us_ok_def split: option.splits)
    with assms True have "us_ok n [b] ?s" by (auto simp: us_ok_def us_in_use_def)
    with end_session_ok [of n b "[]" ?s] SessionReleased True show ?thesis
      by (auto simp: release_session_def end_session_def)
  qed (use assms SessionReleased in \<open>auto simp: release_session_def\<close>)
qed

text \<open>The buffers of the server are conserved. It goes on receiving through every completion that finds a free
  buffer; one that comes while all others are with sessions ends the reception for good.\<close>

theorem udp_server_receives:
  fixes es :: "us_event list"
  assumes "0 < n"
  defines "s \<equiv> fold us_step es (Receive (UdpServer n))"
  shows "distinct (us_in_use s) \<and> set (us_in_use s) \<union> set (free_buffers (us_pool s)) = {0..<n} \<and>
    (us_receiving (us_step e s) = None \<longleftrightarrow> us_receiving s = None \<or> e = Completion OperationAborted \<or>
      (\<exists>ec. e = Completion ec) \<and> length (us_sessions s) + 1 = n)"
proof -
  have "us_ok n [] ((UdpServer n)\<lparr>us_receiving := None\<rparr>)"
    using BufferPool_settled [of "[0..<n]"] by (auto simp: UdpServer_def us_ok_def us_in_use_def)
  then have "us_ok n [] (Receive (UdpServer n))" using Receive_ok by blast
  then have ok: "us_ok n [] s" unfolding s_def by (induction es rule: rev_induct) (auto simp: us_step_ok)
  have "length (us_sessions s) + 1 = n \<longleftrightarrow> free_buffers (us_pool s) = []" if r: "us_receiving s = Some b" for b
  proof -
    have "card (set (us_in_use s)) = length (us_sessions s) + 1"
    proof -
      have "distinct (us_in_use s)" using ok by (simp add: us_ok_def)
      then have "card (set (us_in_use s)) = length (us_in_use s)" by (rule distinct_card)
      then show ?thesis by (simp add: us_in_use_def r)
    qed
    moreover have "set (us_in_use s) \<subseteq> {0..<n}" using ok by (simp add: us_ok_def)
    moreover have "free_buffers (us_pool s) = [] \<longleftrightarrow> {0..<n} \<subseteq> set (us_in_use s)"
      using us_ok_free(1) [OF ok] by (metis Diff_eq_empty_iff append_Nil2 set_empty)
    ultimately show ?thesis by (metis card_atLeastLessThan card_subset_eq diff_zero finite_atLeastLessThan subset_antisym order_refl)
  qed
  with us_step_ok [OF ok, of e] us_ok_free(1) [OF ok] ok show ?thesis
    by (cases "us_receiving s") (auto simp: us_ok_def)
qed

theorem udp_server_receives_witness:
  "us_receiving (fold us_step [Completion (Datagram 5)] (Receive (UdpServer 1))) = None"
  using udp_server_receives [of 1 "[]" "Completion (Datagram 5)"]
  by (auto simp: Receive_def UdpServer_def split: sum.splits option.splits)

section \<open>The client\<close>

text \<open>\<open>GetOrCreateClient\<close>: the client of an endpoint, made on its first use; \<open>endpoint_of\<close> is what the library
  makes of an address, an exception for one it cannot read.\<close>

definition GetOrCreateClient ::
    "(string \<Rightarrow> 'e::linorder option) \<Rightarrow> string \<Rightarrow> ('e \<times> nat) list \<Rightarrow> nat \<Rightarrow> (nat \<times> ('e \<times> nat) list) option" where
  "GetOrCreateClient endpoint_of address clients fresh = (case endpoint_of address of None \<Rightarrow> None
     | Some remote \<Rightarrow> (case om_find clients remote of Some client \<Rightarrow> Some (client, clients)
       | None \<Rightarrow> Some (fresh, om_put remote fresh clients)))"

lemma client_kept:
  assumes "om_wf clients" "GetOrCreateClient endpoint_of a clients fresh = Some (c, clients1)"
  shows "GetOrCreateClient endpoint_of a clients1 fresh' = Some (c, clients1)"
  using assms by (auto simp: GetOrCreateClient_def om_simps split: option.splits)

text \<open>\<open>Send\<close>: the handler of the write keeps a copy of the pointer, and the caller still has its own. The
  buffer goes back to the pool when the caller's is gone first, and is lost if the write is done before.\<close>

definition client_Send :: "nat \<Rightarrow> nat linked_pool \<Rightarrow> nat linked_pool" where
  "client_Send b p = copy_handle b p"

definition send_done :: "nat \<Rightarrow> nat linked_pool \<Rightarrow> nat linked_pool" where
  "send_done b p = give_back b p"

lemma sent_buffer_race:
  assumes "lpool.settled p" "b \<in> set (lp_store p)" "lp_handles p b = 1"
  shows "b \<in> set (free_buffers (send_done b (drop_handle (Some b) (client_Send b p))))"
    "b \<notin> set (free_buffers (drop_handle (Some b) (send_done b (client_Send b p)))) \<and>
     lp_handles (drop_handle (Some b) (send_done b (client_Send b p))) b = 0"
proof -
  have ok: "pool_ok p" and nf: "b \<notin> set (free_buffers p)" using assms by (auto simp: lpool.settled_def)
  let ?p1 = "drop_handle (Some b) (client_Send b p)" and ?p2 = "client_Send b p"
  have p1: "pool_ok ?p1" "free_buffers ?p1 = free_buffers p" "lp_store ?p1 = lp_store p" "lp_handles ?p1 b = 1"
    using ok assms(3) by (simp_all add: client_Send_def copy_handle_def drop_handle_def)
  with lpool.give_last [of ?p1 b] assms(2) nf
  show "b \<in> set (free_buffers (send_done b ?p1))" by (simp add: send_done_def)
  have p2: "pool_ok ?p2" "free_buffers ?p2 = free_buffers p" "lp_store ?p2 = lp_store p" "lp_handles ?p2 b = 2"
    using ok assms(3) by (simp_all add: client_Send_def copy_handle_def)
  with lpool.give_shared [of ?p2 b] assms(2) nf
  show "b \<notin> set (free_buffers (drop_handle (Some b) (send_done b ?p2))) \<and>
     lp_handles (drop_handle (Some b) (send_done b ?p2)) b = 0"
    by (simp add: send_done_def drop_handle_def)
qed

end
