(* ===== verification/Codec_Life.thy ===== *)
theory Codec_Life
  imports V4l2_Encoder Udp
begin

text \<open>
  How the parts of the prototype come and go: the factories of \<open>codec/codec.cpp\<close>, the CUDA context, the decoder's
  start and stop, the device of the V4L2 encoder from its opening to its closing, and the stops of the UDP
  server and clients. What a call of the system or of CUDA returns is an argument.
\<close>

section \<open>Factories\<close>

datatype codec_type = CUDA | V4L2

text \<open>Which codecs the build has; \<open>None\<close> is the exception for one it has not.\<close>

record codec_build =
  has_cuda :: bool
  has_v4l2 :: bool

definition Context_Create :: "codec_build \<Rightarrow> codec_type \<Rightarrow> codec_type option" where
  "Context_Create build t = (case t of CUDA \<Rightarrow> if has_cuda build then Some CUDA else None
     | V4L2 \<Rightarrow> if has_v4l2 build then Some V4L2 else None)"

definition BspEncoder_Create :: "codec_build \<Rightarrow> codec_type \<Rightarrow> codec_type option" where
  "BspEncoder_Create build t = (case t of CUDA \<Rightarrow> if has_cuda build then Some CUDA else None
     | V4L2 \<Rightarrow> if has_v4l2 build then Some V4L2 else None)"

definition BspDecoder_Create :: "codec_build \<Rightarrow> codec_type \<Rightarrow> codec_type option" where
  "BspDecoder_Create build t = (case t of CUDA \<Rightarrow> if has_cuda build then Some CUDA else None | V4L2 \<Rightarrow> None)"

text \<open>A machine has a decoder only where it has the encoder, and never one for V4L2.\<close>

lemma decoder_needs_cuda:
  "BspDecoder_Create build t \<noteq> None \<longleftrightarrow> t = CUDA \<and> BspEncoder_Create build t \<noteq> None"
  by (cases t) (auto simp: BspDecoder_Create_def BspEncoder_Create_def)

section \<open>The CUDA context\<close>

text \<open>The results of the calls in turn, the number of devices, and whether a context is left.\<close>

definition CudaContext :: "bool \<times> bool \<times> bool \<times> bool \<times> bool \<Rightarrow> int \<Rightarrow> bool" where
  "CudaContext results nGpu = (case results of (init, counted, got, named, created) \<Rightarrow>
     init \<and> counted \<and> nGpu = 1 \<and> got \<and> named \<and> created)"

section \<open>The decoder\<close>

text \<open>The worker beside the decoder; a stop joins the worker and waits until all frames are free.\<close>

record decoder_part_bsp =
  dp_worker :: "(byte list \<times> nat) worker_thread"
  dp_decoder :: cuda_decoder

definition bsp_decoder_Start :: "decoder_part_bsp \<Rightarrow> decoder_part_bsp" where
  "bsp_decoder_Start d = d\<lparr>dp_worker := wt_Start (dp_worker d)\<rparr>"

definition QueueDecode :: "byte list \<times> nat \<Rightarrow> decoder_part_bsp \<Rightarrow> decoder_part_bsp" where
  "QueueDecode qp d = d\<lparr>dp_worker := wt_PostWork qp (dp_worker d)\<rparr>"

definition bsp_decoder_Stop :: "(nat \<Rightarrow> nat) list \<Rightarrow> decoder_part_bsp \<Rightarrow> decoder_part_bsp option" where
  "bsp_decoder_Stop helds d = map_option (\<lambda>c. d\<lparr>dp_worker := wt_Stop (dp_worker d), dp_decoder := c\<rparr>)
     (WaitFreeMemory helds (dp_decoder d))"

section \<open>The device of the V4L2 encoder\<close>

text \<open>\<open>xioctl\<close> repeats an interrupted call up to ten times; \<open>None\<close> while no further result is known.\<close>

datatype ioctl_result = IoctlDone | IoctlInterrupted | IoctlFailed

fun xioctl :: "nat \<Rightarrow> ioctl_result list \<Rightarrow> bool option" where
  "xioctl num_tries [] = None"
| "xioctl num_tries (IoctlDone # rs) = Some True"
| "xioctl num_tries (IoctlFailed # rs) = Some False"
| "xioctl 0 (IoctlInterrupted # rs) = Some False"
| "xioctl (Suc num_tries) (IoctlInterrupted # rs) = xioctl num_tries rs"

lemma xioctl_ends: "n < length rs \<Longrightarrow> xioctl n rs \<noteq> None"
  by (induction n rs rule: xioctl.induct) auto

lemma xioctl_eleven: "xioctl 10 (replicate 11 IoctlInterrupted) = Some False"
  "xioctl 10 (replicate 10 IoctlInterrupted @ [IoctlDone]) = Some True"
  by (simp_all add: eval_nat_numeral)

text \<open>What the encoder has of the system. The buffers are known by their index.\<close>

record v4l2_device =
  vd_open :: bool
  vd_output_on :: bool
  vd_capture_on :: bool
  vd_mapped :: "nat list"
  vd_thread :: bool

definition no_device :: v4l2_device where
  "no_device = \<lparr>vd_open = False, vd_output_on = False, vd_capture_on = False, vd_mapped = [], vd_thread = False\<rparr>"

text \<open>The buffers downstream, each asked for, mapped and queued; the first call that fails throws.\<close>

fun map_downstream :: "nat \<Rightarrow> (bool \<times> bool \<times> bool) list \<Rightarrow> v4l2_device \<Rightarrow> bool \<times> v4l2_device" where
  "map_downstream i [] d = (True, d)"
| "map_downstream i ((queried, mapped, queued) # rest) d =
     (if \<not> queried \<or> \<not> mapped then (False, d)
      else let d1 = d\<lparr>vd_mapped := vd_mapped d @ [i]\<rparr> in
        if \<not> queued then (False, d1) else map_downstream (Suc i) rest d1)"

text \<open>\<open>CreateEncoder\<close>: the device is opened, the controls and formats set, the buffers requested and mapped.\<close>

definition CreateEncoder :: "bool \<Rightarrow> bool list \<Rightarrow> bool \<Rightarrow> (bool \<times> bool \<times> bool) list \<Rightarrow> bool \<times> v4l2_device" where
  "CreateEncoder opens controls granted buffers = (if \<not> opens then (False, no_device)
     else let d = no_device\<lparr>vd_open := True\<rparr> in
       if \<not> list_all id controls \<or> \<not> granted then (False, d) else map_downstream 0 buffers d)"

definition StartEncoder_v4l2 :: "bool \<times> bool \<Rightarrow> v4l2_device \<Rightarrow> bool \<times> v4l2_device" where
  "StartEncoder_v4l2 on d = (if \<not> fst on then (False, d)
     else let d1 = d\<lparr>vd_output_on := True\<rparr> in
       if \<not> snd on then (False, d1) else (True, d1\<lparr>vd_capture_on := True, vd_thread := True\<rparr>))"

definition DoStopEncoder :: "v4l2_device \<Rightarrow> v4l2_device" where
  "DoStopEncoder d = d\<lparr>vd_thread := False\<rparr>"

text \<open>The destructor; a call that fails is only reported.\<close>

definition V4l2Encoder_destroy :: "bool \<times> bool \<Rightarrow> v4l2_device \<Rightarrow> v4l2_device" where
  "V4l2Encoder_destroy off d = (let d1 = DoStopEncoder d;
       d2 = if fst off then d1\<lparr>vd_output_on := False\<rparr> else d1;
       d3 = if snd off then d2\<lparr>vd_capture_on := False\<rparr> else d2
     in d3\<lparr>vd_mapped := [], vd_open := False\<rparr>)"

lemma map_downstream_mapped:
  "map_downstream i bs d = (made, d1) \<Longrightarrow> \<exists>k \<le> length bs. d1 = d\<lparr>vd_mapped := vd_mapped d @ [i..<i + k]\<rparr> \<and>
     (made \<longrightarrow> k = length bs)"
proof (induction i bs d rule: map_downstream.induct)
  case (2 i queried mapped queued rest d)
  show ?case
  proof (cases "queried \<and> mapped \<and> queued")
    case True
    with 2 obtain k where "k \<le> length rest" "made \<longrightarrow> k = length rest"
      "d1 = d\<lparr>vd_mapped := (vd_mapped d @ [i]) @ [Suc i..<Suc i + k]\<rparr>" by (auto simp: Let_def)
    then show ?thesis by (intro exI [of _ "Suc k"]) (simp add: upt_conv_Cons)
  next
    case False
    with "2.prems" have "made = False \<and> (d1 = d \<or> d1 = d\<lparr>vd_mapped := vd_mapped d @ [i]\<rparr>)"
      by (auto simp: Let_def split: if_splits)
    then show ?thesis by (auto intro: exI [of _ "0 :: nat"] exI [of _ "1 :: nat"])
  qed
qed auto

text \<open>An encoder that could be made has mapped every buffer, and however it was started and stopped its
  destructor leaves nothing of the system behind but a stream that cannot be stopped. One that could not be
  made is not destroyed: the device stays open with the buffers mapped so far.\<close>

lemma v4l2_device_released:
  assumes "CreateEncoder opens controls granted buffers = (made, d)"
  shows "vd_open d = opens \<and> (made \<longrightarrow> vd_mapped d = [0..<length buffers]) \<and>
    V4l2Encoder_destroy (True, True) (fold (\<lambda>e d. case e of None \<Rightarrow> DoStopEncoder d | Some on \<Rightarrow> snd (StartEncoder_v4l2 on d)) es d) =
      no_device"
proof -
  have "\<exists>k \<le> length buffers. d = no_device\<lparr>vd_open := opens, vd_mapped := [0..<k]\<rparr> \<and> (made \<longrightarrow> k = length buffers)"
    using assms map_downstream_mapped [of 0 buffers "no_device\<lparr>vd_open := True\<rparr>" made d]
    by (auto simp: CreateEncoder_def Let_def no_device_def split: if_splits)
  then show ?thesis by (auto simp: V4l2Encoder_destroy_def DoStopEncoder_def no_device_def Let_def)
qed

section \<open>The stops of server and clients\<close>

text \<open>The server closes its socket, which ends the receive, and waits.\<close>

definition udp_server_Stop :: "udp_server \<Rightarrow> udp_server" where
  "udp_server_Stop = receive_handler OperationAborted"

lemma stopped_server_receives_nothing:
  "us_receiving (us_step (Completion ec) (udp_server_Stop s)) = None"
  by (cases "us_receiving s") (auto simp: udp_server_Stop_def receive_handler_def end_session_def)

text \<open>A client receives what the other end answers; its handler has the address of the client only. The pool
  closes the sockets and drops the clients. \<open>None\<close> is a handler that runs after its client.\<close>

datatype client_result = Reply nat | ReplyError | BadDescriptor

record udp_client =
  uk_alive :: bool
  uk_open :: bool
  uk_receiving :: bool

definition client_Receive :: "udp_client \<Rightarrow> udp_client" where
  "client_Receive c = c\<lparr>uk_receiving := True\<rparr>"

definition client_receive_handler :: "client_result \<Rightarrow> udp_client \<Rightarrow> udp_client option" where
  "client_receive_handler ec c = (if \<not> uk_alive c then None
     else let c1 = c\<lparr>uk_receiving := False\<rparr> in
       Some (if ec \<noteq> BadDescriptor then client_Receive c1 else c1))"

definition udp_client_Stop :: "udp_client \<Rightarrow> udp_client" where
  "udp_client_Stop c = (if uk_open c then c\<lparr>uk_open := False\<rparr> else c)"

text \<open>\<open>held e\<close> says that somebody else has a pointer to the client of the endpoint \<open>e\<close>.\<close>

definition pool_Stop :: "('e \<Rightarrow> bool) \<Rightarrow> ('e \<times> udp_client) list \<Rightarrow> ('e \<times> udp_client) list" where
  "pool_Stop held clients = map (\<lambda>(e, c). (e, (udp_client_Stop c)\<lparr>uk_alive := held e\<rparr>)) clients"

lemma stopped_client_dangles:
  assumes "(e, c) \<in> set clients" "uk_receiving c" "\<not> held e"
  shows "\<exists>c1. (e, c1) \<in> set (pool_Stop held clients) \<and> uk_receiving c1 \<and> client_receive_handler ReplyError c1 = None"
proof -
  have "(e, (udp_client_Stop c)\<lparr>uk_alive := held e\<rparr>) \<in> set (pool_Stop held clients)"
    unfolding pool_Stop_def using assms(1) by force
  then show ?thesis using assms by (intro exI [of _ "(udp_client_Stop c)\<lparr>uk_alive := held e\<rparr>"])
    (auto simp: udp_client_Stop_def client_receive_handler_def)
qed

end
