(* ===== verification/Camera_Repository.thy ===== *)
theory Camera_Repository
  imports Headset_Domain Ascii_Header Ordered_Map
begin

text \<open>
  \<open>src/prototype/internal/domain/camera\<close> and \<open>infrastructure/repository/memory.hpp\<close>: the settings of a camera
  with their checks, their JSON form, and the repository that keeps them in memory in that form. What is
  set with an empty message is accepted. \<open>float_to_int\<close> converts a floating point number of JSON.
\<close>

section \<open>The camera\<close>

record camera_entity =
  cam_buffer_count :: int
  cam_framerate :: int
  cam_resolution :: "uint32 \<times> uint32"
  cam_bin_output :: bool
  cam_is_base_camera :: bool
  cam_id :: int

definition Camera :: camera_entity where
  "Camera = \<lparr>cam_buffer_count = 4, cam_framerate = 30, cam_resolution = (1920, 1080), cam_bin_output = True,
     cam_is_base_camera = False, cam_id = - 1\<rparr>"

definition min_framerate :: int where "min_framerate = 15"
definition max_framerate :: int where "max_framerate = 60"

text \<open>\<open>small_platform\<close>: Windows or a 32-bit Raspberry Pi.\<close>

definition available_sizes :: "bool \<Rightarrow> (uint32 \<times> uint32) list" where
  "available_sizes small_platform = (if small_platform then [(1920, 1080), (1280, 720), (720, 480)]
     else [(1280, 720), (720, 480)])"

definition SetBufferCount :: "int \<Rightarrow> camera_entity \<Rightarrow> string \<times> camera_entity" where
  "SetBufferCount buffer_count c = (if buffer_count > 8 then (''buffer count must be less than 8'', c)
     else if buffer_count < 2 then (''buffer count must be at least 2'', c)
     else ([], c\<lparr>cam_buffer_count := buffer_count\<rparr>))"

definition SetFramerate :: "int \<Rightarrow> camera_entity \<Rightarrow> string \<times> camera_entity" where
  "SetFramerate fps c = (if fps < min_framerate then (''fps cannot be lower than '' @ decimal (nat min_framerate), c)
     else if fps > max_framerate then (''fps cannot be higher than '' @ decimal (nat max_framerate), c)
     else ([], c\<lparr>cam_framerate := fps\<rparr>))"

text \<open>\<open>Size::toString\<close> of libcamera: width, a cross, height.\<close>

definition size_text :: "uint32 \<times> uint32 \<Rightarrow> string" where
  "size_text sz = decimal (unat (fst sz)) @ ''x'' @ decimal (unat (snd sz))"

definition SetCaptureResolution :: "bool \<Rightarrow> uint32 \<times> uint32 \<Rightarrow> camera_entity \<Rightarrow> string \<times> camera_entity" where
  "SetCaptureResolution small_platform resolution c = (if resolution \<notin> set (available_sizes small_platform)
     then (''Resolution '' @ size_text resolution @ '' is unavailable; available resolutions include:'' @
       concat (map (\<lambda>res. '' '' @ size_text res) (available_sizes small_platform)), c)
     else ([], c\<lparr>cam_resolution := resolution\<rparr>))"

definition SetBinOutput :: "bool \<Rightarrow> camera_entity \<Rightarrow> camera_entity" where
  "SetBinOutput bin_output c = c\<lparr>cam_bin_output := bin_output\<rparr>"

section \<open>JSON\<close>

definition CameraToJson :: "camera_entity \<Rightarrow> 'f json" where
  "CameraToJson c = JObject [(''id'', JInt (cam_id c)), (''is_base_camera'', JBool (cam_is_base_camera c)),
     (''resolution'', JObject [(''width'', JInt (uint (fst (cam_resolution c)))),
       (''height'', JInt (uint (snd (cam_resolution c))))]),
     (''framerate'', JInt (cam_framerate c)), (''buffer_count'', JInt (cam_buffer_count c)),
     (''bin_output'', JBool (cam_bin_output c))]"

text \<open>\<open>get\<close> as a number: also of a boolean, of nothing else.\<close>

definition json_number :: "('f \<Rightarrow> int) \<Rightarrow> 'f json \<Rightarrow> json_error + int" where
  "json_number float_to_int j = (case j of JInt i \<Rightarrow> Inr i | JFloat f \<Rightarrow> Inr (float_to_int f)
     | JBool b \<Rightarrow> Inr (of_bool b) | _ \<Rightarrow> Inl TypeError)"

definition json_bool :: "'f json \<Rightarrow> json_error + bool" where
  "json_bool j = (case j of JBool b \<Rightarrow> Inr b | _ \<Rightarrow> Inl TypeError)"

definition json_then :: "json_error + 'a \<Rightarrow> ('a \<Rightarrow> json_error + 'b) \<Rightarrow> json_error + 'b" where
  "json_then r f = (case r of Inl e \<Rightarrow> Inl e | Inr x \<Rightarrow> f x)"

definition int_at :: "('f \<Rightarrow> int) \<Rightarrow> string \<Rightarrow> 'f json \<Rightarrow> json_error + int" where
  "int_at float_to_int k j = json_then (json_at k j) (\<lambda>v. map_sum id to_int32 (json_number float_to_int v))"

definition uint_at :: "('f \<Rightarrow> int) \<Rightarrow> string \<Rightarrow> 'f json \<Rightarrow> json_error + uint32" where
  "uint_at float_to_int k j = json_then (json_at k j) (\<lambda>v. map_sum id of_int (json_number float_to_int v))"

definition bool_at :: "string \<Rightarrow> 'f json \<Rightarrow> json_error + bool" where
  "bool_at k j = json_then (json_at k j) json_bool"

text \<open>Whether the base camera matters is only asked for the id 0.\<close>

definition JsonToCamera :: "('f \<Rightarrow> int) \<Rightarrow> 'f json \<Rightarrow> json_error + camera_entity option" where
  "JsonToCamera float_to_int j = (case j of JObject _ \<Rightarrow>
       json_then (int_at float_to_int ''id'' j) (\<lambda>i.
       json_then (if i = 0 then bool_at ''is_base_camera'' j else Inr True) (\<lambda>b.
       if \<not> b then Inr None else
       json_then (bool_at ''is_base_camera'' j) (\<lambda>is_base.
       json_then (json_then (json_at ''resolution'' j) (uint_at float_to_int ''width'')) (\<lambda>width.
       json_then (json_then (json_at ''resolution'' j) (uint_at float_to_int ''height'')) (\<lambda>height.
       json_then (int_at float_to_int ''framerate'' j) (\<lambda>framerate.
       json_then (int_at float_to_int ''buffer_count'' j) (\<lambda>buffer_count.
       json_then (bool_at ''bin_output'' j) (\<lambda>bin_output.
       Inr (Some \<lparr>cam_buffer_count = buffer_count, cam_framerate = framerate, cam_resolution = (width, height),
         cam_bin_output = bin_output, cam_is_base_camera = is_base, cam_id = i\<rparr>)))))))))
   | _ \<Rightarrow> Inr None)"

section \<open>The repository\<close>

record 'f memory_repository =
  mr_camera_store :: "(int \<times> 'f json) list"
  mr_base_camera :: "'f json"

definition MemoryRepository :: "'f memory_repository" where
  "MemoryRepository = \<lparr>mr_camera_store = [], mr_base_camera = JNull\<rparr>"

text \<open>\<open>TryGetCamera\<close> hands the element of the map to the parser: the pair of key and value, which the JSON
  library makes an array of two.\<close>

definition json_of_pair :: "int \<times> 'f json \<Rightarrow> 'f json" where
  "json_of_pair kv = JArray [JInt (fst kv), snd kv]"

definition TryGetCamera :: "('f \<Rightarrow> int) \<Rightarrow> int \<Rightarrow> 'f memory_repository \<Rightarrow> json_error + camera_entity option" where
  "TryGetCamera float_to_int i r = (case om_find (mr_camera_store r) i of None \<Rightarrow> Inr None
     | Some j \<Rightarrow> JsonToCamera float_to_int (json_of_pair (i, j)))"

definition TryGetBaseCamera :: "('f \<Rightarrow> int) \<Rightarrow> 'f memory_repository \<Rightarrow> json_error + camera_entity option" where
  "TryGetBaseCamera float_to_int r = (case mr_base_camera r of JObject kvs \<Rightarrow> JsonToCamera float_to_int (JObject kvs)
     | _ \<Rightarrow> Inr None)"

fun cameras_of :: "('f \<Rightarrow> int) \<Rightarrow> (int \<times> 'f json) list \<Rightarrow> json_error + camera_entity list" where
  "cameras_of float_to_int [] = Inr []"
| "cameras_of float_to_int ((_, j) # rest) = json_then (JsonToCamera float_to_int j) (\<lambda>c.
     json_then (cameras_of float_to_int rest) (\<lambda>cs. Inr (case c of None \<Rightarrow> cs | Some x \<Rightarrow> x # cs)))"

definition GetCameras :: "('f \<Rightarrow> int) \<Rightarrow> 'f memory_repository \<Rightarrow> json_error + camera_entity list" where
  "GetCameras float_to_int r = cameras_of float_to_int (mr_camera_store r)"

definition SetCamera :: "camera_entity \<Rightarrow> 'f memory_repository \<Rightarrow> bool \<times> 'f memory_repository" where
  "SetCamera c r = (True, r\<lparr>mr_camera_store := om_put (cam_id c) (CameraToJson c) (mr_camera_store r)\<rparr>)"

fun SetCameras :: "camera_entity list \<Rightarrow> 'f memory_repository \<Rightarrow> bool \<times> 'f memory_repository" where
  "SetCameras [] r = (True, r)"
| "SetCameras [c] r = SetCamera c r"
| "SetCameras (c # cs) r = SetCameras cs (snd (SetCamera c r))"

section \<open>What the checks keep\<close>

definition camera_in_limits :: "bool \<Rightarrow> camera_entity \<Rightarrow> bool" where
  "camera_in_limits small_platform c \<longleftrightarrow> 2 \<le> cam_buffer_count c \<and> cam_buffer_count c \<le> 8 \<and>
     15 \<le> cam_framerate c \<and> cam_framerate c \<le> 60 \<and>
     cam_resolution c \<in> insert (1920, 1080) (set (available_sizes small_platform))"

lemma setters_keep_limits:
  assumes "camera_in_limits small_platform c"
  shows "camera_in_limits small_platform (snd (SetBufferCount n c))"
    "camera_in_limits small_platform (snd (SetFramerate fps c))"
    "camera_in_limits small_platform (snd (SetCaptureResolution small_platform res c))"
    "camera_in_limits small_platform (SetBinOutput b c)"
  using assms by (auto simp: camera_in_limits_def SetBufferCount_def SetFramerate_def SetCaptureResolution_def
      SetBinOutput_def min_framerate_def max_framerate_def)

lemma setters_accept:
  "fst (SetBufferCount n c) = [] \<longleftrightarrow> 2 \<le> n \<and> n \<le> 8"
  "fst (SetFramerate fps c) = [] \<longleftrightarrow> 15 \<le> fps \<and> fps \<le> 60"
  "fst (SetCaptureResolution small_platform res c) = [] \<longleftrightarrow> res \<in> set (available_sizes small_platform)"
  by (auto simp: SetBufferCount_def SetFramerate_def SetCaptureResolution_def min_framerate_def max_framerate_def)

lemma new_camera_in_limits: "camera_in_limits small_platform Camera"
  by (simp add: camera_in_limits_def Camera_def)

section \<open>What comes back\<close>

definition fits_int :: "int \<Rightarrow> bool" where
  "fits_int i \<longleftrightarrow> - (2 ^ 31) \<le> i \<and> i < 2 ^ 31"

definition camera_fits :: "camera_entity \<Rightarrow> bool" where
  "camera_fits c \<longleftrightarrow> fits_int (cam_id c) \<and> fits_int (cam_framerate c) \<and> fits_int (cam_buffer_count c)"

lemma to_int32_fits: "fits_int i \<Longrightarrow> to_int32 i = i"
  by (simp add: fits_int_def to_int32_def signed_of_int signed_take_bit_int_eq_self)

lemmas json_defs = json_then_def json_at_def int_at_def uint_at_def bool_at_def json_number_def json_bool_def

lemma JsonToCamera_CameraToJson:
  assumes "camera_fits c"
  shows "JsonToCamera float_to_int (CameraToJson c) =
    Inr (if cam_id c = 0 \<and> \<not> cam_is_base_camera c then None else Some c)"
  using assms by (simp add: JsonToCamera_def CameraToJson_def json_defs camera_fits_def to_int32_fits)

text \<open>The repository by what it means: the cameras by their id.\<close>

definition cameras_by_id :: "camera_entity list \<Rightarrow> (int \<times> camera_entity) list" where
  "cameras_by_id cs = fold (\<lambda>c. om_put (cam_id c) c) cs []"

lemma om_put_map_values:
  "om_put k (f v) (map (\<lambda>(k, v). (k, f v)) m) = map (\<lambda>(k, v). (k, f v)) (om_put k v m)"
  by (induction m) auto

lemma store_by_id:
  "mr_camera_store (fold (\<lambda>c. snd \<circ> SetCamera c) cs (MemoryRepository :: 'f memory_repository)) =
     map (\<lambda>(k, c). (k, CameraToJson c)) (cameras_by_id cs) \<and>
   mr_base_camera (fold (\<lambda>c. snd \<circ> SetCamera c) cs (MemoryRepository :: 'f memory_repository)) = JNull"
proof (induction cs rule: rev_induct)
  case (snoc c cs)
  then show ?case by (simp add: SetCamera_def cameras_by_id_def om_put_map_values)
qed (simp add: MemoryRepository_def cameras_by_id_def)

lemma SetCameras_fold: "SetCameras cs r = (True, fold (\<lambda>c. snd \<circ> SetCamera c) cs r)"
  by (induction cs r rule: SetCameras.induct) (auto simp: SetCamera_def)

lemma cameras_by_id_find:
  "om_wf (cameras_by_id cs) \<and>
   om_find (cameras_by_id cs) i = (case filter (\<lambda>c. cam_id c = i) (rev cs) of [] \<Rightarrow> None | c # _ \<Rightarrow> Some c)"
proof (induction cs rule: rev_induct)
  case (snoc c cs)
  then show ?case by (auto simp: cameras_by_id_def om_simps)
qed (simp add: cameras_by_id_def)

lemma cameras_of_stored:
  assumes "\<forall>(k, c) \<in> set m. camera_fits c"
  shows "cameras_of float_to_int (map (\<lambda>(k, c). (k, CameraToJson c)) m) =
    Inr (filter (\<lambda>c. \<not> (cam_id c = 0 \<and> \<not> cam_is_base_camera c)) (map snd m))"
  using assms by (induction m) (auto simp: JsonToCamera_CameraToJson json_then_def)

lemma cameras_by_id_set: "snd ` set (cameras_by_id cs) \<subseteq> set cs"
proof -
  have "c \<in> set cs" if "(k, c) \<in> set (cameras_by_id cs)" for k c
  proof -
    from that cameras_by_id_find [of cs k] have "om_find (cameras_by_id cs) k = Some c"
      by (metis om_find_in_set)
    with cameras_by_id_find [of cs k] obtain ys where "filter (\<lambda>c. cam_id c = k) (rev cs) = c # ys"
      by (auto split: list.splits)
    then have "c \<in> set (filter (\<lambda>c. cam_id c = k) (rev cs))" by (metis list.set_intros(1))
    then show ?thesis by simp
  qed
  then show ?thesis by auto
qed

text \<open>C30 (functional): The repository returns from \<open>GetCameras\<close> what was last set for each id, in the order of
  the ids, but for a camera with the id 0 that is not the base camera; \<open>TryGetCamera\<close> finds no camera ever,
  whatever was set, and \<open>TryGetBaseCamera\<close> none either.\<close>

theorem camera_repository_returns:
  fixes cs :: "camera_entity list"
  assumes "\<forall>c \<in> set cs. camera_fits c"
  defines "r \<equiv> snd (SetCameras cs MemoryRepository)"
  shows "(\<exists>m. GetCameras float_to_int r = Inr (filter (\<lambda>c. \<not> (cam_id c = 0 \<and> \<not> cam_is_base_camera c)) (map snd m)) \<and>
      sorted_wrt (<) (map fst m) \<and>
      (\<forall>i. map_of m i = (case filter (\<lambda>c. cam_id c = i) (rev cs) of [] \<Rightarrow> None | c # _ \<Rightarrow> Some c))) \<and>
    (\<forall>i. TryGetCamera float_to_int i r = Inr None) \<and> TryGetBaseCamera float_to_int r = Inr None"
proof -
  have store: "mr_camera_store r = map (\<lambda>(k, c). (k, CameraToJson c)) (cameras_by_id cs)" "mr_base_camera r = JNull"
    using store_by_id [of cs] by (auto simp: r_def SetCameras_fold)
  have "GetCameras float_to_int r =
      Inr (filter (\<lambda>c. \<not> (cam_id c = 0 \<and> \<not> cam_is_base_camera c)) (map snd (cameras_by_id cs)))"
    unfolding GetCameras_def store using assms(1) cameras_by_id_set [of cs] by (intro cameras_of_stored) auto
  moreover have "sorted_wrt (<) (map fst (cameras_by_id cs))"
    using cameras_by_id_find [of cs] by (simp add: om_wf_def om_keys_def)
  moreover have "map_of (cameras_by_id cs) i = (case filter (\<lambda>c. cam_id c = i) (rev cs) of [] \<Rightarrow> None | c # _ \<Rightarrow> Some c)" for i
    using cameras_by_id_find [of cs i] by (simp add: om_find_def)
  moreover have "TryGetCamera float_to_int i r = Inr None" for i
    by (simp add: TryGetCamera_def json_of_pair_def JsonToCamera_def split: option.splits)
  moreover have "TryGetBaseCamera float_to_int r = Inr None" by (simp add: TryGetBaseCamera_def store)
  ultimately show ?thesis by blast
qed

theorem camera_repository_returns_witness:
  "let r = snd (SetCameras [Camera\<lparr>cam_id := 2\<rparr>, Camera\<lparr>cam_id := 1\<rparr>] (MemoryRepository :: unit memory_repository))
   in TryGetCamera (\<lambda>_. 0) 2 r = Inr None"
proof -
  let ?cs = "[Camera\<lparr>cam_id := 2\<rparr>, Camera\<lparr>cam_id := 1\<rparr>]"
  have "\<forall>c \<in> set ?cs. camera_fits c" by (simp add: camera_fits_def fits_int_def Camera_def)
  from camera_repository_returns [OF this, where float_to_int = "\<lambda>_ :: unit. 0"] show ?thesis
    unfolding Let_def by blast
qed

end
