(* ===== verification/Spec2Isabelle.thy ===== *)
theory Spec2Isabelle
  imports Connection_Race Tcp_Lifecycle Tcp_Client_Life System Runtime Location Frame_Relay Graphics_Setup
    Picture_Geometry Codec_Life Camera_Repository
begin

text \<open>
  AugmentedNormalcy: cameras film a room, a server receives their frames over TCP and sends each on to the
  headsets and displays that watch that camera, and a headset's button moves its wearer to another camera
  over a websocket. This library models the C++ of the four programs (\<open>src/application/\<close>), their services
  (\<open>src/internal/service/\<close>) and parts (\<open>src/internal/infrastructure/\<close>, \<open>src/internal/domain/\<close>,
  \<open>src/internal/utils/\<close>) and proves what makes them correct.

  The parts and how they interact.
    A camera program takes a frame of its camera, has the encoder compress it and posts it to the TCP
    client, which writes it behind a binary header. The server's session for that camera reads it into a
    buffer of its pool and posts it to the connection manager, which writes it on the sessions of all
    screens attached to the camera; each session copies it into its write pool and writes it behind a new
    header. The TCP client of a headset or display reads it, the decoder decompresses it into a buffer the
    graphics show, and the buffer goes back when the next one is shown. Headset and display have a websocket
    to the server as well; a message on it rotates the screen to the next camera or resets it to the first.
    Classes are records with the fields of the class; a method is a function from the state (and the
    arguments, with what a library returns) to the new state and the calls it makes on others, as data; a
    completion handler of asio is a function of its own, which may run whenever its operation is pending.
    Exceptions and failing constructors are \<open>Inl\<close>, undefined behaviour is \<open>None\<close>. Where threads share
    state the critical sections are the steps of an inductive relation.

  The theories, in the order of the code.
    \<open>Prelude\<close>: names for the machine types, segments of buffers, cyclic successors, runs.
    \<open>Ordered_Map\<close>: \<open>std::map\<close>, a locale of its laws and sorted association lists as its implementation.
    \<open>Worker\<close>: locales for a class with a thread of its own, and for one that takes its work off a queue.
    \<open>Asio_Context\<close> (\<open>utils/asio_context.hpp\<close>): the pool of threads.
    \<open>Connection_Manager\<close> (\<open>service/server/connection_manager.cpp\<close>): every operation of the manager over its four
    maps. \<open>Connection_Invariants\<close> relates the maps and shows each operation keeps the relations;
    \<open>Connection_Routing\<close> states the specification, one map from screens to cameras, and
    \<open>Connection_Refinement\<close> that the manager implements it; \<open>Connection_Delivery\<close> draws the consequences for
    frames and rotations; \<open>Connection_Race\<close> interleaves the critical sections of concurrent calls.
    \<open>Server_Streamer\<close>, \<open>Timer_Loop\<close> (\<open>service/server/server_streamer.cpp\<close>): classes of peers, messages, the two
    switching threads.
    \<open>Packet_Header\<close>, \<open>Ascii_Header\<close>, \<open>Buffer_Pool\<close> (\<open>tcp/tcp_utils.hpp\<close>): the binary header at its byte
    offsets and widths, the text header it replaced, and the pools, interpretations of one locale.
    \<open>Packet_Stream\<close>, \<open>Packet_Read\<close>, \<open>Frame_Link\<close>: the stream of frames as a contract: reference machines for a
    writer and a reader, and locales for classes that follow them, in which delivery is proved once.
    \<open>Tcp_Server\<close>, \<open>Tcp_Client\<close> (\<open>tcp/tcp_server.cpp\<close>, \<open>tcp_client.cpp\<close>): both kinds of session and the client.
    \<open>Tcp_Links\<close> shows them to be such writers and readers, \<open>Frame_Relay\<close> joins the connections of all cameras
    and of a screen by the connection manager, \<open>Tcp_Lifecycle\<close> and \<open>Tcp_Client_Life\<close> show how they connect,
    time out and end.
    \<open>Websocket_Client\<close>, \<open>Websocket_Life\<close>, \<open>Websocket_Server\<close> (\<open>websocket/\<close>): the same for the websockets.
    \<open>Button\<close>, \<open>Headset_Domain\<close> (\<open>domain/\<close>), \<open>Pi_Gpio\<close> (\<open>gpio/\<close>): the button, the headset's states, the messages
    as JSON, the polling thread.
    \<open>Image_Rows\<close>, \<open>Sw_Codec\<close> (\<open>encoder/sw_encoder.cpp\<close>, \<open>decoder/sw_decoder.cpp\<close>): the walks over the planes of a
    frame, the queues and pools of the two threads.
    \<open>Graphics\<close> (\<open>graphics/headset_graphics.cpp\<close>, \<open>display_graphics.cpp\<close>): the queue of images and the turns of the
    drawing loops. \<open>Graphics_Setup\<close>: the windows a headset opens one after the other and the objects of each.
    \<open>Picture_Geometry\<close>: the vertices, the shader and where they put the picture.
    \<open>Libcamera_Setup\<close>, \<open>Libcamera_Camera\<close>, \<open>String_Camera\<close> (\<open>camera/\<close>): opening and mapping a camera, the life of its
    requests and buffers, and the camera of the tests.
    \<open>Serial_Bms\<close> (\<open>bms/\<close>): the reader of the battery, with the regular expressions it uses. \<open>Location\<close>
    (\<open>location/\<close>): the serial ports of a machine.
    \<open>Service_Parts\<close>: the factories and the parts that do nothing.
    \<open>Headset_Streamer\<close>, \<open>Headset_Life\<close>, \<open>Display_Streamer\<close>, \<open>Camera_Streamer\<close> (\<open>service/\<close>): the services of the
    clients, built of the parts above.
    \<open>App_Config\<close>, \<open>Runtime\<close> (\<open>application/\<close>): configuration, the wait for a signal, the four \<open>main\<close> functions.
    \<open>Ownership\<close>: the shared pointers between the parts of a service, and \<open>Unset\<close>.
    \<open>System\<close>: what spans the programs. This theory: what spans all parts with a thread.

  The prototype (\<open>src/prototype/internal/\<close>), which sent H264 over UDP.
    \<open>Linked_Pool\<close> (\<open>utility/buffer_pool.hpp\<close>): the pool as a doubly linked list in a heap of nodes, an
    interpretation of a locale of pools with shared buffers. \<open>Bsp_Packet\<close> (\<open>codec/bsp_packet.hpp\<close>): the datagram.
    \<open>Bsp_Codec\<close> (\<open>utility/worker_thread.hpp\<close>, \<open>codec/codec.cpp\<close>, \<open>codec/cuda/\<close>): the worker, the numbering of
    datagrams and what the decoder drops. \<open>V4l2_Encoder\<close> (\<open>codec/v4l2/\<close>): the two threads of the hardware encoder
    over the queues of its driver. \<open>Camera_Repository\<close> (\<open>domain/camera/\<close>, \<open>repository/memory.hpp\<close>): the camera
    entity, its JSON and its store. \<open>Udp\<close> (\<open>udp/\<close>): context, server and clients. \<open>Codec_Life\<close>: factories,
    the CUDA context, the device of the V4L2 encoder from opening to closing, and the stops of the UDP parts.

  What the lemmas show.
    Frames arrive whole and in order on both links however the network cuts them and on the whole way from
    the cameras to a screen however the routes change, and a frame of a camera is what the headset draws,
    upright and where it belongs; the manager implements the router, also under interleaving; sessions end
    once and never hang without a timeout; messages are sent in order and no client is stuck; buffers are
    conserved in every pool; encoder and decoder agree about the layout of a frame and stay inside it where
    the height allows; a program that is told to end does, leaves nothing behind and says so in its file.
    Where the code does not keep such a promise, a theorem shows a run in which it fails, and
    the hypotheses of the theorems that hold say what must be avoided: that a camera does not register
    again under an address in use, that heights are multiples of sixteen, that the length a header announces
    is that of its frame.

  Bounds.
    Words have the width of the C++ type wherever they can wrap: the fields of the header, the session
    numbers, the counter of the string camera. Sizes of buffers and images are natural numbers, times are
    integers in the unit of the clock; the frames a camera's counter can number are bounded by the length
    of the run. There is no fuel: every loop ends by structure or by a measure, and loops that wait for the
    world are runs over a list of events of any length.

  Not modelled.
    The JPEG library, EGL, GLES, GLFW, libcamera, pigpio, the serial port, nlohmann's parser and printer and
    the kernel's sockets are parameters: what they return is an argument of the definitions that use it.
    The window hints and what the shaders compute of the colours are left out, as is console output. The
    pace of timers is left open except where the code compares times. Weak memory and data races outside
    the critical sections are not considered. Of the prototype, the camera is an earlier copy of the one
    modelled; the values it sets up NVENC, NVDEC and the V4L2 controls with are left out, and its
    \<open>scratch\<close> directory, \<open>src/scratch\<close>, \<open>src/third_party\<close> and \<open>src/test\<close> are trials, libraries and tests.
\<close>

section \<open>Every thread\<close>



end
